(* ===== verification/Prelude.thy ===== *)
theory Prelude
  imports Main "HOL-Library.Word"
begin

text \<open>
  Shared vocabulary of the development: the machine integers of the C sources,
  byte buffers, the little-endian accessors behind the \<open>__le16\<close>, \<open>__le32\<close> and
  \<open>__le64\<close> members of the on-disk structures (\<open>include/f2fs_fs.h\<close>), and the
  generic lemmas on words and buffers the component theories rest on.
\<close>

unbundle bit_operations_syntax

type_synonym u8 = "8 word"
type_synonym u16 = "16 word"
type_synonym u32 = "32 word"
type_synonym u64 = "64 word"

text \<open>
  A C object reached through a \<open>char *\<close> is a \<open>buf\<close>: the byte at each offset from
  the pointer. Storing through the pointer is function update.
\<close>

type_synonym buf = "nat \<Rightarrow> u8"

named_theorems buf_simps \<open>reading a buffer field after a store\<close>
named_theorems bit_count \<open>population counts of bitmaps\<close>

subsection \<open>Little-endian members\<close>

definition le16_at :: "buf \<Rightarrow> nat \<Rightarrow> u16" where
  "le16_at b off = ucast (b off) OR push_bit 8 (ucast (b (off + 1)))"

definition le32_at :: "buf \<Rightarrow> nat \<Rightarrow> u32" where
  "le32_at b off = ucast (b off) OR push_bit 8 (ucast (b (off + 1))) OR
     push_bit 16 (ucast (b (off + 2))) OR push_bit 24 (ucast (b (off + 3)))"

definition le64_at :: "buf \<Rightarrow> nat \<Rightarrow> u64" where
  "le64_at b off = ucast (le32_at b off) OR push_bit 32 (ucast (le32_at b (off + 4)))"

definition put_le16 :: "nat \<Rightarrow> u16 \<Rightarrow> buf \<Rightarrow> buf" where
  "put_le16 off v b = b(off := ucast v, off + 1 := ucast (drop_bit 8 v))"

definition put_le32 :: "nat \<Rightarrow> u32 \<Rightarrow> buf \<Rightarrow> buf" where
  "put_le32 off v b = b(off := ucast v, off + 1 := ucast (drop_bit 8 v),
     off + 2 := ucast (drop_bit 16 v), off + 3 := ucast (drop_bit 24 v))"

definition put_le64 :: "nat \<Rightarrow> u64 \<Rightarrow> buf \<Rightarrow> buf" where
  "put_le64 off v b = put_le32 (off + 4) (ucast (drop_bit 32 v)) (put_le32 off (ucast v) b)"

text \<open>\<open>memcpy\<close> of \<open>n\<close> bytes from \<open>src\<close> to offset \<open>off\<close>, and the view from offset \<open>off\<close>.\<close>

definition put_bytes :: "nat \<Rightarrow> nat \<Rightarrow> buf \<Rightarrow> buf \<Rightarrow> buf" where
  "put_bytes off n src b = (\<lambda>i. if off \<le> i \<and> i < off + n then src (i - off) else b i)"

definition at_off :: "nat \<Rightarrow> buf \<Rightarrow> buf" where
  "at_off off b = (\<lambda>i. b (off + i))"

definition zero_buf :: buf where
  "zero_buf = (\<lambda>_. 0)"

lemma le16_at_put_same [simp, buf_simps]: "le16_at (put_le16 off v b) off = v"
  by (rule bit_word_eqI)
     (auto simp: le16_at_def put_le16_def bit_simps)

lemma le32_at_put_same [simp, buf_simps]: "le32_at (put_le32 off v b) off = v"
proof (rule bit_word_eqI)
  fix n assume "n < LENGTH(32)"
  then consider "n < 8" | "8 \<le> n" "n < 16" | "16 \<le> n" "n < 24" | "24 \<le> n" "n < 32"
    by fastforce
  then show "bit (le32_at (put_le32 off v b) off) n = bit v n"
    by cases (auto simp: le32_at_def put_le32_def bit_simps)
qed

lemma put_le16_out [buf_simps]: "i < off \<or> off + 2 \<le> i \<Longrightarrow> put_le16 off v b i = b i"
  by (auto simp: put_le16_def)

lemma put_le32_out [buf_simps]: "i < off \<or> off + 4 \<le> i \<Longrightarrow> put_le32 off v b i = b i"
  by (auto simp: put_le32_def)

lemma put_le64_out [buf_simps]: "i < off \<or> off + 8 \<le> i \<Longrightarrow> put_le64 off v b i = b i"
  by (auto simp: put_le64_def put_le32_def)

lemma le16_at_cong: "(\<And>i. off \<le> i \<Longrightarrow> i < off + 2 \<Longrightarrow> b i = c i) \<Longrightarrow> le16_at b off = le16_at c off"
  by (simp add: le16_at_def)

lemma le32_at_cong: "(\<And>i. off \<le> i \<Longrightarrow> i < off + 4 \<Longrightarrow> b i = c i) \<Longrightarrow> le32_at b off = le32_at c off"
  by (simp add: le32_at_def)

lemma le64_at_cong: "(\<And>i. off \<le> i \<Longrightarrow> i < off + 8 \<Longrightarrow> b i = c i) \<Longrightarrow> le64_at b off = le64_at c off"
  by (simp add: le64_at_def le32_at_def)

lemma le64_at_put_same [simp, buf_simps]: "le64_at (put_le64 off v b) off = v"
proof -
  have lo: "le32_at (put_le64 off v b) off = ucast v"
  proof -
    have "le32_at (put_le64 off v b) off = le32_at (put_le32 off (ucast v) b) off"
      unfolding put_le64_def by (rule le32_at_cong) (simp add: put_le32_out)
    then show ?thesis by simp
  qed
  have hi: "le32_at (put_le64 off v b) (off + 4) = ucast (drop_bit 32 v)"
    by (simp add: put_le64_def)
  show ?thesis
    unfolding le64_at_def lo hi by (rule bit_word_eqI) (auto simp: bit_simps)
qed

lemma le16_at_put_le16 [buf_simps]:
  "off + 2 \<le> o' \<or> o' + 2 \<le> off \<Longrightarrow> le16_at (put_le16 off v b) o' = le16_at b o'"
  by (rule le16_at_cong) (auto simp: put_le16_out)

lemma le16_at_put_le32 [buf_simps]:
  "off + 4 \<le> o' \<or> o' + 2 \<le> off \<Longrightarrow> le16_at (put_le32 off v b) o' = le16_at b o'"
  by (rule le16_at_cong) (auto simp: put_le32_out)

lemma le16_at_put_le64 [buf_simps]:
  "off + 8 \<le> o' \<or> o' + 2 \<le> off \<Longrightarrow> le16_at (put_le64 off v b) o' = le16_at b o'"
  by (rule le16_at_cong) (auto simp: put_le64_out)

lemma le32_at_put_le16 [buf_simps]:
  "off + 2 \<le> o' \<or> o' + 4 \<le> off \<Longrightarrow> le32_at (put_le16 off v b) o' = le32_at b o'"
  by (rule le32_at_cong) (auto simp: put_le16_out)

lemma le32_at_put_le32 [buf_simps]:
  "off + 4 \<le> o' \<or> o' + 4 \<le> off \<Longrightarrow> le32_at (put_le32 off v b) o' = le32_at b o'"
  by (rule le32_at_cong) (auto simp: put_le32_out)

lemma le32_at_put_le64 [buf_simps]:
  "off + 8 \<le> o' \<or> o' + 4 \<le> off \<Longrightarrow> le32_at (put_le64 off v b) o' = le32_at b o'"
  by (rule le32_at_cong) (auto simp: put_le64_out)

lemma le64_at_put_le16 [buf_simps]:
  "off + 2 \<le> o' \<or> o' + 8 \<le> off \<Longrightarrow> le64_at (put_le16 off v b) o' = le64_at b o'"
  by (rule le64_at_cong) (auto simp: put_le16_out)

lemma le64_at_put_le32 [buf_simps]:
  "off + 4 \<le> o' \<or> o' + 8 \<le> off \<Longrightarrow> le64_at (put_le32 off v b) o' = le64_at b o'"
  by (rule le64_at_cong) (auto simp: put_le32_out)

lemma le64_at_put_le64 [buf_simps]:
  "off + 8 \<le> o' \<or> o' + 8 \<le> off \<Longrightarrow> le64_at (put_le64 off v b) o' = le64_at b o'"
  by (rule le64_at_cong) (auto simp: put_le64_out)

lemma put_bytes_in [buf_simps]: "off \<le> i \<Longrightarrow> i < off + n \<Longrightarrow> put_bytes off n src b i = src (i - off)"
  by (simp add: put_bytes_def)

lemma put_bytes_out [buf_simps]: "i < off \<or> off + n \<le> i \<Longrightarrow> put_bytes off n src b i = b i"
  by (auto simp: put_bytes_def)

lemma at_off_apply [buf_simps]: "at_off off b i = b (off + i)"
  by (simp add: at_off_def)

lemma at_off_0 [simp]: "at_off 0 b = b"
  by (simp add: at_off_def)

lemma at_off_at_off [simp]: "at_off m (at_off n b) = at_off (n + m) b"
  by (simp add: at_off_def add.assoc)

lemma le16_at_off [simp]: "le16_at (at_off k b) off = le16_at b (k + off)"
  by (simp add: le16_at_def at_off_apply add.assoc)

lemma le32_at_off [simp]: "le32_at (at_off k b) off = le32_at b (k + off)"
  by (simp add: le32_at_def at_off_apply add.assoc)

lemma le64_at_off [simp]: "le64_at (at_off k b) off = le64_at b (k + off)"
  by (simp add: le64_at_def add.assoc)

lemma unat_2p: "k < LENGTH('a) \<Longrightarrow> unat (2 ^ k :: 'a :: len word) = 2 ^ k"
  by (metis of_nat_numeral of_nat_power unat_of_nat mod_less power_strict_increasing_iff one_less_numeral_iff semiring_norm(76))

lemma word_less_2p_iff: "k < LENGTH('a) \<Longrightarrow> (w :: 'a :: len word) < 2 ^ k \<longleftrightarrow> unat w < 2 ^ k"
  by (simp add: word_less_nat_alt unat_2p)

lemma unat_drop_bit: "unat (drop_bit j (w :: 'a :: len word)) = unat w div 2 ^ j"
  by (subst unat_drop_bit_eq) (rule drop_bit_eq_div)

lemma drop_bit_below:
  "(w :: 'a :: len word) < 2 ^ (j + k) \<Longrightarrow> j + k < LENGTH('a) \<Longrightarrow> drop_bit j w < 2 ^ k"
proof -
  assume w: "w < 2 ^ (j + k)" and jk: "j + k < LENGTH('a)"
  then have "unat w < 2 ^ j * 2 ^ k" by (simp add: word_less_2p_iff flip: power_add)
  then have "unat (drop_bit j w) < 2 ^ k" unfolding unat_drop_bit
    by (simp add: less_mult_imp_div_less mult.commute)
  with jk show ?thesis by (simp add: word_less_2p_iff)
qed

lemma unat_ucast_u64 [simp]: "unat (ucast (a :: u32) :: u64) = unat a"
proof -
  have "unat a < 2 ^ 32" using unsigned_less [of a] by simp
  then show ?thesis by (simp add: unsigned_ucast_eq take_bit_nat_eq_self)
qed

lemma unat_ucast_u32: "unat x < 2 ^ 32 \<Longrightarrow> unat (ucast (x :: u64) :: u32) = unat x"
  by (simp add: unsigned_ucast_eq take_bit_nat_eq_self)

lemma unat_diff_u64:
  fixes a b :: u32
  assumes "unat a = unat b + k"
  shows "unat (ucast a - ucast b :: u64) = k"
proof -
  have "(ucast b :: u64) \<le> ucast a" using assms by (simp add: word_le_nat_alt)
  then show ?thesis using assms by (simp add: unat_sub)
qed

lemma unat_add_cancel:
  fixes a b c :: u32
  assumes "a + b = c" "unat c = unat a + k"
  shows "unat b = k"
proof -
  have "b = c - a" using assms(1) by auto
  moreover have "a \<le> c" using assms(2) by (simp add: word_le_nat_alt)
  ultimately show ?thesis using assms(2) by (simp add: unat_sub)
qed

lemma ucast_u64_eq_iff [simp]: "(ucast (a :: u32) :: u64) = ucast b \<longleftrightarrow> a = b"
  by (metis unat_ucast_u64 word_unat_eq_iff)

lemma ucast_u64_less_iff [simp]: "(ucast (a :: u32) :: u64) < ucast b \<longleftrightarrow> a < b"
  by (simp add: word_less_nat_alt)

lemma le32_at_zero [simp]: "le32_at zero_buf off = 0"
  by (simp add: le32_at_def zero_buf_def)

lemma le16_at_zero [simp]: "le16_at zero_buf off = 0"
  by (simp add: le16_at_def zero_buf_def)

lemma le64_at_zero [simp]: "le64_at zero_buf off = 0"
  by (simp add: le64_at_def)

end
