(* ===== verification/Bitops.thy ===== *)
theory Bitops
  imports Prelude
begin

text \<open>
  The bit operations of \<open>lib/libf2fs.c\<close>: the most-significant-bit-first bitmaps of the
  SIT, NAT and fsck areas (\<open>f2fs_test_bit\<close> and its relatives), the least-significant-first
  bitmaps of directory blocks (\<open>test_bit_le\<close> and its relatives), the bit search
  \<open>_find_next_bit_le\<close>, the population-count table and \<open>log_base_2\<close>.
  The locale \<open>bitmap\<close> is the contract both families satisfy.
\<close>

subsection \<open>Base-2 logarithm\<close>

function log2_loop :: "u32 \<Rightarrow> int \<Rightarrow> int" where
  "log2_loop num ret =
     (let num' = drop_bit 1 num in if num' \<noteq> 0 then log2_loop num' (ret + 1) else ret)"
  by pat_completeness auto
termination
proof (relation "measure (\<lambda>(num, ret). unat num)")
  fix num :: u32 and ret :: int and num'
  assume "num' = drop_bit 1 num" "num' \<noteq> 0"
  then have "unat num' = unat num div 2" and "0 < unat num'"
    by (simp add: unat_div_distrib drop_bit_Suc, simp only: unat_gt_0 not_False_eq_True)
  then show "((num', ret + 1), num, ret) \<in> measure (\<lambda>(num, ret). unat num)"
    by simp
qed simp

declare log2_loop.simps [simp del]

definition log_base_2 :: "u32 \<Rightarrow> int" where
  "log_base_2 num =
     (if num \<le> 0 \<or> (num AND (num - 1)) \<noteq> 0 then -1 else log2_loop num 0)"

subsection \<open>The population-count table\<close>

definition bits_in_byte :: "nat list" where
  "bits_in_byte = [
    0, 1, 1, 2, 1, 2, 2, 3, 1, 2, 2, 3, 2, 3, 3, 4,
    1, 2, 2, 3, 2, 3, 3, 4, 2, 3, 3, 4, 3, 4, 4, 5,
    1, 2, 2, 3, 2, 3, 3, 4, 2, 3, 3, 4, 3, 4, 4, 5,
    2, 3, 3, 4, 3, 4, 4, 5, 3, 4, 4, 5, 4, 5, 5, 6,
    1, 2, 2, 3, 2, 3, 3, 4, 2, 3, 3, 4, 3, 4, 4, 5,
    2, 3, 3, 4, 3, 4, 4, 5, 3, 4, 4, 5, 4, 5, 5, 6,
    2, 3, 3, 4, 3, 4, 4, 5, 3, 4, 4, 5, 4, 5, 5, 6,
    3, 4, 4, 5, 4, 5, 5, 6, 4, 5, 5, 6, 5, 6, 6, 7,
    1, 2, 2, 3, 2, 3, 3, 4, 2, 3, 3, 4, 3, 4, 4, 5,
    2, 3, 3, 4, 3, 4, 4, 5, 3, 4, 4, 5, 4, 5, 5, 6,
    2, 3, 3, 4, 3, 4, 4, 5, 3, 4, 4, 5, 4, 5, 5, 6,
    3, 4, 4, 5, 4, 5, 5, 6, 4, 5, 5, 6, 5, 6, 6, 7,
    2, 3, 3, 4, 3, 4, 4, 5, 3, 4, 4, 5, 4, 5, 5, 6,
    3, 4, 4, 5, 4, 5, 5, 6, 4, 5, 5, 6, 5, 6, 6, 7,
    3, 4, 4, 5, 4, 5, 5, 6, 4, 5, 5, 6, 5, 6, 6, 7,
    4, 5, 5, 6, 5, 6, 6, 7, 5, 6, 6, 7, 6, 7, 7, 8]"

definition get_bits_in_byte :: "u8 \<Rightarrow> nat" where
  "get_bits_in_byte n = bits_in_byte ! unat n"

subsection \<open>Least-significant-bit-first bitmaps\<close>

definition test_and_set_bit_le :: "nat \<Rightarrow> buf \<Rightarrow> u8 \<times> buf" where
  "test_and_set_bit_le nr addr =
     (let k = nr div 8; mask = push_bit (nr mod 8) 1; retval = mask AND addr k
      in (retval, addr(k := addr k OR mask)))"

definition test_and_clear_bit_le :: "nat \<Rightarrow> buf \<Rightarrow> u8 \<times> buf" where
  "test_and_clear_bit_le nr addr =
     (let k = nr div 8; mask = push_bit (nr mod 8) 1; retval = mask AND addr k
      in (retval, addr(k := addr k AND NOT mask)))"

definition test_bit_le :: "nat \<Rightarrow> buf \<Rightarrow> u8" where
  "test_bit_le nr addr = push_bit (nr mod 8) 1 AND addr (nr div 8)"

subsection \<open>Most-significant-bit-first bitmaps\<close>

definition f2fs_test_bit :: "nat \<Rightarrow> buf \<Rightarrow> bool" where
  "f2fs_test_bit nr p =
     (let mask = push_bit (7 - nr mod 8) 1 in (mask AND p (nr div 8)) \<noteq> 0)"

definition f2fs_set_bit :: "nat \<Rightarrow> buf \<Rightarrow> u8 \<times> buf" where
  "f2fs_set_bit nr addr =
     (let k = nr div 8; mask = push_bit (7 - nr mod 8) 1; ret = mask AND addr k
      in (ret, addr(k := addr k OR mask)))"

definition f2fs_clear_bit :: "nat \<Rightarrow> buf \<Rightarrow> u8 \<times> buf" where
  "f2fs_clear_bit nr addr =
     (let k = nr div 8; mask = push_bit (7 - nr mod 8) 1; ret = mask AND addr k
      in (ret, addr(k := addr k AND NOT mask)))"

subsection \<open>Bit search\<close>

text \<open>The first set bit of a byte, by halving (\<open>__ffs\<close>).\<close>

definition ffs :: "u8 \<Rightarrow> nat" where
  "ffs word =
     (let (num, word) = (if (word AND 0xf) = 0 then (4, drop_bit 4 word) else (0, word));
          (num, word) = (if (word AND 0x3) = 0 then (num + 2, drop_bit 2 word) else (num, word))
      in if (word AND 0x1) = 0 then num + 1 else num)"

function find_next_loop :: "buf \<Rightarrow> nat \<Rightarrow> u8 \<Rightarrow> nat \<Rightarrow> u8 \<Rightarrow> nat" where
  "find_next_loop addr nbits invert start tmp =
     (if tmp = 0 then
        (let start' = start + 8
         in if nbits \<le> start' then nbits
            else find_next_loop addr nbits invert start' (addr (start' div 8) XOR invert))
      else min (start + ffs tmp) nbits)"
  by pat_completeness auto
termination
  by (relation "measure (\<lambda>(addr, nbits, invert, start, tmp). nbits - start)") auto

declare find_next_loop.simps [simp del]

definition find_next_bit_inv :: "buf \<Rightarrow> nat \<Rightarrow> nat \<Rightarrow> u8 \<Rightarrow> nat" where
  "find_next_bit_inv addr nbits start invert =
     (if nbits = 0 \<or> nbits \<le> start then nbits
      else
        let tmp = addr (start div 8) XOR invert;
            tmp = tmp AND push_bit (start mod 8) 0xff;
            start = start div 8 * 8
        in find_next_loop addr nbits invert start tmp)"

definition find_next_bit_le :: "buf \<Rightarrow> nat \<Rightarrow> nat \<Rightarrow> nat" where
  "find_next_bit_le addr nbits off = find_next_bit_inv addr nbits off 0"

definition find_next_zero_bit_le :: "buf \<Rightarrow> nat \<Rightarrow> nat \<Rightarrow> nat" where
  "find_next_zero_bit_le addr nbits off = find_next_bit_inv addr nbits off 0xff"

subsection \<open>Bits of a byte selected by a mask\<close>

lemma mask_and_zero_iff: "k < 8 \<Longrightarrow> (2 ^ k AND (x :: u8)) = 0 \<longleftrightarrow> \<not> bit x k"
  by (metis (no_types, opaque_lifting) and.commute and_exp_eq_0_iff_not_bit)

lemma div8_mod8_eq: "(i :: nat) div 8 = j div 8 \<Longrightarrow> i mod 8 = j mod 8 \<Longrightarrow> i = j"
  by (metis div_mult_mod_eq)

lemma f2fs_test_bit_iff: "f2fs_test_bit nr p \<longleftrightarrow> bit (p (nr div 8)) (7 - nr mod 8)"
  by (simp add: f2fs_test_bit_def mask_and_zero_iff)

lemma test_bit_le_iff: "test_bit_le nr p \<noteq> 0 \<longleftrightarrow> bit (p (nr div 8)) (nr mod 8)"
  by (simp add: test_bit_le_def mask_and_zero_iff)

lemma msb_index_inj: "7 - (i :: nat) mod 8 = 7 - j mod 8 \<Longrightarrow> i mod 8 = j mod 8"
proof -
  assume "7 - i mod 8 = 7 - j mod 8"
  moreover have "i mod 8 \<le> 7" "j mod 8 \<le> 7" by (simp_all add: Suc_leI flip: less_Suc_eq_le)
  ultimately show ?thesis by linarith
qed

lemma f2fs_test_set_bit:
  "f2fs_test_bit i (snd (f2fs_set_bit j b)) \<longleftrightarrow> i = j \<or> f2fs_test_bit i b"
proof (cases "i div 8 = j div 8")
  case True
  then show ?thesis
    using msb_index_inj [of i j] div8_mod8_eq [of i j]
    by (auto simp: f2fs_test_bit_iff f2fs_set_bit_def Let_def bit_simps)
next
  case False
  then show ?thesis by (auto simp: f2fs_test_bit_iff f2fs_set_bit_def Let_def)
qed

lemma f2fs_test_clear_bit:
  "f2fs_test_bit i (snd (f2fs_clear_bit j b)) \<longleftrightarrow> i \<noteq> j \<and> f2fs_test_bit i b"
proof (cases "i div 8 = j div 8")
  case True
  then show ?thesis
    using msb_index_inj [of i j] div8_mod8_eq [of i j]
    by (auto simp: f2fs_test_bit_iff f2fs_clear_bit_def Let_def bit_simps)
next
  case False
  then show ?thesis by (auto simp: f2fs_test_bit_iff f2fs_clear_bit_def Let_def)
qed

lemma test_bit_le_set:
  "test_bit_le i (snd (test_and_set_bit_le j b)) \<noteq> 0 \<longleftrightarrow> i = j \<or> test_bit_le i b \<noteq> 0"
proof (cases "i div 8 = j div 8")
  case True
  then show ?thesis
    using div8_mod8_eq [of i j]
    by (auto simp: test_bit_le_iff test_and_set_bit_le_def Let_def bit_simps)
next
  case False
  then show ?thesis by (auto simp: test_bit_le_iff test_and_set_bit_le_def Let_def)
qed

lemma test_bit_le_clear:
  "test_bit_le i (snd (test_and_clear_bit_le j b)) \<noteq> 0 \<longleftrightarrow> i \<noteq> j \<and> test_bit_le i b \<noteq> 0"
proof (cases "i div 8 = j div 8")
  case True
  then show ?thesis
    using div8_mod8_eq [of i j]
    by (auto simp: test_bit_le_iff test_and_clear_bit_le_def Let_def bit_simps)
next
  case False
  then show ?thesis by (auto simp: test_bit_le_iff test_and_clear_bit_le_def Let_def)
qed

subsection \<open>The contract of a bitmap\<close>

text \<open>
  What every user of a bitmap relies on: a store changes exactly the named bit. The
  consequences below are proved once from these two laws.
\<close>

locale bitmap =
  fixes test :: "nat \<Rightarrow> buf \<Rightarrow> bool"
    and set_bit :: "nat \<Rightarrow> buf \<Rightarrow> buf"
    and clear_bit :: "nat \<Rightarrow> buf \<Rightarrow> buf"
  assumes test_set: "test i (set_bit j b) \<longleftrightarrow> i = j \<or> test i b"
    and test_clear: "test i (clear_bit j b) \<longleftrightarrow> i \<noteq> j \<and> test i b"
begin

lemma ones_set: "{i. i < n \<and> test i (set_bit j b)} =
    (if j < n then insert j {i. i < n \<and> test i b} else {i. i < n \<and> test i b})"
  by (auto simp: test_set)

lemma ones_clear: "{i. i < n \<and> test i (clear_bit j b)} = {i. i < n \<and> test i b} - {j}"
  by (auto simp: test_clear)

lemma card_ones_set:
  assumes "j < n" and "\<not> test j b"
  shows "card {i. i < n \<and> test i (set_bit j b)} = Suc (card {i. i < n \<and> test i b})"
  using assms by (simp add: ones_set)

lemma card_ones_set_again:
  assumes "test j b"
  shows "card {i. i < n \<and> test i (set_bit j b)} = card {i. i < n \<and> test i b}"
  using assms by (simp add: ones_set insert_absorb)

lemma card_ones_clear:
  assumes "j < n" and "test j b"
  shows "Suc (card {i. i < n \<and> test i (clear_bit j b)}) = card {i. i < n \<and> test i b}"
  unfolding ones_clear using assms by (intro card_Suc_Diff1) auto

lemma card_ones_le: "card {i. i < n \<and> test i b} \<le> n"
  using card_mono [of "{..<n}" "{i. i < n \<and> test i b}"] by auto

lemma card_ones_full: "card {i. i < n \<and> test i b} = n \<longleftrightarrow> (\<forall>i < n. test i b)"
proof
  assume full: "card {i. i < n \<and> test i b} = n"
  have "{i. i < n \<and> test i b} = {..<n}"
    by (rule card_subset_eq) (use full in auto)
  then show "\<forall>i < n. test i b" by auto
next
  assume "\<forall>i < n. test i b"
  then have "{i. i < n \<and> test i b} = {..<n}" by auto
  then show "card {i. i < n \<and> test i b} = n" by simp
qed

lemma card_ones_zero: "card {i. i < n \<and> test i b} = 0 \<longleftrightarrow> (\<forall>i < n. \<not> test i b)"
  by auto

end

interpretation msb: bitmap f2fs_test_bit "\<lambda>i b. snd (f2fs_set_bit i b)" "\<lambda>i b. snd (f2fs_clear_bit i b)"
  by unfold_locales (rule f2fs_test_set_bit, rule f2fs_test_clear_bit)

interpretation lsb: bitmap "\<lambda>i b. test_bit_le i b \<noteq> 0" "\<lambda>i b. snd (test_and_set_bit_le i b)"
  "\<lambda>i b. snd (test_and_clear_bit_le i b)"
  by unfold_locales (rule test_bit_le_set, rule test_bit_le_clear)

text \<open>The value a read-modify-write returns is the old bit.\<close>

lemma f2fs_set_bit_ret: "fst (f2fs_set_bit i b) \<noteq> 0 \<longleftrightarrow> f2fs_test_bit i b"
  by (simp add: f2fs_set_bit_def f2fs_test_bit_def Let_def)

lemma f2fs_clear_bit_ret: "fst (f2fs_clear_bit i b) \<noteq> 0 \<longleftrightarrow> f2fs_test_bit i b"
  by (simp add: f2fs_clear_bit_def f2fs_test_bit_def Let_def)

lemma test_and_set_ret: "fst (test_and_set_bit_le i b) = test_bit_le i b"
  by (simp add: test_and_set_bit_le_def test_bit_le_def Let_def)

text \<open>A store touches only the byte that holds the bit.\<close>

lemma f2fs_set_bit_frame: "k \<noteq> i div 8 \<Longrightarrow> snd (f2fs_set_bit i b) k = b k"
  by (simp add: f2fs_set_bit_def Let_def)

lemma f2fs_clear_bit_frame: "k \<noteq> i div 8 \<Longrightarrow> snd (f2fs_clear_bit i b) k = b k"
  by (simp add: f2fs_clear_bit_def Let_def)

subsection \<open>Counting bits\<close>

definition byte_ones :: "u8 \<Rightarrow> nat" where
  "byte_ones x = length (filter (bit x) [0..<8])"

lemma bits_in_byte_eq: "bits_in_byte = map (\<lambda>n. byte_ones (word_of_nat n)) [0..<256]"
  unfolding bits_in_byte_def byte_ones_def by code_simp

lemma byte_ones_table: "get_bits_in_byte x = byte_ones x"
proof -
  have "unat x < 256" using unsigned_less [of x] by simp
  then show ?thesis by (simp add: get_bits_in_byte_def bits_in_byte_eq)
qed

lemma byte_ones_card: "byte_ones x = card {k. k < 8 \<and> bit x k}"
proof -
  have "byte_ones x = card (set (filter (bit x) [0..<8]))"
    unfolding byte_ones_def by (rule distinct_card [symmetric]) simp
  also have "set (filter (bit x) [0..<8]) = {k. k < 8 \<and> bit x k}" by auto
  finally show ?thesis .
qed

lemma byte_block_image:
  "{i. 8 * n \<le> i \<and> i < 8 * Suc n \<and> f2fs_test_bit i b} =
   (\<lambda>k. 8 * n + (7 - k)) ` {k. k < 8 \<and> bit (b n) k}"
proof (intro set_eqI iffI)
  fix i assume "i \<in> {i. 8 * n \<le> i \<and> i < 8 * Suc n \<and> f2fs_test_bit i b}"
  then have i: "8 * n \<le> i" "i < 8 * n + 8" and t: "f2fs_test_bit i b" by auto
  then obtain r where r: "i = 8 * n + r" "r < 8" by (metis add_less_cancel_left le_Suc_ex)
  with t have "bit (b n) (7 - r)" by (simp add: f2fs_test_bit_iff)
  with r show "i \<in> (\<lambda>k. 8 * n + (7 - k)) ` {k. k < 8 \<and> bit (b n) k}"
    by (intro image_eqI [where x = "7 - r"]) auto
next
  fix i assume "i \<in> (\<lambda>k. 8 * n + (7 - k)) ` {k. k < 8 \<and> bit (b n) k}"
  then obtain k where k: "i = 8 * n + (7 - k)" "k < 8" "bit (b n) k" by auto
  define r where "r = 7 - k"
  with k have "i = 8 * n + r" "r < 8" "k = 7 - r" by auto
  then have "i div 8 = n" "i mod 8 = 7 - k" "8 * n \<le> i" "i < 8 * Suc n" by auto
  with k(2,3) show "i \<in> {i. 8 * n \<le> i \<and> i < 8 * Suc n \<and> f2fs_test_bit i b}"
    by (auto simp: f2fs_test_bit_iff)
qed

lemma card_byte_block:
  "card {i. 8 * n \<le> i \<and> i < 8 * Suc n \<and> f2fs_test_bit i b} = byte_ones (b n)"
  unfolding byte_block_image byte_ones_card by (rule card_image) (auto simp: inj_on_def)

lemma ones_by_bytes [bit_count]:
  "(\<Sum>k < n. get_bits_in_byte (b k)) = card {i. i < 8 * n \<and> f2fs_test_bit i b}"
proof (induction n)
  case (Suc n)
  let ?lo = "{i. i < 8 * n \<and> f2fs_test_bit i b}"
  let ?hi = "{i. 8 * n \<le> i \<and> i < 8 * Suc n \<and> f2fs_test_bit i b}"
  have "{i. i < 8 * Suc n \<and> f2fs_test_bit i b} = ?lo \<union> ?hi" by auto
  moreover have "card (?lo \<union> ?hi) = card ?lo + card ?hi"
    by (rule card_Un_disjoint) auto
  ultimately show ?case using Suc card_byte_block [of n b] by (simp add: byte_ones_table)
qed simp

lemma and_mask_zero_iff: "((w :: u8) AND mask n = 0) \<longleftrightarrow> (\<forall>k < n. \<not> bit w k)"
proof
  assume z: "w AND mask n = 0"
  show "\<forall>k < n. \<not> bit w k"
  proof (intro allI impI notI)
    fix k assume "k < n" and k: "bit w k"
    moreover have "k < 8" using bit_imp_le_length [OF k] by simp
    ultimately have "bit (w AND mask n) k" by (simp add: bit_simps)
    with z show False by simp
  qed
next
  assume "\<forall>k < n. \<not> bit w k"
  then show "w AND mask n = 0" by (intro bit_word_eqI) (auto simp: bit_simps)
qed

lemma ffs_least:
  assumes "w \<noteq> 0"
  shows "bit w (ffs w) \<and> (\<forall>k < ffs w. \<not> bit w k)"
proof -
  have lo: "(v AND 0xf = 0) \<longleftrightarrow> (\<forall>k < 4. \<not> bit v k)"
     "(v AND 0x3 = 0) \<longleftrightarrow> (\<forall>k < 2. \<not> bit v k)"
     "(v AND 1 = 0) \<longleftrightarrow> (\<forall>k < 1. \<not> bit v k)" for v :: u8
    using and_mask_zero_iff [of v 4] and_mask_zero_iff [of v 2] and_mask_zero_iff [of v 1]
    by (simp_all add: mask_eq_exp_minus_1)
  have "\<exists>m < 8. bit w m"
    using assms bit_imp_le_length [of w] by (fastforce simp: bit_eq_iff)
  then show ?thesis
    unfolding ffs_def Let_def lo
    by (simp add: bit_simps numeral_eq_Suc All_less_Suc Ex_less_Suc split: prod.split) blast
qed

lemma ffs_lt_8: "w \<noteq> 0 \<Longrightarrow> ffs w < 8"
  using ffs_least [of w] bit_imp_le_length [of w "ffs w"] by simp

text \<open>The bits \<open>_find_next_bit_le\<close> looks at: those of the buffer, complemented by \<open>invert\<close>.\<close>

definition xor_bit :: "buf \<Rightarrow> u8 \<Rightarrow> nat \<Rightarrow> bool" where
  "xor_bit addr invert i = bit (addr (i div 8) XOR invert) (i mod 8)"

definition first_from :: "(nat \<Rightarrow> bool) \<Rightarrow> nat \<Rightarrow> nat \<Rightarrow> nat \<Rightarrow> bool" where
  "first_from P start nbits r \<longleftrightarrow>
     (start \<le> r \<and> r < nbits \<and> P r \<and> (\<forall>i. start \<le> i \<longrightarrow> i < r \<longrightarrow> \<not> P i)) \<or>
     (r = nbits \<and> (\<forall>i. start \<le> i \<longrightarrow> i < nbits \<longrightarrow> \<not> P i))"

lemma first_from_skip:
  assumes r: "first_from P s' nbits r" and "s \<le> s'"
    and none: "\<And>i. s \<le> i \<Longrightarrow> i < s' \<Longrightarrow> i < nbits \<Longrightarrow> \<not> P i"
  shows "first_from P s nbits r"
proof -
  have skip: "(\<forall>i. s \<le> i \<longrightarrow> i < e \<longrightarrow> \<not> P i) \<longleftrightarrow> (\<forall>i. s' \<le> i \<longrightarrow> i < e \<longrightarrow> \<not> P i)"
    if "e \<le> nbits" for e
    using none that \<open>s \<le> s'\<close> by (meson le_trans less_le_trans not_le)
  show ?thesis
    using r \<open>s \<le> s'\<close> skip [of r] skip [of nbits] unfolding first_from_def by auto
qed

lemma xor_bit_byte: "k < 8 \<Longrightarrow> xor_bit addr invert (8 * q + k) \<longleftrightarrow> bit (addr q XOR invert) k"
  by (simp add: xor_bit_def)

lemma find_next_loop_first:
  assumes "start = 8 * q" and "start < nbits" and "start \<le> s" and "s \<le> start + 8"
    and tmp: "\<And>k. k < 8 \<Longrightarrow> bit tmp k \<longleftrightarrow> s \<le> start + k \<and> xor_bit addr invert (start + k)"
  shows "first_from (xor_bit addr invert) s nbits (find_next_loop addr nbits invert start tmp)"
  using assms
proof (induction addr nbits invert start tmp arbitrary: q s rule: find_next_loop.induct)
  case (1 addr nbits invert start tmp)
  note prems = "1.prems"
  show ?case
  proof (cases "tmp = 0")
    case True
    have none: "\<not> xor_bit addr invert i" if "s \<le> i" "i < start + 8" for i
    proof -
      define k where "k = i - start"
      with that prems(3) have k: "i = start + k" "k < 8" by auto
      then show ?thesis using prems(5) [of k] True that by simp
    qed
    show ?thesis
    proof (cases "nbits \<le> start + 8")
      case full: True
      then have "find_next_loop addr nbits invert start tmp = nbits"
        using True by (simp add: find_next_loop.simps)
      with full none show ?thesis by (auto simp: first_from_def)
    next
      case False
      let ?b = "addr ((start + 8) div 8) XOR invert"
      have next_byte: "xor_bit addr invert (start + 8 + k) \<longleftrightarrow> bit ?b k" if "k < 8" for k
        using xor_bit_byte [OF that, of addr invert "Suc q"] prems(1) by (simp add: add.commute add.left_commute)
      have "first_from (xor_bit addr invert) (start + 8) nbits
          (find_next_loop addr nbits invert (start + 8) ?b)"
        by (rule "1.IH" [OF True refl False, of "Suc q"])
           (use False prems(1) next_byte in auto)
      then have "first_from (xor_bit addr invert) s nbits
          (find_next_loop addr nbits invert (start + 8) ?b)"
        by (rule first_from_skip) (use prems none in auto)
      with True False show ?thesis by (simp add: find_next_loop.simps [of _ _ _ start] Let_def)
    qed
  next
    case False
    let ?r = "start + ffs tmp"
    have r: "find_next_loop addr nbits invert start tmp = min ?r nbits"
      using False by (simp add: find_next_loop.simps)
    have hit: "s \<le> ?r" "xor_bit addr invert ?r"
      using ffs_least [OF False] ffs_lt_8 [OF False] prems(5) by auto
    have none: "\<not> xor_bit addr invert i" if "s \<le> i" "i < ?r" for i
    proof -
      define k where "k = i - start"
      with that prems(3) have k: "i = start + k" "k < ffs tmp" by auto
      then show ?thesis
        using ffs_least [OF False] ffs_lt_8 [OF False] prems(5) [of k] that by auto
    qed
    show ?thesis unfolding r first_from_def using hit none by (auto simp: min_def)
  qed
qed

lemma first_byte_mask:
  assumes "k < 8"
  shows "bit (push_bit m 0xff :: u8) k \<longleftrightarrow> m \<le> k"
proof -
  have "(0xff :: u8) = - 1" by simp
  with assms show ?thesis by (simp only: bit_simps) auto
qed

lemma find_next_bit_inv_first:
  assumes "start \<le> nbits"
  shows "first_from (xor_bit addr invert) start nbits (find_next_bit_inv addr nbits start invert)"
proof (cases "start < nbits")
  case True
  have split: "start = start div 8 * 8 + start mod 8" by simp
  have "first_from (xor_bit addr invert) start nbits
      (find_next_loop addr nbits invert (start div 8 * 8)
        ((addr (start div 8) XOR invert) AND push_bit (start mod 8) 0xff))"
  proof (rule find_next_loop_first [where q = "start div 8"])
    show "start div 8 * 8 = 8 * (start div 8)" "start div 8 * 8 < nbits"
      "start div 8 * 8 \<le> start" "start \<le> start div 8 * 8 + 8" using True by auto
    show "bit ((addr (start div 8) XOR invert) AND push_bit (start mod 8) 0xff) k \<longleftrightarrow>
        start \<le> start div 8 * 8 + k \<and> xor_bit addr invert (start div 8 * 8 + k)" if "k < 8" for k
    proof -
      have "start \<le> start div 8 * 8 + k \<longleftrightarrow> start mod 8 \<le> k" using split by linarith
      with that show ?thesis
        by (auto simp: bit_and_iff first_byte_mask xor_bit_def)
    qed
  qed
  with True show ?thesis by (simp add: find_next_bit_inv_def Let_def)
next
  case False
  with assms show ?thesis by (simp add: find_next_bit_inv_def first_from_def)
qed


lemma xor_bit_0: "xor_bit addr 0 i \<longleftrightarrow> test_bit_le i addr \<noteq> 0"
  by (simp add: xor_bit_def test_bit_le_iff)

lemma xor_bit_ff: "xor_bit addr 0xff i \<longleftrightarrow> test_bit_le i addr = 0"
proof -
  have "(0xff :: u8) = - 1" by simp
  moreover have "bit (addr (i div 8) XOR - 1) (i mod 8) \<longleftrightarrow> \<not> bit (addr (i div 8)) (i mod 8)"
    by (simp add: bit_simps)
  ultimately show ?thesis using test_bit_le_iff [of i addr] unfolding xor_bit_def by argo
qed

lemma log2_loop_pow2: "k < 32 \<Longrightarrow> log2_loop (2 ^ k) r = r + int k"
proof (induction k arbitrary: r)
  case 0
  have "drop_bit 1 (1 :: u32) = 0" by simp
  then show ?case by (simp add: log2_loop.simps)
next
  case (Suc k)
  have d: "drop_bit 1 (2 ^ Suc k :: u32) = 2 ^ k"
    using Suc.prems by (intro bit_word_eqI) (auto simp: bit_simps)
  have nz: "(2 :: u32) ^ k \<noteq> 0" using Suc.prems by simp
  have "log2_loop (2 ^ Suc k) r = log2_loop (2 ^ k) (r + 1)"
    by (subst log2_loop.simps) (simp only: Let_def d nz if_True simp_thms)
  with Suc show ?case by simp
qed

lemma and_pred_pow2: "k < 32 \<Longrightarrow> (2 ^ k AND (2 ^ k - 1) :: u32) = 0"
  by (intro bit_word_eqI) (auto simp: bit_simps simp flip: mask_eq_exp_minus_1)

text \<open>A number that is no power of two keeps a bit under \<open>x & (x - 1)\<close>.\<close>

lemma pow2_times_odd: "0 < n \<Longrightarrow> \<exists>i q. n = 2 ^ Suc i * q + (2 :: nat) ^ i"
proof (induction n rule: less_induct)
  case (less n)
  show ?case
  proof (cases "odd n")
    case True
    then obtain q where "n = 2 * q + 1" by (rule oddE)
    then have "n = 2 ^ Suc 0 * q + 2 ^ 0" by simp
    then show ?thesis by blast
  next
    case False
    then obtain m where m: "n = 2 * m" by (auto elim: evenE)
    with less obtain i q where "m = 2 ^ Suc i * q + 2 ^ i" by (metis nat_0_less_mult_iff nat_mult_1 mult_less_cancel2 one_less_numeral_iff semiring_norm(76) zero_less_numeral)
    with m have "n = 2 ^ Suc (Suc i) * q + 2 ^ Suc i" by simp
    then show ?thesis by blast
  qed
qed

lemma and_pred_zero_pow2:
  fixes x :: u32
  assumes "x \<noteq> 0" and z: "x AND (x - 1) = 0"
  shows "\<exists>k < 32. x = 2 ^ k"
proof -
  define n where "n = unat x"
  have n0: "0 < n" using assms by (simp add: n_def unat_gt_0)
  obtain i q where q: "n = 2 ^ Suc i * q + 2 ^ i" using pow2_times_odd [OF n0] by blast
  have pred: "unat (x - 1) = n - 1"
    using assms by (simp add: n_def unat_minus_one)
  have "unat (x AND (x - 1)) = n AND (n - 1)"
    by (simp add: unsigned_and_eq pred n_def)
  with z have "n AND (n - 1) = 0" by simp
  then have "drop_bit (Suc i) n AND drop_bit (Suc i) (n - 1) = 0"
    by (simp flip: drop_bit_and)
  moreover have "drop_bit (Suc i) n = q"
    by (simp add: q drop_bit_eq_div)
  moreover have "drop_bit (Suc i) (n - 1) = q"
  proof -
    have "n - 1 = 2 ^ Suc i * q + (2 ^ i - 1)" by (simp add: q)
    moreover have "(2::nat) ^ i - 1 < 2 ^ Suc i" by (simp add: less_imp_diff_less)
    ultimately have "(n - 1) div 2 ^ Suc i = q" by (intro div_nat_eqI) auto
    then show ?thesis by (simp add: drop_bit_eq_div)
  qed
  ultimately have "n = 2 ^ i" using q by simp
  moreover have "n < 2 ^ 32" using unsigned_less [of x] by (simp add: n_def)
  ultimately have "i < 32" by (simp add: power_less_imp_less_exp [of 2 i 32])
  moreover have "x = 2 ^ i" using \<open>n = 2 ^ i\<close> n_def
    by (metis of_nat_numeral of_nat_power of_nat_unat ucast_id)
  ultimately show ?thesis by blast
qed

lemma log_base_2_pow2: "k < 32 \<Longrightarrow> log_base_2 (2 ^ k) = int k"
  by (simp add: log_base_2_def and_pred_pow2 log2_loop_pow2)

lemma log_base_2_other: "(\<And>k. k < 32 \<Longrightarrow> num \<noteq> 2 ^ k) \<Longrightarrow> log_base_2 num = -1"
  using and_pred_zero_pow2 [of num] by (auto simp: log_base_2_def)

subsection \<open>Searches and logarithm\<close>

text \<open>The bit searches are exact: for a start inside the bitmap
  \<open>find_next_bit_le\<close> returns the first set bit at or after it and \<open>find_next_zero_bit_le\<close> the
  first clear one, or the size of the bitmap when there is none, also when the start
  or the size is inside a byte.\<close>

lemma find_next_bits_first:
  assumes "start \<le> nbits"
  shows "first_from (\<lambda>i. test_bit_le i addr \<noteq> 0) start nbits (find_next_bit_le addr nbits start) \<and>
         first_from (\<lambda>i. test_bit_le i addr = 0) start nbits (find_next_zero_bit_le addr nbits start)"
proof -
  have "xor_bit addr 0 = (\<lambda>i. test_bit_le i addr \<noteq> 0)" "xor_bit addr 0xff = (\<lambda>i. test_bit_le i addr = 0)"
    using xor_bit_0 xor_bit_ff by blast+
  with find_next_bit_inv_first [OF assms] show ?thesis
    unfolding find_next_bit_le_def find_next_zero_bit_le_def by metis
qed

text \<open>\<open>log_base_2\<close> inverts powers of two on 32 bits: \<open>2 ^ k\<close> gives \<open>k\<close>, and
  every other argument, 0 included, gives \<open>-1\<close>.\<close>

lemma log_base_2_exact:
  "(k < 32 \<longrightarrow> log_base_2 (2 ^ k) = int k) \<and>
   (log_base_2 num \<noteq> -1 \<longrightarrow> num = 2 ^ nat (log_base_2 num))"
proof (intro conjI impI)
  show "log_base_2 (2 ^ k) = int k" if "k < 32" using that by (rule log_base_2_pow2)
  assume "log_base_2 num \<noteq> -1"
  then obtain j where "j < 32" "num = 2 ^ j" using log_base_2_other [of num] by blast
  then show "num = 2 ^ nat (log_base_2 num)" using log_base_2_pow2 [of j] by simp
qed

end
