(* ===== verification/Utf.thy ===== *)
theory Utf
  imports Prelude
begin

text \<open>
  The UTF-8 / UTF-16 conversions of \<open>lib/libf2fs.c\<close>, with which mkfs stores the volume
  label and the tools print it. A \<open>wchar_t\<close> is a 32-bit signed integer; a source
  pointer with its \<open>insize\<close> is the list of the units still to be read, and a
  destination pointer with its \<open>outsize\<close> is the list of units written so far and the
  room left.
\<close>

unbundle bit_operations_syntax

type_synonym wchar = u32

datatype conv_err = EILSEQ | ENAMETOOLONG

subsection \<open>One character\<close>

definition utf8_to_wchar :: "u8 list \<Rightarrow> (wchar \<times> u8 list) option" where
  "utf8_to_wchar inp =
     (let at = (\<lambda>k. ucast (inp ! k) :: wchar); insize = length inp; c0 = inp ! 0 in
      if (c0 AND 0x80) = 0 \<and> insize \<ge> 1 then Some (at 0, drop 1 inp)
      else if (c0 AND 0xe0) = 0xc0 \<and> insize \<ge> 2 then
        Some (push_bit 6 (at 0 AND 0x1f) OR (at 1 AND 0x3f), drop 2 inp)
      else if (c0 AND 0xf0) = 0xe0 \<and> insize \<ge> 3 then
        Some (push_bit 12 (at 0 AND 0x0f) OR push_bit 6 (at 1 AND 0x3f) OR (at 2 AND 0x3f), drop 3 inp)
      else if (c0 AND 0xf8) = 0xf0 \<and> insize \<ge> 4 then
        Some (push_bit 18 (at 0 AND 0x07) OR push_bit 12 (at 1 AND 0x3f) OR
              push_bit 6 (at 2 AND 0x3f) OR (at 3 AND 0x3f), drop 4 inp)
      else if (c0 AND 0xfc) = 0xf8 \<and> insize \<ge> 5 then
        Some (push_bit 24 (at 0 AND 0x03) OR push_bit 18 (at 1 AND 0x3f) OR
              push_bit 12 (at 2 AND 0x3f) OR push_bit 6 (at 3 AND 0x3f) OR (at 4 AND 0x3f), drop 5 inp)
      else if (c0 AND 0xfe) = 0xfc \<and> insize \<ge> 6 then
        Some (push_bit 30 (at 0 AND 0x01) OR push_bit 24 (at 1 AND 0x3f) OR
              push_bit 18 (at 2 AND 0x3f) OR push_bit 12 (at 3 AND 0x3f) OR
              push_bit 6 (at 4 AND 0x3f) OR (at 5 AND 0x3f), drop 6 inp)
      else None)"

definition wchar_to_utf16 :: "wchar \<Rightarrow> nat \<Rightarrow> u16 list option" where
  "wchar_to_utf16 wc outsize =
     (if wc \<le>s 0xffff then
        (if outsize = 0 then None else Some [ucast wc])
      else if outsize < 2 then None
      else
        let wc = wc - 0x10000 in
        Some [0xd800 OR ucast (drop_bit 10 wc AND 0x3ff), 0xdc00 OR ucast (wc AND 0x3ff)])"

definition utf16_to_wchar :: "u16 list \<Rightarrow> (wchar \<times> u16 list) option" where
  "utf16_to_wchar inp =
     (let insize = length inp in
      if (inp ! 0 AND 0xfc00) = 0xd800 then
        (if insize < 2 \<or> (inp ! 1 AND 0xfc00) \<noteq> 0xdc00 then None
         else
           let wc = push_bit 10 (ucast (inp ! 0 AND 0x3ff));
               wc = wc OR ucast (inp ! 1 AND 0x3ff);
               wc = wc + 0x10000
           in Some (wc, drop 2 inp))
      else Some (ucast (inp ! 0), drop 1 inp))"

definition wchar_to_utf8 :: "wchar \<Rightarrow> nat \<Rightarrow> u8 list option" where
  "wchar_to_utf8 wc outsize =
     (let cont = (\<lambda>k. 0x80 OR ucast (drop_bit k wc AND 0x3f)) in
      if wc \<le>s 0x7f then
        (if outsize < 1 then None else Some [ucast wc])
      else if wc \<le>s 0x7ff then
        (if outsize < 2 then None else Some [0xc0 OR ucast (drop_bit 6 wc), cont 0])
      else if wc \<le>s 0xffff then
        (if outsize < 3 then None else Some [0xe0 OR ucast (drop_bit 12 wc), cont 6, cont 0])
      else if wc \<le>s 0x1fffff then
        (if outsize < 4 then None
         else Some [0xf0 OR ucast (drop_bit 18 wc), cont 12, cont 6, cont 0])
      else if wc \<le>s 0x3ffffff then
        (if outsize < 5 then None
         else Some [0xf8 OR ucast (drop_bit 24 wc), cont 18, cont 12, cont 6, cont 0])
      else if wc \<le>s 0x7fffffff then
        (if outsize < 6 then None
         else Some [0xfc OR ucast (drop_bit 30 wc), cont 24, cont 18, cont 12, cont 6, cont 0])
      else None)"

lemma utf8_to_wchar_shorter:
  "utf8_to_wchar inp = Some (wc, rest) \<Longrightarrow> length rest < length inp"
  by (auto simp: utf8_to_wchar_def Let_def split: if_splits)

lemma utf16_to_wchar_shorter:
  "inp \<noteq> [] \<Longrightarrow> utf16_to_wchar inp = Some (wc, rest) \<Longrightarrow> length rest < length inp"
  by (auto simp: utf16_to_wchar_def Let_def split: if_splits)

subsection \<open>The conversion loops\<close>

text \<open>
  The loops stop at the end of the input or at a NUL unit, and store a terminating NUL
  behind the last unit written, with no check that there is room for it.
\<close>

function utf8_to_utf16_loop :: "u16 list \<Rightarrow> u8 list \<Rightarrow> nat \<Rightarrow> conv_err + u16 list" where
  "utf8_to_utf16_loop outp inp outsize =
     (if inp = [] \<or> inp ! 0 = 0 then Inr (outp @ [0])
      else case utf8_to_wchar inp of
        None \<Rightarrow> Inl EILSEQ
      | Some (wc, inp') \<Rightarrow>
          (case wchar_to_utf16 wc (outsize - length outp) of
             None \<Rightarrow> Inl ENAMETOOLONG
           | Some us \<Rightarrow> utf8_to_utf16_loop (outp @ us) inp' outsize))"
  by pat_completeness auto
termination
  by (relation "measure (\<lambda>(outp, inp, outsize). length inp)") (auto dest: utf8_to_wchar_shorter)

function utf16_to_utf8_loop :: "u8 list \<Rightarrow> u16 list \<Rightarrow> nat \<Rightarrow> conv_err + u8 list" where
  "utf16_to_utf8_loop outp inp outsize =
     (if inp = [] \<or> inp ! 0 = 0 then Inr (outp @ [0])
      else case utf16_to_wchar inp of
        None \<Rightarrow> Inl EILSEQ
      | Some (wc, inp') \<Rightarrow>
          (case wchar_to_utf8 wc (outsize - length outp) of
             None \<Rightarrow> Inl ENAMETOOLONG
           | Some bs \<Rightarrow> utf16_to_utf8_loop (outp @ bs) inp' outsize))"
  by pat_completeness auto
termination
  by (relation "measure (\<lambda>(outp, inp, outsize). length inp)") (auto dest: utf16_to_wchar_shorter)

declare utf8_to_utf16_loop.simps [simp del] utf16_to_utf8_loop.simps [simp del]

definition utf8_to_utf16 :: "u8 list \<Rightarrow> nat \<Rightarrow> conv_err + u16 list" where
  "utf8_to_utf16 inp outsize = utf8_to_utf16_loop [] inp outsize"

definition utf16_to_utf8 :: "u16 list \<Rightarrow> nat \<Rightarrow> conv_err + u8 list" where
  "utf16_to_utf8 inp outsize = utf16_to_utf8_loop [] inp outsize"

subsection \<open>Bits of the constants\<close>

lemma bit_above: "(w :: u32) < 2 ^ k \<Longrightarrow> k < 32 \<Longrightarrow> k \<le> n \<Longrightarrow> \<not> bit w n"
  by (metis (no_types) bit_take_bit_iff less_mask_eq and.commute take_bit_eq_mask not_le)

lemma bit_push_mask: "bit (push_bit a (mask b) :: int) n \<longleftrightarrow> a \<le> n \<and> n < a + b"
  by (auto simp: bit_simps)

lemma bits_lead:
  "bit (0x80 :: int) n \<longleftrightarrow> n = 7"
  "bit (0xc0 :: int) n \<longleftrightarrow> 6 \<le> n \<and> n < 8"
  "bit (0xe0 :: int) n \<longleftrightarrow> 5 \<le> n \<and> n < 8"
  "bit (0xf0 :: int) n \<longleftrightarrow> 4 \<le> n \<and> n < 8"
  "bit (0xf8 :: int) n \<longleftrightarrow> 3 \<le> n \<and> n < 8"
  "bit (0xfc :: int) n \<longleftrightarrow> 2 \<le> n \<and> n < 8"
  "bit (0xfe :: int) n \<longleftrightarrow> 1 \<le> n \<and> n < 8"
  using bit_push_mask [of 7 1 n] bit_push_mask [of 6 2 n]
    bit_push_mask [of 5 3 n] bit_push_mask [of 4 4 n]
    bit_push_mask [of 3 5 n] bit_push_mask [of 2 6 n]
    bit_push_mask [of 1 7 n]
  by (auto simp: mask_eq_exp_minus_1 push_bit_eq_mult)

lemma bits_cont:
  "bit (0x3f :: int) n \<longleftrightarrow> n < 6" "bit (0x1f :: int) n \<longleftrightarrow> n < 5" "bit (0x0f :: int) n \<longleftrightarrow> n < 4"
  "bit (0x07 :: int) n \<longleftrightarrow> n < 3" "bit (0x03 :: int) n \<longleftrightarrow> n < 2" 
  using bit_push_mask [of 0 6 n] bit_push_mask [of 0 5 n]
    bit_push_mask [of 0 4 n] bit_push_mask [of 0 3 n]
    bit_push_mask [of 0 2 n] bit_push_mask [of 0 1 n]
  by (auto simp: mask_eq_exp_minus_1 push_bit_eq_mult)

lemmas numeral_bits = bit_simps bits_lead bits_cont

lemma cont_byte: "(ucast (0x80 OR ucast (w AND 0x3f :: u32) :: u8) AND 0x3f) = w AND (0x3f::u32)"
  by (rule bit_word_eqI) (auto simp: numeral_bits)

lemma bits_utf16:
  "bit (0xfc00 :: int) n \<longleftrightarrow> 10 \<le> n \<and> n < 16"
  "bit (0xd800 :: int) n \<longleftrightarrow> (14 \<le> n \<and> n < 16) \<or> (11 \<le> n \<and> n < 13)"
  "bit (0xdc00 :: int) n \<longleftrightarrow> (14 \<le> n \<and> n < 16) \<or> (10 \<le> n \<and> n < 13)"
  "bit (0x3ff :: int) n \<longleftrightarrow> n < 10"
proof -
  have "bit (0xd800 :: int) n \<longleftrightarrow> bit (push_bit 14 (mask 2) OR push_bit 11 (mask 2) :: int) n"
    "bit (0xdc00 :: int) n \<longleftrightarrow> bit (push_bit 14 (mask 2) OR push_bit 10 (mask 3) :: int) n"
    by (simp_all add: mask_eq_exp_minus_1 push_bit_eq_mult)
  then show "bit (0xd800 :: int) n \<longleftrightarrow> (14 \<le> n \<and> n < 16) \<or> (11 \<le> n \<and> n < 13)"
    "bit (0xdc00 :: int) n \<longleftrightarrow> (14 \<le> n \<and> n < 16) \<or> (10 \<le> n \<and> n < 13)"
    by (auto simp only: bit_or_iff bit_push_mask)
  show "bit (0xfc00 :: int) n \<longleftrightarrow> 10 \<le> n \<and> n < 16" "bit (0x3ff :: int) n \<longleftrightarrow> n < 10"
    using bit_push_mask [of 10 6 n] bit_push_mask [of 0 10 n]
    by (auto simp: mask_eq_exp_minus_1 push_bit_eq_mult)
qed

lemma sint_below: "(a :: u32) < 2 ^ 31 \<Longrightarrow> sint a = uint a"
proof -
  assume "a < 2 ^ 31"
  then have "uint a < 2 ^ 31" by (simp add: word_less_def)
  then have "signed_take_bit 31 (uint a) = uint a"
    using uint_ge_0 [of a] by (intro signed_take_bit_int_eq_self) linarith+
  then show ?thesis by (simp add: sint_uint)
qed

lemma sle_unsigned: "(a :: u32) < 2 ^ 31 \<Longrightarrow> b < 2 ^ 31 \<Longrightarrow> a \<le>s b \<longleftrightarrow> a \<le> b"
  by (simp add: word_sle_eq sint_below word_le_def)

lemma lead_byte:
  fixes v :: u32
  shows "v < 2 ^ 7 \<Longrightarrow> (ucast v AND 0x80) = (0 :: u8)"
   and "v < 2 ^ 5 \<Longrightarrow> ((0xc0 OR ucast v) AND 0xe0) = (0xc0 :: u8)"
   and "v < 2 ^ 4 \<Longrightarrow> ((0xe0 OR ucast v) AND 0xf0) = (0xe0 :: u8)"
   and "v < 2 ^ 3 \<Longrightarrow> ((0xf0 OR ucast v) AND 0xf8) = (0xf0 :: u8)"
   and "v < 2 ^ 2 \<Longrightarrow> ((0xf8 OR ucast v) AND 0xfc) = (0xf8 :: u8)"
   and "v < 2 ^ 1 \<Longrightarrow> ((0xfc OR ucast v) AND 0xfe) = (0xfc :: u8)"
proof -
  note bits = bit_above [of v 7] bit_above [of v 5] bit_above [of v 4] bit_above [of v 3]
    bit_above [of v 2] bit_above [of v 1]
  show "v < 2 ^ 7 \<Longrightarrow> (ucast v AND 0x80) = (0 :: u8)"
    using bits(1) by (intro bit_word_eqI) (auto simp: numeral_bits)
  show "v < 2 ^ 5 \<Longrightarrow> ((0xc0 OR ucast v) AND 0xe0) = (0xc0 :: u8)"
    using bits(2) by (intro bit_word_eqI) (auto simp: numeral_bits)
  show "v < 2 ^ 4 \<Longrightarrow> ((0xe0 OR ucast v) AND 0xf0) = (0xe0 :: u8)"
    using bits(3) by (intro bit_word_eqI) (auto simp: numeral_bits)
  show "v < 2 ^ 3 \<Longrightarrow> ((0xf0 OR ucast v) AND 0xf8) = (0xf0 :: u8)"
    using bits(4) by (intro bit_word_eqI) (auto simp: numeral_bits)
  show "v < 2 ^ 2 \<Longrightarrow> ((0xf8 OR ucast v) AND 0xfc) = (0xf8 :: u8)"
    using bits(5) by (intro bit_word_eqI) (auto simp: numeral_bits)
  show "v < 2 ^ 1 \<Longrightarrow> ((0xfc OR ucast v) AND 0xfe) = (0xfc :: u8)"
    using bits(6) by (intro bit_word_eqI) (auto simp: numeral_bits)
qed

text \<open>A lead byte of one length class is none of the shorter ones.\<close>

lemma lead_class:
  fixes c :: u8
  shows "c AND 0xe0 = 0xc0 \<Longrightarrow> c AND 0x80 \<noteq> 0"
    and "c AND 0xf0 = 0xe0 \<Longrightarrow> c AND 0x80 \<noteq> 0 \<and> c AND 0xe0 \<noteq> 0xc0"
    and "c AND 0xf8 = 0xf0 \<Longrightarrow> c AND 0x80 \<noteq> 0 \<and> c AND 0xe0 \<noteq> 0xc0 \<and> c AND 0xf0 \<noteq> 0xe0"
    and "c AND 0xfc = 0xf8 \<Longrightarrow> c AND 0x80 \<noteq> 0 \<and> c AND 0xe0 \<noteq> 0xc0 \<and> c AND 0xf0 \<noteq> 0xe0 \<and> c AND 0xf8 \<noteq> 0xf0"
    and "c AND 0xfe = 0xfc \<Longrightarrow> c AND 0x80 \<noteq> 0 \<and> c AND 0xe0 \<noteq> 0xc0 \<and> c AND 0xf0 \<noteq> 0xe0 \<and> c AND 0xf8 \<noteq> 0xf0
      \<and> c AND 0xfc \<noteq> 0xf8"
proof -
  have sub: "c AND m = (c AND M) AND m" if "M AND m = m" for m M :: u8
    using that by (simp add: and.assoc)
  show "c AND 0xe0 = 0xc0 \<Longrightarrow> c AND 0x80 \<noteq> 0"
    using sub [of "0xe0" "0x80"] by simp
  show "c AND 0xf0 = 0xe0 \<Longrightarrow> c AND 0x80 \<noteq> 0 \<and> c AND 0xe0 \<noteq> 0xc0"
    using sub [of "0xf0" "0x80"] sub [of "0xf0" "0xe0"] by simp
  show "c AND 0xf8 = 0xf0 \<Longrightarrow> c AND 0x80 \<noteq> 0 \<and> c AND 0xe0 \<noteq> 0xc0 \<and> c AND 0xf0 \<noteq> 0xe0"
    using sub [of "0xf8" "0x80"] sub [of "0xf8" "0xe0"] sub [of "0xf8" "0xf0"] by simp
  show "c AND 0xfc = 0xf8 \<Longrightarrow> c AND 0x80 \<noteq> 0 \<and> c AND 0xe0 \<noteq> 0xc0 \<and> c AND 0xf0 \<noteq> 0xe0 \<and> c AND 0xf8 \<noteq> 0xf0"
    using sub [of "0xfc" "0x80"] sub [of "0xfc" "0xe0"] sub [of "0xfc" "0xf0"] sub [of "0xfc" "0xf8"] by simp
  show "c AND 0xfe = 0xfc \<Longrightarrow> c AND 0x80 \<noteq> 0 \<and> c AND 0xe0 \<noteq> 0xc0 \<and> c AND 0xf0 \<noteq> 0xe0 \<and> c AND 0xf8 \<noteq> 0xf0
      \<and> c AND 0xfc \<noteq> 0xf8"
    using sub [of "0xfe" "0x80"] sub [of "0xfe" "0xe0"] sub [of "0xfe" "0xf0"] sub [of "0xfe" "0xf8"]
      sub [of "0xfe" "0xfc"] by simp
qed

lemma lead_value:
  fixes v :: u32
  shows "v < 2 ^ 7 \<Longrightarrow> ucast (ucast v :: u8) = v"
   and "v < 2 ^ 5 \<Longrightarrow> (ucast (0xc0 OR ucast v :: u8) AND 0x1f) = v"
   and "v < 2 ^ 4 \<Longrightarrow> (ucast (0xe0 OR ucast v :: u8) AND 0x0f) = v"
   and "v < 2 ^ 3 \<Longrightarrow> (ucast (0xf0 OR ucast v :: u8) AND 0x07) = v"
   and "v < 2 ^ 2 \<Longrightarrow> (ucast (0xf8 OR ucast v :: u8) AND 0x03) = v"
   and "v < 2 ^ 1 \<Longrightarrow> (ucast (0xfc OR ucast v :: u8) AND 0x01) = v"
proof -
  show "ucast (ucast v :: u8) = v" if "v < 2 ^ 7"
  proof (rule bit_word_eqI)
    fix n show "bit (ucast (ucast v :: u8) :: u32) n = bit v n"
      using bit_above [OF that, of n] by (cases "n < 7") (auto simp: numeral_bits)
  qed
  show "(ucast (0xc0 OR ucast v :: u8) AND 0x1f) = v" if "v < 2 ^ 5"
  proof (rule bit_word_eqI)
    fix n show "bit ((ucast (0xc0 OR ucast v :: u8) AND 0x1f) :: u32) n = bit v n"
      using bit_above [OF that, of n] by (cases "n < 5") (auto simp: numeral_bits)
  qed
  show "(ucast (0xe0 OR ucast v :: u8) AND 0x0f) = v" if "v < 2 ^ 4"
  proof (rule bit_word_eqI)
    fix n show "bit ((ucast (0xe0 OR ucast v :: u8) AND 0x0f) :: u32) n = bit v n"
      using bit_above [OF that, of n] by (cases "n < 4") (auto simp: numeral_bits)
  qed
  show "(ucast (0xf0 OR ucast v :: u8) AND 0x07) = v" if "v < 2 ^ 3"
  proof (rule bit_word_eqI)
    fix n show "bit ((ucast (0xf0 OR ucast v :: u8) AND 0x07) :: u32) n = bit v n"
      using bit_above [OF that, of n] by (cases "n < 3") (auto simp: numeral_bits)
  qed
  show "(ucast (0xf8 OR ucast v :: u8) AND 0x03) = v" if "v < 2 ^ 2"
  proof (rule bit_word_eqI)
    fix n show "bit ((ucast (0xf8 OR ucast v :: u8) AND 0x03) :: u32) n = bit v n"
      using bit_above [OF that, of n] by (cases "n < 2") (auto simp: numeral_bits)
  qed
  show "(ucast (0xfc OR ucast v :: u8) AND 0x01) = v" if "v < 2 ^ 1"
  proof (rule bit_word_eqI)
    fix n show "bit ((ucast (0xfc OR ucast v :: u8) AND 0x01) :: u32) n = bit v n"
      using bit_above [OF that, of n] by (cases "n < 1") (auto simp: numeral_bits)
  qed
qed

lemma recombine:
  fixes wc :: u32
  shows "push_bit 6 (drop_bit 6 wc) OR (wc AND 0x3f) = wc"
    and "k = 6 + j \<Longrightarrow> k < 32 \<Longrightarrow> push_bit k (drop_bit k wc) OR push_bit j (drop_bit j wc AND 0x3f) OR x =
      push_bit j (drop_bit j wc) OR x"
proof -
  show "push_bit 6 (drop_bit 6 wc) OR (wc AND 0x3f) = wc"
    by (rule bit_word_eqI) (auto simp: numeral_bits)
  show "push_bit k (drop_bit k wc) OR push_bit j (drop_bit j wc AND 0x3f) OR x =
      push_bit j (drop_bit j wc) OR x" if "k = 6 + j" "k < 32"
  proof (rule bit_word_eqI)
    fix n assume "n < LENGTH(32)"
    then show "bit (push_bit k (drop_bit k wc) OR push_bit j (drop_bit j wc AND 0x3f) OR x) n =
      bit (push_bit j (drop_bit j wc) OR x) n"
      using that by (cases "k \<le> n"; cases "j \<le> n") (auto simp: numeral_bits)
  qed
qed


lemma le_pow2_pred: "(w :: u32) \<le> c \<Longrightarrow> unat c + 1 = 2 ^ k \<Longrightarrow> k < 32 \<Longrightarrow> w < 2 ^ k"
  by (simp add: word_less_2p_iff word_le_nat_alt)

lemma utf8_decode_lead:
  "c AND 0x80 = 0 \<Longrightarrow> utf8_to_wchar (c # rest) = Some (ucast c, rest)"
  "c AND 0xe0 = 0xc0 \<Longrightarrow> utf8_to_wchar (c # d # rest) =
     Some (push_bit 6 (ucast c AND 0x1f) OR (ucast d AND 0x3f), rest)"
  "c AND 0xf0 = 0xe0 \<Longrightarrow> utf8_to_wchar (c # d # e # rest) =
     Some (push_bit 12 (ucast c AND 0x0f) OR push_bit 6 (ucast d AND 0x3f) OR (ucast e AND 0x3f), rest)"
  "c AND 0xf8 = 0xf0 \<Longrightarrow> utf8_to_wchar (c # d # e # f # rest) =
     Some (push_bit 18 (ucast c AND 0x07) OR push_bit 12 (ucast d AND 0x3f) OR
       push_bit 6 (ucast e AND 0x3f) OR (ucast f AND 0x3f), rest)"
  "c AND 0xfc = 0xf8 \<Longrightarrow> utf8_to_wchar (c # d # e # f # g # rest) =
     Some (push_bit 24 (ucast c AND 0x03) OR push_bit 18 (ucast d AND 0x3f) OR
       push_bit 12 (ucast e AND 0x3f) OR push_bit 6 (ucast f AND 0x3f) OR (ucast g AND 0x3f), rest)"
  "c AND 0xfe = 0xfc \<Longrightarrow> utf8_to_wchar (c # d # e # f # g # h # rest) =
     Some (push_bit 30 (ucast c AND 0x01) OR push_bit 24 (ucast d AND 0x3f) OR
       push_bit 18 (ucast e AND 0x3f) OR push_bit 12 (ucast f AND 0x3f) OR
       push_bit 6 (ucast g AND 0x3f) OR (ucast h AND 0x3f), rest)"
proof -
  note cl = lead_class [of c]
  show "c AND 0x80 = 0 \<Longrightarrow> utf8_to_wchar (c # rest) = Some (ucast c, rest)"
    by (simp add: utf8_to_wchar_def)
  show "c AND 0xe0 = 0xc0 \<Longrightarrow> utf8_to_wchar (c # d # rest) =
     Some (push_bit 6 (ucast c AND 0x1f) OR (ucast d AND 0x3f), rest)"
    using cl(1) by (simp add: utf8_to_wchar_def)
  show "c AND 0xf0 = 0xe0 \<Longrightarrow> utf8_to_wchar (c # d # e # rest) =
     Some (push_bit 12 (ucast c AND 0x0f) OR push_bit 6 (ucast d AND 0x3f) OR (ucast e AND 0x3f), rest)"
    using cl(2) by (simp add: utf8_to_wchar_def eval_nat_numeral)
  show "c AND 0xf8 = 0xf0 \<Longrightarrow> utf8_to_wchar (c # d # e # f # rest) =
     Some (push_bit 18 (ucast c AND 0x07) OR push_bit 12 (ucast d AND 0x3f) OR
       push_bit 6 (ucast e AND 0x3f) OR (ucast f AND 0x3f), rest)"
    using cl(3) by (simp add: utf8_to_wchar_def nth_Cons')
  show "c AND 0xfc = 0xf8 \<Longrightarrow> utf8_to_wchar (c # d # e # f # g # rest) =
     Some (push_bit 24 (ucast c AND 0x03) OR push_bit 18 (ucast d AND 0x3f) OR
       push_bit 12 (ucast e AND 0x3f) OR push_bit 6 (ucast f AND 0x3f) OR (ucast g AND 0x3f), rest)"
    using cl(4) by (simp add: utf8_to_wchar_def nth_Cons')
  show "c AND 0xfe = 0xfc \<Longrightarrow> utf8_to_wchar (c # d # e # f # g # h # rest) =
     Some (push_bit 30 (ucast c AND 0x01) OR push_bit 24 (ucast d AND 0x3f) OR
       push_bit 18 (ucast e AND 0x3f) OR push_bit 12 (ucast f AND 0x3f) OR
       push_bit 6 (ucast g AND 0x3f) OR (ucast h AND 0x3f), rest)"
    using cl(5) by (simp add: utf8_to_wchar_def nth_Cons')
qed

lemma lead_nonzero: "c AND m = (L :: u8) \<Longrightarrow> L \<noteq> 0 \<Longrightarrow> c \<noteq> 0"
  by auto

lemma class_below:
  fixes wc :: u32
  assumes "wc < 2 ^ 31"
  shows "wc \<le>s 0x7f \<longleftrightarrow> wc < 2 ^ 7" "wc \<le>s 0x7ff \<longleftrightarrow> wc < 2 ^ 11" "wc \<le>s 0xffff \<longleftrightarrow> wc < 2 ^ 16"
    "wc \<le>s 0x1fffff \<longleftrightarrow> wc < 2 ^ 21" "wc \<le>s 0x3ffffff \<longleftrightarrow> wc < 2 ^ 26"
    "wc \<le>s 0x7fffffff \<longleftrightarrow> wc < 2 ^ 31"
proof -
  have "wc \<le> c \<longleftrightarrow> wc < 2 ^ k" if "unat c + 1 = 2 ^ k" "k < 32" for c k
    using that by (simp add: word_less_2p_iff word_le_nat_alt less_Suc_eq_le flip: that(1))
  from this [of "0x7f" 7] this [of "0x7ff" 11] this [of "0xffff" 16] this [of "0x1fffff" 21]
    this [of "0x3ffffff" 26] this [of "0x7fffffff" 31]
  show "wc \<le>s 0x7f \<longleftrightarrow> wc < 2 ^ 7" "wc \<le>s 0x7ff \<longleftrightarrow> wc < 2 ^ 11" "wc \<le>s 0xffff \<longleftrightarrow> wc < 2 ^ 16"
    "wc \<le>s 0x1fffff \<longleftrightarrow> wc < 2 ^ 21" "wc \<le>s 0x3ffffff \<longleftrightarrow> wc < 2 ^ 26"
    "wc \<le>s 0x7fffffff \<longleftrightarrow> wc < 2 ^ 31"
    using assms by (simp_all add: sle_unsigned)
qed

text \<open>Decoding undoes encoding, whatever follows.\<close>

lemma utf8_to_wchar_encode:
  assumes wc: "wc < 2 ^ 31" and enc: "wchar_to_utf8 wc n = Some bs"
  shows "utf8_to_wchar (bs @ rest) = Some (wc, rest)" and "bs \<noteq> []" and "wc \<noteq> 0 \<Longrightarrow> bs ! 0 \<noteq> 0"
proof -
  note cls = class_below [OF wc]
  have rec: "push_bit 12 (drop_bit 12 wc) OR push_bit 6 (drop_bit 6 wc AND 0x3f) OR (wc AND 0x3f) = wc"
    "push_bit 18 (drop_bit 18 wc) OR push_bit 12 (drop_bit 12 wc AND 0x3f) OR
      push_bit 6 (drop_bit 6 wc AND 0x3f) OR (wc AND 0x3f) = wc"
    "push_bit 24 (drop_bit 24 wc) OR push_bit 18 (drop_bit 18 wc AND 0x3f) OR
      push_bit 12 (drop_bit 12 wc AND 0x3f) OR push_bit 6 (drop_bit 6 wc AND 0x3f) OR (wc AND 0x3f) = wc"
    "push_bit 30 (drop_bit 30 wc) OR push_bit 24 (drop_bit 24 wc AND 0x3f) OR push_bit 18 (drop_bit 18 wc AND 0x3f) OR
      push_bit 12 (drop_bit 12 wc AND 0x3f) OR push_bit 6 (drop_bit 6 wc AND 0x3f) OR (wc AND 0x3f) = wc"
    by (simp_all only: recombine or.assoc) 
  note enc' = enc [unfolded wchar_to_utf8_def Let_def cls]
  consider (1) "wc < 2 ^ 7" | (2) "\<not> wc < 2 ^ 7" "wc < 2 ^ 11"
    | (3) "\<not> wc < 2 ^ 7" "\<not> wc < 2 ^ 11" "wc < 2 ^ 16"
    | (4) "\<not> wc < 2 ^ 7" "\<not> wc < 2 ^ 11" "\<not> wc < 2 ^ 16" "wc < 2 ^ 21"
    | (5) "\<not> wc < 2 ^ 7" "\<not> wc < 2 ^ 11" "\<not> wc < 2 ^ 16" "\<not> wc < 2 ^ 21" "wc < 2 ^ 26"
    | (6) "\<not> wc < 2 ^ 7" "\<not> wc < 2 ^ 11" "\<not> wc < 2 ^ 16" "\<not> wc < 2 ^ 21" "\<not> wc < 2 ^ 26"
    by blast
  then have "utf8_to_wchar (bs @ rest) = Some (wc, rest) \<and> bs \<noteq> [] \<and> (wc \<noteq> 0 \<longrightarrow> bs ! 0 \<noteq> 0)"
  proof cases
    case 1
    have "bs = [ucast wc]" using 1 wc enc' by (simp split: if_splits)
    moreover have "ucast wc = (0 :: u8) \<longleftrightarrow> wc = 0" using lead_value(1) [OF 1] by (metis unsigned_0)
    ultimately show ?thesis using lead_byte(1) [OF 1] lead_value(1) [OF 1] by (simp add: utf8_decode_lead)
  next
    case 2
    then have lt: "drop_bit 6 wc < 2 ^ 5" by (intro drop_bit_below) auto
    have bs: "bs = [0xc0 OR ucast (drop_bit 6 wc), 0x80 OR ucast (drop_bit 0 wc AND 0x3f)]"
      using 2 wc enc' by (simp split: if_splits)
    have "utf8_to_wchar (bs @ rest) = Some (wc, rest)"
      by (simp only: bs append.simps utf8_decode_lead(2) [OF lead_byte(2) [OF lt]]
        lead_value(2) [OF lt] cont_byte drop_bit_0 id_apply recombine(1))
    with lead_nonzero [OF lead_byte(2) [OF lt]] show ?thesis by (simp add: bs)
  next
    case 3
    then have lt: "drop_bit 12 wc < 2 ^ 4" by (intro drop_bit_below) auto
    have bs: "bs = [0xe0 OR ucast (drop_bit 12 wc), 0x80 OR ucast (drop_bit 6 wc AND 0x3f),
        0x80 OR ucast (drop_bit 0 wc AND 0x3f)]"
      using 3 wc enc' by (simp split: if_splits)
    have "utf8_to_wchar (bs @ rest) = Some (wc, rest)"
      by (simp only: bs append.simps utf8_decode_lead(3) [OF lead_byte(3) [OF lt]]
        lead_value(3) [OF lt] cont_byte drop_bit_0 id_apply rec)
    with lead_nonzero [OF lead_byte(3) [OF lt]] show ?thesis by (simp add: bs)
  next
    case 4
    then have lt: "drop_bit 18 wc < 2 ^ 3" by (intro drop_bit_below) auto
    have bs: "bs = [0xf0 OR ucast (drop_bit 18 wc), 0x80 OR ucast (drop_bit 12 wc AND 0x3f),
        0x80 OR ucast (drop_bit 6 wc AND 0x3f), 0x80 OR ucast (drop_bit 0 wc AND 0x3f)]"
      using 4 wc enc' by (simp split: if_splits)
    have "utf8_to_wchar (bs @ rest) = Some (wc, rest)"
      by (simp only: bs append.simps utf8_decode_lead(4) [OF lead_byte(4) [OF lt]]
        lead_value(4) [OF lt] cont_byte drop_bit_0 id_apply rec)
    with lead_nonzero [OF lead_byte(4) [OF lt]] show ?thesis by (simp add: bs)
  next
    case 5
    then have lt: "drop_bit 24 wc < 2 ^ 2" by (intro drop_bit_below) auto
    have bs: "bs = [0xf8 OR ucast (drop_bit 24 wc), 0x80 OR ucast (drop_bit 18 wc AND 0x3f),
        0x80 OR ucast (drop_bit 12 wc AND 0x3f), 0x80 OR ucast (drop_bit 6 wc AND 0x3f),
        0x80 OR ucast (drop_bit 0 wc AND 0x3f)]"
      using 5 wc enc' by (simp split: if_splits)
    have "utf8_to_wchar (bs @ rest) = Some (wc, rest)"
      by (simp only: bs append.simps utf8_decode_lead(5) [OF lead_byte(5) [OF lt]]
        lead_value(5) [OF lt] cont_byte drop_bit_0 id_apply rec)
    with lead_nonzero [OF lead_byte(5) [OF lt]] show ?thesis by (simp add: bs)
  next
    case 6
    have lt: "drop_bit 30 wc < 2 ^ 1" using wc by (intro drop_bit_below) auto
    have bs: "bs = [0xfc OR ucast (drop_bit 30 wc), 0x80 OR ucast (drop_bit 24 wc AND 0x3f),
        0x80 OR ucast (drop_bit 18 wc AND 0x3f), 0x80 OR ucast (drop_bit 12 wc AND 0x3f),
        0x80 OR ucast (drop_bit 6 wc AND 0x3f), 0x80 OR ucast (drop_bit 0 wc AND 0x3f)]"
      using 6 wc enc' by (simp split: if_splits)
    have "utf8_to_wchar (bs @ rest) = Some (wc, rest)"
      by (simp only: bs append.simps utf8_decode_lead(6) [OF lead_byte(6) [OF lt]]
        lead_value(6) [OF lt] cont_byte drop_bit_0 id_apply rec)
    with lead_nonzero [OF lead_byte(6) [OF lt]] show ?thesis by (simp add: bs)
  qed
  then show "utf8_to_wchar (bs @ rest) = Some (wc, rest)" and "bs \<noteq> []"
    and "wc \<noteq> 0 \<Longrightarrow> bs ! 0 \<noteq> 0" by auto
qed

lemmas utf16_bits = bit_simps bits_utf16

lemma surrogate_join:
  fixes u0 u1 :: u16
  defines "v \<equiv> push_bit 10 (ucast (u0 AND 0x3ff)) OR ucast (u1 AND 0x3ff) :: u32"
  shows "v < 2 ^ 20"
    and "u0 AND 0xfc00 = 0xd800 \<Longrightarrow> 0xd800 OR ucast (drop_bit 10 v AND 0x3ff) = u0"
    and "u1 AND 0xfc00 = 0xdc00 \<Longrightarrow> 0xdc00 OR ucast (v AND 0x3ff) = u1"
proof -
  have "v = v AND mask 20"
    unfolding v_def by (rule bit_word_eqI) (auto simp: utf16_bits)
  then show "v < 2 ^ 20" using and_mask_less' [of 20 v] by simp
  have split: "x = (x AND 0xfc00) OR (x AND 0x3ff)" for x :: u16
    by (rule bit_word_eqI) (auto simp: utf16_bits)
  have hi: "ucast (drop_bit 10 v AND 0x3ff) = u0 AND 0x3ff"
    unfolding v_def by (rule bit_word_eqI) (auto simp: utf16_bits)
  have lo: "ucast (v AND 0x3ff) = u1 AND 0x3ff"
    unfolding v_def by (rule bit_word_eqI) (auto simp: utf16_bits)
  show "0xd800 OR ucast (drop_bit 10 v AND 0x3ff) = u0" if "u0 AND 0xfc00 = 0xd800"
    using split [of u0] unfolding hi that by simp
  show "0xdc00 OR ucast (v AND 0x3ff) = u1" if "u1 AND 0xfc00 = 0xdc00"
    using split [of u1] unfolding lo that by simp
qed

lemma ucast_u16_below: "(ucast (x :: u16) :: u32) < 2 ^ 16"
proof -
  have "(ucast x :: u32) = ucast x AND mask 16"
    by (rule bit_word_eqI) (auto simp: bit_simps dest: bit_imp_le_length)
  then show ?thesis using and_mask_less' [of 16 "ucast x :: u32"] by simp
qed

text \<open>Encoding a decoded UTF-16 character gives back the units it was read from.\<close>

lemma wchar_to_utf16_decode:
  assumes ne: "inp \<noteq> []" and dec: "utf16_to_wchar inp = Some (wc, rest)"
  shows "\<exists>us. inp = us @ rest \<and> us \<noteq> [] \<and> wc < 2 ^ 31 \<and> (inp ! 0 \<noteq> 0 \<longrightarrow> wc \<noteq> 0 \<and> 0 \<notin> set us) \<and>
    (\<forall>room. length us \<le> room \<longrightarrow> wchar_to_utf16 wc room = Some us)"
proof (cases "inp ! 0 AND 0xfc00 = 0xd800")
  case False
  from ne obtain u us where inp: "inp = u # us" by (cases inp) auto
  with False dec have wc: "wc = ucast u" and rest: "rest = us"
    by (auto simp: utf16_to_wchar_def Let_def)
  have below: "wc < 2 ^ 16" using ucast_u16_below [of u] wc by simp
  then have "wc < 2 ^ 31" by (rule less_trans) simp
  moreover have "wc \<le>s 0xffff" using class_below(3) [OF calculation] below by simp
  moreover have "ucast wc = u" unfolding wc by (rule bit_word_eqI) (simp add: bit_simps)
  moreover have "u \<noteq> 0 \<longrightarrow> wc \<noteq> 0" using \<open>ucast wc = u\<close> by auto
  ultimately show ?thesis
    by (intro exI [of _ "[u]"]) (auto simp: inp rest wchar_to_utf16_def)
next
  case True
  with dec have "\<not> length inp < 2" by (auto simp: utf16_to_wchar_def Let_def)
  then obtain u0 u1 us where inp: "inp = u0 # u1 # us"
    by (cases inp; cases "tl inp") auto
  define v :: u32 where "v = push_bit 10 (ucast (u0 AND 0x3ff)) OR ucast (u1 AND 0x3ff)"
  have u1: "u1 AND 0xfc00 = 0xdc00" and wc: "wc = v + 0x10000" and rest: "rest = us"
    using True dec by (auto simp: inp v_def utf16_to_wchar_def Let_def split: if_splits)
  have v: "v < 2 ^ 20" using surrogate_join(1) [of u0 u1] by (simp add: v_def)
  have uv: "unat v < 2 ^ 20" using v by (subst (asm) word_less_2p_iff) auto
  then have uwc: "unat wc = unat v + 65536"
    unfolding wc by (simp add: unat_word_ariths)
  have big: "wc < 2 ^ 31" "\<not> wc < 2 ^ 16" "wc \<noteq> 0"
    by (subst word_less_2p_iff; use uwc uv in simp) (subst word_less_2p_iff, use uwc uv in auto)
  have "wchar_to_utf16 wc room = Some [u0, u1]" if "2 \<le> room" for room
    using that True u1 class_below(3) [OF big(1)] big(2) surrogate_join(2,3) [where ?u0.0 = u0 and ?u1.0 = u1, folded v_def]
    by (simp add: wchar_to_utf16_def wc inp)
  moreover have "u0 \<noteq> 0" "u1 \<noteq> 0" using True u1 by (auto simp: inp)
  ultimately show ?thesis using big
    by (intro exI [of _ "[u0, u1]"]) (auto simp: inp rest)
qed


lemma utf16_to_utf8_loop_roundtrip:
  assumes "utf16_to_utf8_loop outp inp outsize = Inr bs"
  shows "\<exists>tail. bs = outp @ tail \<and> (\<forall>pre room. length pre + length (takeWhile (\<lambda>u. u \<noteq> 0) inp) \<le> room \<longrightarrow>
    utf8_to_utf16_loop pre tail room = Inr (pre @ takeWhile (\<lambda>u. u \<noteq> 0) inp @ [0]))"
  using assms
proof (induction outp inp outsize rule: utf16_to_utf8_loop.induct)
  case (1 outp inp outsize)
  show ?case
  proof (cases "inp = [] \<or> inp ! 0 = 0")
    case True
    with "1.prems" have "bs = outp @ [0]" by (subst (asm) utf16_to_utf8_loop.simps) auto
    moreover have "takeWhile (\<lambda>u. u \<noteq> 0) inp = []" using True by (cases inp) auto
    moreover have "utf8_to_utf16_loop pre [0] room = Inr (pre @ [0])" for pre room
      by (subst utf8_to_utf16_loop.simps) simp
    ultimately show ?thesis by (intro exI [of _ "[0]"]) auto
  next
    case False
    with "1.prems" obtain wc rest cs where dec: "utf16_to_wchar inp = Some (wc, rest)"
      and enc: "wchar_to_utf8 wc (outsize - length outp) = Some cs"
      and cont: "utf16_to_utf8_loop (outp @ cs) rest outsize = Inr bs"
      by (subst (asm) utf16_to_utf8_loop.simps) (auto split: option.splits)
    from False dec obtain us where us: "inp = us @ rest" "us \<noteq> []" "wc < 2 ^ 31" "wc \<noteq> 0" "0 \<notin> set us"
      and enc16: "\<And>room. length us \<le> room \<Longrightarrow> wchar_to_utf16 wc room = Some us"
      using wchar_to_utf16_decode [of inp wc rest] by auto
    from "1.IH" [OF False dec refl enc cont] obtain tail where tail: "bs = (outp @ cs) @ tail"
      and rest_conv: "\<And>pre room. length pre + length (takeWhile (\<lambda>u. u \<noteq> 0) rest) \<le> room \<Longrightarrow>
        utf8_to_utf16_loop pre tail room = Inr (pre @ takeWhile (\<lambda>u. u \<noteq> 0) rest @ [0])"
      by auto
    have tw: "takeWhile (\<lambda>u. u \<noteq> 0) inp = us @ takeWhile (\<lambda>u. u \<noteq> 0) rest"
      unfolding us(1) using us(5) by (subst takeWhile_append2) auto
    have "utf8_to_utf16_loop pre (cs @ tail) room = Inr (pre @ takeWhile (\<lambda>u. u \<noteq> 0) inp @ [0])"
      if "length pre + length (takeWhile (\<lambda>u. u \<noteq> 0) inp) \<le> room" for pre room
    proof -
      note e = utf8_to_wchar_encode [OF us(3) enc]
      have "utf8_to_utf16_loop pre (cs @ tail) room = utf8_to_utf16_loop (pre @ us) tail room"
        using that e(1) [of tail] e(2) e(3) us(4) enc16 [of "room - length pre"]
        by (subst utf8_to_utf16_loop.simps) (auto simp: tw nth_append)
      also have "\<dots> = Inr ((pre @ us) @ takeWhile (\<lambda>u. u \<noteq> 0) rest @ [0])"
        by (rule rest_conv) (use that tw in auto)
      finally show ?thesis by (simp add: tw)
    qed
    then show ?thesis using tail by (intro exI [of _ "cs @ tail"]) auto
  qed
qed


lemma wchar_to_utf16_room: "wchar_to_utf16 wc room = Some us \<Longrightarrow> length us \<le> room"
  by (auto simp: wchar_to_utf16_def Let_def split: if_splits)

lemma utf8_to_utf16_loop_room:
  "utf8_to_utf16_loop outp inp outsize = Inr us \<Longrightarrow> length outp \<le> outsize \<Longrightarrow>
    length us \<le> outsize + 1 \<and> last us = 0"
proof (induction outp inp outsize rule: utf8_to_utf16_loop.induct)
  case (1 outp inp outsize)
  show ?case
  proof (cases "inp = [] \<or> inp ! 0 = 0")
    case True
    with "1.prems" show ?thesis by (subst (asm) utf8_to_utf16_loop.simps) auto
  next
    case False
    with "1.prems" obtain wc rest cs where dec: "utf8_to_wchar inp = Some (wc, rest)"
      and enc: "wchar_to_utf16 wc (outsize - length outp) = Some cs"
      and cont: "utf8_to_utf16_loop (outp @ cs) rest outsize = Inr us"
      by (subst (asm) utf8_to_utf16_loop.simps) (auto split: option.splits)
    show ?thesis
      by (rule "1.IH" [OF False dec refl enc cont])
         (use wchar_to_utf16_room [OF enc] "1.prems"(2) in auto)
  qed
qed



text \<open>
  The conversion to UTF-16 never writes more than one unit past its room, and
  that unit is the terminator: with the room exactly used up, the terminator lands one
  behind the end of the destination.
\<close>

theorem utf8_to_utf16_bound:
  assumes "utf8_to_utf16 inp n = Inr us"
  shows "length us \<le> n + 1 \<and> last us = 0"
  using utf8_to_utf16_loop_room [of "[]" inp n us] assms by (simp add: utf8_to_utf16_def)

theorem utf8_to_utf16_bound_witness:
  "utf8_to_utf16 [0x61, 0x62] 2 = Inr [0x61, 0x62, 0] \<and> length [0x61, 0x62, 0 :: u16] \<le> 2 + 1"
proof -
  have a: "utf8_to_utf16 [0x61, 0x62] 2 = Inr [0x61, 0x62, 0]" by code_simp
  show ?thesis using utf8_to_utf16_bound [OF a] a by simp
qed

end
