(* ===== verification/Checksum.thy ===== *)
theory Checksum
  imports Prelude
begin

text \<open>
  The CRC-32 of \<open>lib/libf2fs.c\<close> and the checksums of super block, checkpoint and inode
  blocks computed with it.
\<close>

unbundle bit_operations_syntax

definition CRCPOLY_LE :: u32 where "CRCPOLY_LE = 0xedb88320"
definition F2FS_SUPER_MAGIC :: u32 where "F2FS_SUPER_MAGIC = 0xF2F52010"
definition F2FS_BLKSIZE :: nat where "F2FS_BLKSIZE = 4096"
definition CP_CHKSUM_OFFSET :: nat where "CP_CHKSUM_OFFSET = 4092"

subsection \<open>The CRC loop\<close>

definition crc32_step :: "u32 \<Rightarrow> u32" where
  "crc32_step crc = drop_bit 1 crc XOR (if (crc AND 1) \<noteq> 0 then CRCPOLY_LE else 0)"

primrec crc32_shift :: "nat \<Rightarrow> u32 \<Rightarrow> u32" where
  "crc32_shift 0 crc = crc"
| "crc32_shift (Suc i) crc = crc32_shift i (crc32_step crc)"

fun f2fs_cal_crc32 :: "u32 \<Rightarrow> buf \<Rightarrow> nat \<Rightarrow> u32" where
  "f2fs_cal_crc32 crc p 0 = crc"
| "f2fs_cal_crc32 crc p (Suc len) =
     f2fs_cal_crc32 (crc32_shift 8 (crc XOR ucast (p 0))) (at_off 1 p) len"

definition f2fs_crc_valid :: "u32 \<Rightarrow> buf \<Rightarrow> nat \<Rightarrow> int" where
  "f2fs_crc_valid blk_crc b len =
     (let cal_crc = f2fs_cal_crc32 F2FS_SUPER_MAGIC b len
      in if cal_crc \<noteq> blk_crc then -1 else 0)"

subsection \<open>Checksums of on-disk structures\<close>

text \<open>
  Offsets in \<open>struct f2fs_node\<close>: \<open>i_generation\<close> at 68, \<open>i_inode_checksum\<close> at 368 and the
  footer's \<open>ino\<close> at 4076.
\<close>

definition f2fs_inode_chksum :: "u32 \<Rightarrow> buf \<Rightarrow> u32" where
  "f2fs_inode_chksum chksum_seed node =
     (let chksum = f2fs_cal_crc32 chksum_seed (at_off 4076 node) 4;
          seed = f2fs_cal_crc32 chksum (at_off 68 node) 4;
          chksum = f2fs_cal_crc32 seed node 368;
          chksum = f2fs_cal_crc32 chksum zero_buf 4
      in f2fs_cal_crc32 chksum (at_off 372 node) (F2FS_BLKSIZE - 372))"

text \<open>Offset in \<open>struct f2fs_checkpoint\<close>: \<open>checksum_offset\<close> at 164.\<close>

definition cp_checksum_offset :: "buf \<Rightarrow> u32" where
  "cp_checksum_offset cp = le32_at cp 164"

definition f2fs_checkpoint_chksum :: "buf \<Rightarrow> u32" where
  "f2fs_checkpoint_chksum cp =
     (let chksum_ofs = unat (cp_checksum_offset cp);
          chksum = f2fs_cal_crc32 F2FS_SUPER_MAGIC cp chksum_ofs
      in if chksum_ofs < CP_CHKSUM_OFFSET then
           let chksum_ofs = chksum_ofs + 4
           in f2fs_cal_crc32 chksum (at_off chksum_ofs cp) (F2FS_BLKSIZE - chksum_ofs)
         else chksum)"

subsection \<open>Injectivity and linearity of the CRC\<close>

lemma bit_poly_31: "bit CRCPOLY_LE 31"
  by (simp add: CRCPOLY_LE_def)

lemma and_1_bit: "((a :: u32) AND 1 \<noteq> 0) \<longleftrightarrow> bit a 0"
  by (simp add: and_one_eq bit_0 odd_iff_mod_2_eq_one)

lemma crc32_step_bit31: "bit (crc32_step a) 31 \<longleftrightarrow> bit a 0"
proof -
  have "\<not> bit a 32" using bit_imp_le_length [of a 32] by auto
  then have "\<not> bit (drop_bit 1 a) 31" by (simp only: bit_drop_bit_eq comp_def) simp
  then show ?thesis
    unfolding crc32_step_def and_1_bit using bit_poly_31 by (simp add: bit_xor_iff)
qed

lemma word_eq_drop1: "drop_bit 1 a = drop_bit 1 b \<Longrightarrow> bit a 0 = bit b 0 \<Longrightarrow> a = (b :: u32)"
proof (rule bit_word_eqI)
  fix n assume d: "drop_bit 1 a = drop_bit 1 b" and z: "bit a 0 = bit b 0"
  show "bit a n = bit b n"
  proof (cases n)
    case (Suc m)
    have "bit (drop_bit 1 a) m = bit (drop_bit 1 b) m" using d by simp
    then show ?thesis by (simp only: bit_drop_bit_eq Suc plus_1_eq_Suc comp_def)
  qed (use z in simp)
qed

lemma crc32_step_inj: "crc32_step a = crc32_step b \<Longrightarrow> a = b"
proof -
  assume eq: "crc32_step a = crc32_step b"
  then have z: "bit a 0 = bit b 0" using crc32_step_bit31 by metis
  with eq have "drop_bit 1 a XOR c = drop_bit 1 b XOR c" if "c = (if bit b 0 then CRCPOLY_LE else 0)" for c
    unfolding crc32_step_def and_1_bit using that by simp
  then have "(drop_bit 1 a XOR c) XOR c = (drop_bit 1 b XOR c) XOR c"
    if "c = (if bit b 0 then CRCPOLY_LE else 0)" for c
    using that by simp
  then have "drop_bit 1 a = drop_bit 1 b" by (simp only: xor.assoc xor_self_eq xor.right_neutral simp_thms)
  with z show ?thesis by (rule word_eq_drop1 [rotated])
qed

lemma crc32_shift_inj: "crc32_shift n a = crc32_shift n b \<Longrightarrow> a = b"
  by (induction n arbitrary: a b) (auto dest: crc32_step_inj)

lemma f2fs_cal_crc32_inj: "f2fs_cal_crc32 a p n = f2fs_cal_crc32 b p n \<Longrightarrow> a = b"
proof (induction n arbitrary: a b p)
  case (Suc n)
  then have "a XOR ucast (p 0) = b XOR ucast (p 0)" by (auto dest!: Suc.IH crc32_shift_inj)
  then have "(a XOR ucast (p 0)) XOR ucast (p 0) = (b XOR ucast (p 0)) XOR ucast (p 0)" by simp
  then show ?case by (simp only: xor.assoc xor_self_eq xor.right_neutral)
qed simp

lemma crc32_step_xor: "crc32_step (a XOR b) = crc32_step a XOR crc32_step b"
  unfolding crc32_step_def and_1_bit by (rule bit_word_eqI) (auto simp: bit_xor_iff drop_bit_xor)

lemma crc32_shift_xor: "crc32_shift n (a XOR b) = crc32_shift n a XOR crc32_shift n b"
  by (induction n arbitrary: a b) (simp_all add: crc32_step_xor)

lemma crc32_shift_add: "crc32_shift (m + n) a = crc32_shift n (crc32_shift m a)"
  by (induction m arbitrary: a) simp_all

lemma f2fs_cal_crc32_append:
  "f2fs_cal_crc32 crc p (m + n) = f2fs_cal_crc32 (f2fs_cal_crc32 crc p m) (at_off m p) n"
proof (induction m arbitrary: crc p)
  case (Suc m)
  then show ?case by simp
qed simp

lemma f2fs_cal_crc32_cong:
  "(\<And>i. i < n \<Longrightarrow> p i = q i) \<Longrightarrow> f2fs_cal_crc32 crc p n = f2fs_cal_crc32 crc q n"
proof (induction n arbitrary: crc p q)
  case (Suc n)
  have "f2fs_cal_crc32 c (at_off 1 p) n = f2fs_cal_crc32 c (at_off 1 q) n" for c
    by (rule Suc.IH) (use Suc.prems in \<open>simp add: at_off_apply\<close>)
  moreover have "p 0 = q 0" using Suc.prems by simp
  ultimately show ?case by simp
qed simp

lemma crc32_shift_push:
  "k \<le> 24 \<Longrightarrow> crc32_shift k (push_bit k (ucast (x :: u8))) = ucast x"
proof (induction k)
  case (Suc k)
  let ?w = "push_bit (Suc k) (ucast x) :: u32"
  have "\<not> bit ?w 0" by (simp only: bit_push_bit_iff) simp
  moreover have "drop_bit 1 ?w = push_bit k (ucast x)"
  proof (rule bit_word_eqI)
    fix n assume n: "n < LENGTH(32)"
    have "bit (ucast x :: u32) j \<Longrightarrow> j < 8" for j by (auto simp: bit_simps dest: bit_imp_le_length)
    from this [of "n - k"] show "bit (drop_bit 1 ?w) n = bit (push_bit k (ucast x) :: u32) n"
      using Suc.prems n by (auto simp only: bit_drop_bit_eq comp_def bit_push_bit_iff possible_bit_word) auto
  qed
  ultimately have "crc32_step ?w = push_bit k (ucast x)"
    unfolding crc32_step_def and_1_bit by simp
  with Suc show ?case by simp
qed simp

lemma le32_at_xor:
  "le32_at p off = ucast (p off) XOR push_bit 8 (ucast (p (off + 1))) XOR
     push_bit 16 (ucast (p (off + 2))) XOR push_bit 24 (ucast (p (off + 3)))"
  unfolding le32_at_def
  by (rule bit_word_eqI) (auto simp: bit_simps dest: bit_imp_le_length)

lemma f2fs_cal_crc32_word: "f2fs_cal_crc32 crc p 4 = crc32_shift 32 (crc XOR le32_at p 0)"
proof -
  let ?b = "\<lambda>i. ucast (p i) :: u32"
  have s: "crc32_shift 32 (push_bit 8 (?b 1)) = crc32_shift 24 (?b 1)"
    "crc32_shift 32 (push_bit 16 (?b 2)) = crc32_shift 16 (?b 2)"
    "crc32_shift 32 (push_bit 24 (?b 3)) = crc32_shift 8 (?b 3)"
    using crc32_shift_add [of 8 24 "push_bit 8 (?b 1)"] crc32_shift_add [of 16 16 "push_bit 16 (?b 2)"]
      crc32_shift_add [of 24 8 "push_bit 24 (?b 3)"]
    by (simp_all add: crc32_shift_push)
  have t: "crc32_shift 8 (crc32_shift 8 x) = crc32_shift 16 x" 
     "crc32_shift 8 (crc32_shift 16 x) = crc32_shift 24 x"
     "crc32_shift 8 (crc32_shift 24 x) = crc32_shift 32 x" for x
    using crc32_shift_add [of 8 8 x] crc32_shift_add [of 16 8 x] crc32_shift_add [of 24 8 x] by simp_all
  have "f2fs_cal_crc32 crc p 4 = crc32_shift 8 (crc32_shift 8 (crc32_shift 8 (crc32_shift 8
      (crc XOR ?b 0) XOR ?b 1) XOR ?b 2) XOR ?b 3)"
    by (simp add: numeral_eq_Suc at_off_apply)
  also have "\<dots> = crc32_shift 32 (crc XOR ?b 0) XOR crc32_shift 24 (?b 1) XOR crc32_shift 16 (?b 2) XOR crc32_shift 8 (?b 3)"
    by (simp only: crc32_shift_xor t xor.assoc)
  also have "\<dots> = crc32_shift 32 (crc XOR le32_at p 0)"
    by (simp only: le32_at_xor crc32_shift_xor s add_0 xor.assoc)
  finally show ?thesis .
qed

lemma xor_left_cancel: "(a :: u32) XOR b = a XOR c \<Longrightarrow> b = c"
proof -
  assume "a XOR b = a XOR c"
  then have "a XOR (a XOR b) = a XOR (a XOR c)" by (rule arg_cong)
  then show ?thesis by (simp only: xor.assoc [symmetric] xor_self_eq xor.left_neutral)
qed

lemma le32_at_eqD: "le32_at p 0 = le32_at q 0 \<Longrightarrow> i < 4 \<Longrightarrow> p i = q i"
proof -
  assume eq: "le32_at p 0 = le32_at q 0" and "i < 4"
  have byte: "p i = ucast (drop_bit (8 * i) (le32_at p 0))" if "i < 4" for p i
  proof -
    from that have "i = 0 \<or> i = 1 \<or> i = 2 \<or> i = 3" by arith
    then show ?thesis
      by (elim disjE; intro bit_word_eqI) (auto simp: le32_at_def bit_simps numeral_2_eq_2 dest: bit_imp_le_length)
  qed
  from byte [of i p] byte [of i q] eq \<open>i < 4\<close> show ?thesis by simp
qed



lemma f2fs_inode_chksum_ignores_field:
  "f2fs_inode_chksum seed (put_le32 368 v node) = f2fs_inode_chksum seed node"
proof -
  let ?n = "put_le32 368 v node"
  have a: "f2fs_cal_crc32 c (at_off 4076 ?n) 4 = f2fs_cal_crc32 c (at_off 4076 node) 4" for c
    by (rule f2fs_cal_crc32_cong) (simp add: at_off_apply put_le32_out)
  have b: "f2fs_cal_crc32 c (at_off 68 ?n) 4 = f2fs_cal_crc32 c (at_off 68 node) 4" for c
    by (rule f2fs_cal_crc32_cong) (simp add: at_off_apply put_le32_out)
  have c: "f2fs_cal_crc32 c ?n 368 = f2fs_cal_crc32 c node 368" for c
    by (rule f2fs_cal_crc32_cong) (simp add: put_le32_out)
  have d: "f2fs_cal_crc32 c (at_off 372 ?n) k = f2fs_cal_crc32 c (at_off 372 node) k" for c k
    by (rule f2fs_cal_crc32_cong) (simp add: at_off_apply put_le32_out)
  show ?thesis unfolding f2fs_inode_chksum_def a b c d ..
qed

lemma f2fs_checkpoint_chksum_ignores_field:
  assumes "unat (cp_checksum_offset cp) = ofs" and "168 \<le> ofs"
  shows "f2fs_checkpoint_chksum (put_le32 ofs v cp) = f2fs_checkpoint_chksum cp"
proof -
  let ?n = "put_le32 ofs v cp"
  have o: "cp_checksum_offset ?n = cp_checksum_offset cp"
    using assms(2) by (simp add: cp_checksum_offset_def le32_at_put_le32)
  have a: "f2fs_cal_crc32 c ?n ofs = f2fs_cal_crc32 c cp ofs" for c
    by (rule f2fs_cal_crc32_cong) (simp add: put_le32_out)
  have b: "f2fs_cal_crc32 c (at_off (ofs + 4) ?n) k = f2fs_cal_crc32 c (at_off (ofs + 4) cp) k" for c k
    by (rule f2fs_cal_crc32_cong) (simp add: at_off_apply put_le32_out)
  show ?thesis unfolding f2fs_checkpoint_chksum_def o Let_def assms(1) a b ..
qed

end
