(* ===== verification/Hash.thy ===== *)
theory Hash
  imports Prelude
begin

text \<open>
  The directory-entry hash of \<open>lib/libf2fs.c\<close>: the TEA rounds, the packing of a name into
  words, and \<open>f2fs_dentry_hash\<close>, which hashes the case-folded name of a casefolded
  directory. The case-folding routine is reached through the \<open>ops\<close> table of the
  character set and is an argument here.
\<close>

unbundle bit_operations_syntax

definition DELTA :: u32 where "DELTA = 0x9E3779B9"

primrec TEA_rounds :: "nat \<Rightarrow> u32 \<Rightarrow> u32 \<times> u32 \<Rightarrow> u32 list \<Rightarrow> u32 \<times> u32" where
  "TEA_rounds 0 acc b inp = b"
| "TEA_rounds (Suc n) acc b inp =
     (let (b0, b1) = b; acc = acc + DELTA;
          b0 = b0 + ((push_bit 4 b1 + inp ! 0) XOR (b1 + acc) XOR (drop_bit 5 b1 + inp ! 1));
          b1 = b1 + ((push_bit 4 b0 + inp ! 2) XOR (b0 + acc) XOR (drop_bit 5 b0 + inp ! 3))
      in TEA_rounds n acc (b0, b1) inp)"

definition TEA_transform :: "u32 \<times> u32 \<Rightarrow> u32 list \<Rightarrow> u32 \<times> u32" where
  "TEA_transform b inp =
     (let (b0, b1) = TEA_rounds 16 0 b inp in (fst b + b0, snd b + b1))"

text \<open>
  The packing loop: \<open>i\<close> bytes are read, \<open>val\<close> is the word being filled, \<open>num\<close> counts the
  words still to be stored and \<open>out\<close> holds those stored.
\<close>

function str2hashbuf_loop ::
  "u32 \<Rightarrow> buf \<Rightarrow> nat \<Rightarrow> nat \<Rightarrow> u32 \<Rightarrow> int \<Rightarrow> u32 list \<Rightarrow> u32 \<times> int \<times> u32 list" where
  "str2hashbuf_loop pad msg len i val num out =
     (if i < len then
        let val = (if i mod 4 = 0 then pad else val);
            val = ucast (msg i) + push_bit 8 val
        in if i mod 4 = 3
           then str2hashbuf_loop pad msg len (Suc i) pad (num - 1) (out @ [val])
           else str2hashbuf_loop pad msg len (Suc i) val num out
      else (val, num, out))"
  by pat_completeness auto
termination
  by (relation "measure (\<lambda>(pad, msg, len, i, val, num, out). len - i)") auto

declare str2hashbuf_loop.simps [simp del]

definition str2hashbuf :: "buf \<Rightarrow> nat \<Rightarrow> nat \<Rightarrow> u32 list" where
  "str2hashbuf msg len num =
     (let pad = word_of_nat len OR push_bit 8 (word_of_nat len);
          pad = pad OR push_bit 16 pad;
          len = (if num * 4 < len then num * 4 else len);
          (val, n, out) = str2hashbuf_loop pad msg len 0 pad (int num) [];
          out = (if 0 \<le> n - 1 then out @ [val] else out)
      in out @ replicate (nat (n - 1)) pad)"

function dentry_hash_loop :: "u32 \<times> u32 \<Rightarrow> buf \<Rightarrow> nat \<Rightarrow> u32 \<times> u32" where
  "dentry_hash_loop b p len =
     (let inp = str2hashbuf p len 4; b = TEA_transform b inp; p = at_off 16 p
      in if len \<le> 16 then b else dentry_hash_loop b p (len - 16))"
  by pat_completeness auto
termination
  by (relation "measure (\<lambda>(b, p, len). len)") auto

declare dentry_hash_loop.simps [simp del]

text \<open>\<open>F2FS_HASH_COL_BIT\<close> is bit 63 of a 64-bit constant, above every bit of the hash.\<close>

definition dentry_hash :: "buf \<Rightarrow> nat \<Rightarrow> u32" where
  "dentry_hash name len =
     (if len \<le> 2 \<and> name 0 = 0x2e \<and> (name 1 = 0x2e \<or> name 1 = 0) then 0
      else
        let b = dentry_hash_loop (0x67452301, 0xefcdab89) name len; hash = fst b
        in ucast ((ucast hash :: u64) AND NOT (push_bit 63 1)))"

definition PATH_MAX :: nat where "PATH_MAX = 4096"

text \<open>\<open>casefold name len PATH_MAX\<close> is the folded name and its length, \<open>None\<close> for a negative length.\<close>

definition f2fs_dentry_hash ::
  "(buf \<Rightarrow> nat \<Rightarrow> nat \<Rightarrow> (buf \<times> nat) option) \<Rightarrow> bool \<Rightarrow> buf \<Rightarrow> nat \<Rightarrow> u32" where
  "f2fs_dentry_hash casefold casefolded name len =
     (if len \<noteq> 0 \<and> casefolded then
        (case casefold name len PATH_MAX of
           Some (buff, dlen) \<Rightarrow> dentry_hash buff dlen
         | None \<Rightarrow> dentry_hash name len)
      else dentry_hash name len)"

subsection \<open>Lemmas\<close>

lemma str2hashbuf_loop_cong:
  "(\<And>i. i < len \<Longrightarrow> m i = m' i) \<Longrightarrow>
   str2hashbuf_loop pad m len i val num out = str2hashbuf_loop pad m' len i val num out"
proof (induction pad m len i val num out rule: str2hashbuf_loop.induct)
  case (1 pad msg len i val num out)
  then show ?case
    by (simp add: str2hashbuf_loop.simps [of _ _ _ i] Let_def)
qed

lemma str2hashbuf_cong:
  assumes "\<And>i. i < len \<Longrightarrow> m i = m' i"
  shows "str2hashbuf m len num = str2hashbuf m' len num"
proof -
  have "str2hashbuf_loop pad m k 0 v n out = str2hashbuf_loop pad m' k 0 v n out" if "k \<le> len" for pad k v n out
    by (rule str2hashbuf_loop_cong) (use assms that in auto)
  then show ?thesis by (simp add: str2hashbuf_def Let_def)
qed

lemma dentry_hash_loop_cong:
  "(\<And>i. i < len \<Longrightarrow> p i = p' i) \<Longrightarrow> dentry_hash_loop b p len = dentry_hash_loop b p' len"
proof (induction b p len arbitrary: p' rule: dentry_hash_loop.induct)
  case (1 b p len)
  have eq: "str2hashbuf p len 4 = str2hashbuf p' len 4" by (rule str2hashbuf_cong) (rule "1.prems")
  have rec: "dentry_hash_loop b' (at_off 16 p) (len - 16) = dentry_hash_loop b' (at_off 16 p') (len - 16)"
    if "b' = TEA_transform b (str2hashbuf p len 4)" "\<not> len \<le> 16" for b'
    by (rule "1.IH" [OF refl that(1) refl that(2)]) (use "1.prems" in \<open>simp add: at_off_apply\<close>)
  show ?case
    using rec by (simp add: dentry_hash_loop.simps [of _ p] dentry_hash_loop.simps [of _ p'] eq Let_def)
qed

lemma str2hashbuf_loop_length:
  "num = 4 - int (i div 4) \<Longrightarrow> length out = i div 4 \<Longrightarrow> i \<le> len \<Longrightarrow> len \<le> 16 \<Longrightarrow>
   str2hashbuf_loop pad msg len i val num out = (v, n, out') \<Longrightarrow> n = 4 - int (len div 4) \<and> length out' = len div 4"
proof (induction pad msg len i val num out rule: str2hashbuf_loop.induct)
  case (1 pad msg len i val num out)
  show ?case
  proof (cases "i < len")
    case True
    define w where "w = ucast (msg i) + push_bit 8 (if i mod 4 = 0 then pad else val)"
    have step: "str2hashbuf_loop pad msg len i val num out =
        (if i mod 4 = 3 then str2hashbuf_loop pad msg len (Suc i) pad (num - 1) (out @ [w])
         else str2hashbuf_loop pad msg len (Suc i) w num out)"
      using True by (simp add: str2hashbuf_loop.simps [of _ _ _ i] Let_def w_def)
    have d: "Suc i div 4 = (if i mod 4 = 3 then Suc (i div 4) else i div 4)" by presburger
    show ?thesis
    proof (cases "i mod 4 = 3")
      case m: True
      from True m "1.prems" d step show ?thesis
        by (intro "1.IH"(1) [OF True refl refl m]) (simp_all add: w_def)
    next
      case m: False
      from True m "1.prems" d step show ?thesis
        by (intro "1.IH"(2) [OF True refl refl m]) (simp_all add: w_def)
    qed
  next
    case False
    with "1.prems" show ?thesis by (subst (asm) str2hashbuf_loop.simps) auto
  qed
qed

text \<open>The four words the TEA rounds read are always filled.\<close>

lemma str2hashbuf_length: "length (str2hashbuf msg len 4) = 4"
proof -
  let ?pad = "let pad = word_of_nat len OR push_bit 8 (word_of_nat len) in pad OR push_bit 16 pad :: u32"
  let ?len = "if 16 < len then 16 else len"
  obtain v n out where r: "str2hashbuf_loop ?pad msg ?len 0 ?pad 4 [] = (v, n, out)"
    by (rule prod_cases3)
  then have "n = 4 - int (?len div 4)" "length out = ?len div 4"
    using str2hashbuf_loop_length [OF _ _ _ _ r] by auto
  moreover have "?len div 4 \<le> 16 div 4" by (rule div_le_mono) simp
  ultimately show ?thesis using r by (auto simp: str2hashbuf_def Let_def)
qed

text \<open>
  The hash of a name is a function of the name's own bytes: two buffers that
  agree on the first \<open>max 2 len\<close> bytes hash alike, so nothing behind the name is read
  (a one-byte name is tested together with the byte after it).
\<close>

lemma dentry_hash_reads_name:
  assumes "\<And>i. i < max 2 len \<Longrightarrow> name i = name' i"
  shows "dentry_hash name len = dentry_hash name' len"
proof -
  have "dentry_hash_loop b name len = dentry_hash_loop b name' len" for b
    by (rule dentry_hash_loop_cong) (use assms in auto)
  moreover have "name 0 = name' 0" "name 1 = name' 1" using assms by auto
  ultimately show ?thesis by (auto simp: dentry_hash_def)
qed

end
