(* ===== verification/Device.thy ===== *)
theory Device
  imports Prelude "HOL-Library.Monad_Syntax"
begin

text \<open>
  The block I/O layer of \<open>lib/libf2fs_io.c\<close>: the mapping of a file-system offset to one of
  the devices (\<open>__get_device_fd\<close>), the write-through block cache (\<open>dcache_*\<close>, least used
  entry first), and \<open>dev_read\<close>, \<open>dev_write\<close>, \<open>dev_fill\<close> with their block variants.

  The host is one byte-addressed file per descriptor, with predicates for the offsets at
  which \<open>lseek64\<close>, \<open>read\<close> or \<open>write\<close> report failure, and for what \<open>malloc\<close> does: whether
  it succeeds for a number of cache entries, and what the fresh memory holds. An
  access outside the arrays the cache allocated (undefined in C) and a failing \<open>assert\<close> are
  the value \<open>None\<close>. Sparse mode, which goes to an Android library, is not modelled:
  \<open>c.sparse_mode\<close> is 0 throughout.
\<close>

subsection \<open>State\<close>

record host =
  fdata :: "int \<Rightarrow> nat \<Rightarrow> u8"
  rd_fail :: "int \<Rightarrow> nat \<Rightarrow> bool"
  wr_fail :: "int \<Rightarrow> nat \<Rightarrow> bool"
  alloc_ok :: "int \<Rightarrow> bool"
  fresh_valid :: "nat \<Rightarrow> bool"
  fresh_blk :: "nat \<Rightarrow> nat"
  fresh_lastused :: "nat \<Rightarrow> nat"
  fresh_buf :: "nat \<Rightarrow> buf"

record dev_cache_config =
  num_cache_entry :: int
  max_hash_collision :: nat

record dcache =
  dcache_config :: dev_cache_config
  dcache_initialized :: bool
  dcache_entries :: nat  \<comment> \<open>entries the four arrays have, 0 when they are NULL\<close>
  dcache_valid :: "nat \<Rightarrow> bool"
  dcache_blk :: "nat \<Rightarrow> nat"
  dcache_lastused :: "nat \<Rightarrow> nat"
  dcache_buf :: "nat \<Rightarrow> buf"
  dcache_usetick :: nat
  dcache_relocate_offset :: "int list"
  dcache_raccess :: nat
  dcache_rhit :: nat
  dcache_rmiss :: nat
  dcache_rreplace :: nat

record device_info =
  dev_fd :: int
  start_blkaddr :: nat
  end_blkaddr :: nat

record io_state =
  devices :: "device_info list"
  cache_config :: dev_cache_config
  dry_run :: bool
  max_size :: nat
  cache :: dcache
  hst :: host

definition BLKSZ :: nat where "BLKSZ = 4096"
definition MIN_NUM_CACHE_ENTRY :: int where "MIN_NUM_CACHE_ENTRY = 1024"

definition dcache_relocate_offset0 :: "int list" where
  "dcache_relocate_offset0 =
     [20, -20, 40, -40, 80, -80, 160, -160, 320, -320, 640, -640, 1280, -1280, 2560, -2560]"

subsection \<open>Device selection\<close>

fun get_device_fd :: "device_info list \<Rightarrow> nat \<Rightarrow> (int \<times> nat) option" where
  "get_device_fd [] off = None"
| "get_device_fd (d # ds) off =
     (let blk_addr = off div BLKSZ in
      if start_blkaddr d \<le> blk_addr \<and> blk_addr \<le> end_blkaddr d
      then Some (dev_fd d, off - start_blkaddr d * BLKSZ)
      else get_device_fd ds off)"

subsection \<open>The block cache\<close>

definition dcache_release :: "dcache \<Rightarrow> dcache" where
  "dcache_release c =
     (if \<not> dcache_initialized c then c
      else c\<lparr>dcache_initialized := False,
             dcache_config := (dcache_config c)\<lparr>num_cache_entry := 0\<rparr>,
             dcache_entries := 0\<rparr>)"

definition dcache_alloc_all :: "host \<Rightarrow> int \<Rightarrow> dcache \<Rightarrow> bool \<times> dcache" where
  "dcache_alloc_all h n c =
     (if n \<le> 0 then (False, c)
      else if \<not> alloc_ok h n then (False, dcache_release c)
      else (True, c\<lparr>dcache_entries := nat n,
                    dcache_valid := fresh_valid h, dcache_blk := fresh_blk h,
                    dcache_lastused := fresh_lastused h, dcache_buf := fresh_buf h,
                    dcache_config := (dcache_config c)\<lparr>num_cache_entry := n\<rparr>\<rparr>))"

fun dcache_relocate_loop :: "nat \<Rightarrow> int list \<Rightarrow> dcache \<Rightarrow> dcache" where
  "dcache_relocate_loop i [] c = c"
| "dcache_relocate_loop i (r # rs) c =
     (if i < max_hash_collision (dcache_config c) then
        if num_cache_entry (dcache_config c) div 2 < \<bar>r\<bar>
        then c\<lparr>dcache_config := (dcache_config c)\<lparr>max_hash_collision := i\<rparr>\<rparr>
        else dcache_relocate_loop (Suc i) rs
          (c\<lparr>dcache_relocate_offset :=
               (dcache_relocate_offset c)[i := num_cache_entry (dcache_config c) + r]\<rparr>)
      else c)"

definition dcache_relocate_init :: "dcache \<Rightarrow> dcache" where
  "dcache_relocate_init c = dcache_relocate_loop 0 dcache_relocate_offset0 c"

function dcache_alloc_loop :: "host \<Rightarrow> int \<Rightarrow> dcache \<Rightarrow> dcache" where
  "dcache_alloc_loop h n c =
     (let (ok, c') = dcache_alloc_all h n c in
      if \<not> ok \<and> n \<noteq> MIN_NUM_CACHE_ENTRY
      then dcache_alloc_loop h (max MIN_NUM_CACHE_ENTRY (n div 2)) c'
      else c')"
  by pat_completeness auto
termination
  by (relation "measure (\<lambda>(h, n, c). if n = MIN_NUM_CACHE_ENTRY then 0 else nat n + 1)")
     (auto simp: MIN_NUM_CACHE_ENTRY_def max_def)

definition dcache_init :: "host \<Rightarrow> dev_cache_config \<Rightarrow> dcache \<Rightarrow> dcache" where
  "dcache_init h cfg c =
     (if num_cache_entry cfg \<le> 0 then c
      else
        let c1 = (dcache_release c)\<lparr>dcache_entries := 0, dcache_config := cfg\<rparr>;
            n = max MIN_NUM_CACHE_ENTRY (num_cache_entry cfg);
            c2 = dcache_relocate_init (dcache_alloc_loop h n c1)
        in c2\<lparr>dcache_initialized := True, dcache_raccess := 0, dcache_rhit := 0,
              dcache_rmiss := 0, dcache_rreplace := 0\<rparr>)"

definition dcache_relocate :: "dcache \<Rightarrow> nat \<Rightarrow> nat \<Rightarrow> nat option" where
  "dcache_relocate c entry n =
     (if num_cache_entry (dcache_config c) \<noteq> 0 \<and> n < length (dcache_relocate_offset c)
      then Some (nat ((int entry + dcache_relocate_offset c ! n) mod
                      num_cache_entry (dcache_config c)))
      else None)"

fun dcache_find_loop :: "dcache \<Rightarrow> nat \<Rightarrow> nat \<Rightarrow> nat \<Rightarrow> nat \<Rightarrow> nat \<Rightarrow> nat \<Rightarrow> nat option" where
  "dcache_find_loop c blk entry 0 try_nr target least_used = Some least_used"
| "dcache_find_loop c blk entry (Suc k) try_nr target least_used =
     (if target \<ge> dcache_entries c then None
      else if \<not> dcache_valid c target \<or> dcache_blk c target = blk then Some target
      else do {
        let lu = (if dcache_lastused c target < dcache_lastused c least_used
                  then target else least_used);
        target' \<leftarrow> dcache_relocate c entry try_nr;
        dcache_find_loop c blk entry k (Suc try_nr) target' lu
      })"

definition dcache_find :: "dcache \<Rightarrow> nat \<Rightarrow> nat option" where
  "dcache_find c blk =
     (let n = num_cache_entry (dcache_config c); m = max_hash_collision (dcache_config c) in
      if n > 0 then
        let entry = blk mod nat n
        in dcache_find_loop c blk entry m 0 entry entry
      else None)"

definition dcache_io_read :: "host \<Rightarrow> int \<Rightarrow> nat \<Rightarrow> nat \<Rightarrow> nat \<Rightarrow> dcache \<Rightarrow> int \<times> dcache" where
  "dcache_io_read h fd entry offset blk c =
     (if rd_fail h fd offset then (-1, c)
      else (0, c\<lparr>dcache_buf := (dcache_buf c)
                   (entry := put_bytes 0 BLKSZ (at_off offset (fdata h fd)) (dcache_buf c entry)),
                 dcache_usetick := dcache_usetick c + 1,
                 dcache_lastused := (dcache_lastused c)(entry := dcache_usetick c + 1),
                 dcache_valid := (dcache_valid c)(entry := True),
                 dcache_blk := (dcache_blk c)(entry := blk)\<rparr>))"


function dcache_rw_loop ::
  "host \<Rightarrow> int \<Rightarrow> bool \<Rightarrow> nat \<Rightarrow> nat \<Rightarrow> nat \<Rightarrow> nat \<Rightarrow> nat \<Rightarrow> buf \<Rightarrow> dcache \<Rightarrow> (int \<times> buf \<times> dcache) option" where
  "dcache_rw_loop h fd is_write blk addr_in_blk start byte_count pos b c =
     (if byte_count = 0 then Some (0, b, c)
      else do {
        let cur_size = min byte_count (BLKSZ - addr_in_blk);
        entry \<leftarrow> dcache_find c blk;
        if entry \<ge> dcache_entries c then None
        else do {
          let c = (if \<not> is_write then c\<lparr>dcache_raccess := dcache_raccess c + 1\<rparr> else c);
          let hit = (dcache_valid c entry \<and> dcache_blk c entry = blk);
          let (err, c) =
            (if hit then
               (0, if is_write
                   then c\<lparr>dcache_buf := (dcache_buf c)
                          (entry := put_bytes addr_in_blk cur_size (at_off pos b) (dcache_buf c entry))\<rparr>
                   else c\<lparr>dcache_rhit := dcache_rhit c + 1\<rparr>)
             else if \<not> is_write then
               dcache_io_read h fd entry start blk
                 (c\<lparr>dcache_rmiss := dcache_rmiss c + 1,
                    dcache_rreplace := dcache_rreplace c + (if dcache_valid c entry then 1 else 0)\<rparr>)
             else (0, c));
          if err \<noteq> 0 then Some (err, b, c)
          else do {
            let b = (if \<not> is_write
                     then put_bytes pos cur_size (at_off addr_in_blk (dcache_buf c entry)) b
                     else b);
            dcache_rw_loop h fd is_write (blk + 1) 0 (start + BLKSZ) (byte_count - cur_size)
              (pos + cur_size) b c
          }
        }
      })"
  by pat_completeness auto
termination
  by (relation "measure (\<lambda>(h, fd, w, blk, a, s, n, pos, b, c). n + (if a = 0 then 0 else 1))")
     (auto simp: BLKSZ_def)

definition dcache_update_rw ::
  "host \<Rightarrow> dev_cache_config \<Rightarrow> int \<Rightarrow> buf \<Rightarrow> nat \<Rightarrow> nat \<Rightarrow> bool \<Rightarrow> dcache \<Rightarrow> (int \<times> buf \<times> dcache) option"
  where
  "dcache_update_rw h cfg fd b offset byte_count is_write c =
     (let c1 = (if \<not> dcache_initialized c then dcache_init h cfg c else c) in
      if \<not> dcache_initialized c1 then Some (1, b, c1)
      else
        let blk = offset div BLKSZ; addr_in_blk = offset mod BLKSZ; start = blk * BLKSZ
        in dcache_rw_loop h fd is_write blk addr_in_blk start byte_count 0 b c1)"

definition dcache_update_cache ::
  "host \<Rightarrow> dev_cache_config \<Rightarrow> int \<Rightarrow> buf \<Rightarrow> nat \<Rightarrow> nat \<Rightarrow> dcache \<Rightarrow> (int \<times> buf \<times> dcache) option" where
  "dcache_update_cache h cfg fd b offset count c = dcache_update_rw h cfg fd b offset count True c"

definition dcache_read ::
  "host \<Rightarrow> dev_cache_config \<Rightarrow> int \<Rightarrow> buf \<Rightarrow> nat \<Rightarrow> nat \<Rightarrow> dcache \<Rightarrow> (int \<times> buf \<times> dcache) option" where
  "dcache_read h cfg fd b offset count c = dcache_update_rw h cfg fd b offset count False c"

subsection \<open>I/O interfaces\<close>

definition host_write :: "int \<Rightarrow> nat \<Rightarrow> nat \<Rightarrow> buf \<Rightarrow> host \<Rightarrow> host" where
  "host_write fd offset len b h =
     h\<lparr>fdata := (fdata h)(fd := put_bytes offset len b (fdata h fd))\<rparr>"

definition note_size :: "nat \<Rightarrow> nat \<Rightarrow> io_state \<Rightarrow> io_state" where
  "note_size offset len st =
     (if max_size st < offset + len then st\<lparr>max_size := offset + len\<rparr> else st)"

definition dev_read :: "buf \<Rightarrow> nat \<Rightarrow> nat \<Rightarrow> io_state \<Rightarrow> (int \<times> buf \<times> io_state) option" where
  "dev_read b offset len st =
     (let st = note_size offset len st in
      case get_device_fd (devices st) offset of
        None \<Rightarrow> Some (-1, b, st)
      | Some (fd, off) \<Rightarrow>
          if fd < 0 then Some (fd, b, st)
          else do {
            (err, b, c) \<leftarrow> dcache_read (hst st) (cache_config st) fd b off len (cache st);
            let st = st\<lparr>cache := c\<rparr>;
            if err \<le> 0 then Some (err, b, st)
            else if rd_fail (hst st) fd off then Some (-1, b, st)
            else Some (0, put_bytes 0 len (at_off off (fdata (hst st) fd)) b, st)
          })"

definition dev_write :: "buf \<Rightarrow> nat \<Rightarrow> nat \<Rightarrow> io_state \<Rightarrow> (int \<times> io_state) option" where
  "dev_write b offset len st =
     (let st = note_size offset len st in
      if dry_run st then Some (0, st)
      else case get_device_fd (devices st) offset of
        None \<Rightarrow> Some (-1, st)
      | Some (fd, off) \<Rightarrow>
          if fd < 0 then Some (fd, st)
          else do {
            (err, b, c) \<leftarrow> dcache_update_cache (hst st) (cache_config st) fd b off len (cache st);
            let st = st\<lparr>cache := c\<rparr>;
            if err < 0 then Some (-1, st)
            else if wr_fail (hst st) fd off then Some (-1, st)
            else Some (0, st\<lparr>hst := host_write fd off len b (hst st)\<rparr>)
          })"

definition dev_fill :: "buf \<Rightarrow> nat \<Rightarrow> nat \<Rightarrow> io_state \<Rightarrow> int \<times> io_state" where
  "dev_fill b offset len st =
     (let st = note_size offset len st in
      case get_device_fd (devices st) offset of
        None \<Rightarrow> (-1, st)
      | Some (fd, off) \<Rightarrow>
          if fd < 0 then (fd, st)
          else if b 0 \<noteq> 0 then (-1, st)
          else if wr_fail (hst st) fd off then (-1, st)
          else (0, st\<lparr>hst := host_write fd off len b (hst st)\<rparr>))"

definition dev_write_block :: "buf \<Rightarrow> nat \<Rightarrow> io_state \<Rightarrow> (int \<times> io_state) option" where
  "dev_write_block b blk_addr st = dev_write b (blk_addr * BLKSZ) BLKSZ st"

definition dev_fill_block :: "buf \<Rightarrow> nat \<Rightarrow> io_state \<Rightarrow> int \<times> io_state" where
  "dev_fill_block b blk_addr st = dev_fill b (blk_addr * BLKSZ) BLKSZ st"

definition dev_read_block :: "buf \<Rightarrow> nat \<Rightarrow> io_state \<Rightarrow> (int \<times> buf \<times> io_state) option" where
  "dev_read_block b blk_addr st = dev_read b (blk_addr * BLKSZ) BLKSZ st"

subsection \<open>The cache invariant\<close>

text \<open>Every valid entry is the one the search finds for its block, and holds the bytes the
  file has there.\<close>

definition dcache_wf :: "dcache \<Rightarrow> bool" where
  "dcache_wf c \<longleftrightarrow>
     0 < num_cache_entry (dcache_config c) \<and>
     dcache_entries c = nat (num_cache_entry (dcache_config c)) \<and>
     max_hash_collision (dcache_config c) \<le> length (dcache_relocate_offset c)"

definition dcache_coherent :: "host \<Rightarrow> int \<Rightarrow> dcache \<Rightarrow> bool" where
  "dcache_coherent h fd c \<longleftrightarrow> dcache_wf c \<and>
     (\<forall>e < dcache_entries c. dcache_valid c e \<longrightarrow>
        dcache_find c (dcache_blk c e) = Some e \<and>
        (\<forall>i < BLKSZ. dcache_buf c e i = fdata h fd (dcache_blk c e * BLKSZ + i)))"

lemma dcache_relocate_lt:
  "dcache_relocate c entry k = Some t \<Longrightarrow> dcache_wf c \<Longrightarrow> t < dcache_entries c"
  by (auto simp: dcache_relocate_def dcache_wf_def split: if_splits
      intro!: nat_mono_iff[THEN iffD2])

lemma dcache_find_loop_total:
  "\<lbrakk>dcache_wf c; target < dcache_entries c; lu < dcache_entries c;
    k + t = max_hash_collision (dcache_config c)\<rbrakk>
   \<Longrightarrow> \<exists>e < dcache_entries c. dcache_find_loop c blk entry k t target lu = Some e"
proof (induction k arbitrary: t target lu)
  case (Suc k)
  have r: "\<exists>r. dcache_relocate c entry t = Some r"
    using Suc.prems by (auto simp: dcache_relocate_def dcache_wf_def)
  then obtain r where r: "dcache_relocate c entry t = Some r" by blast
  with Suc.prems have "r < dcache_entries c" by (auto dest: dcache_relocate_lt)
  with Suc r show ?case by (auto simp: Let_def)
qed auto

lemma dcache_find_total:
  "dcache_wf c \<Longrightarrow> \<exists>e < dcache_entries c. dcache_find c blk = Some e"
proof -
  assume wf: "dcache_wf c"
  then have n: "0 < num_cache_entry (dcache_config c)"
    "dcache_entries c = nat (num_cache_entry (dcache_config c))"
    by (auto simp: dcache_wf_def)
  then have "blk mod nat (num_cache_entry (dcache_config c)) < dcache_entries c" by simp
  with dcache_find_loop_total [OF wf this this, of _ 0] n show ?thesis
    by (simp add: dcache_find_def Let_def)
qed

lemma dcache_find_loop_stable:
  assumes "dcache_find_loop c b entry k t target lu = Some e"
    and "dcache_entries c' = dcache_entries c" "dcache_config c' = dcache_config c"
    and "dcache_relocate_offset c' = dcache_relocate_offset c"
    and "dcache_valid c' e" "dcache_blk c' e = b"
    and "\<And>x. \<lbrakk>x \<noteq> e; dcache_valid c x; dcache_blk c x \<noteq> b\<rbrakk> \<Longrightarrow> dcache_valid c' x \<and> dcache_blk c' x \<noteq> b"
  shows "e = lu \<or> dcache_find_loop c' b entry k t target lu' = Some e"
  using assms(1)
proof (induction k arbitrary: t target lu lu')
  case (Suc k)
  have reloc: "dcache_relocate c' = dcache_relocate c"
    using assms(3,4) by (intro ext) (simp add: dcache_relocate_def)
  show ?case
  proof (cases "target = e")
    case True
    with Suc.prems assms(2,5,6) show ?thesis by (auto split: if_splits)
  next
    case False
    with Suc.prems have t: "target < dcache_entries c" "dcache_valid c target" "dcache_blk c target \<noteq> b"
      by (auto split: if_splits)
    with False assms(7) have t': "dcache_valid c' target" "dcache_blk c' target \<noteq> b" by auto
    from Suc.prems t obtain r where r: "dcache_relocate c entry t = Some r"
      "dcache_find_loop c b entry k (Suc t) r
         (if dcache_lastused c target < dcache_lastused c lu then target else lu) = Some e"
      by (auto simp: Let_def split: bind_splits)
    define lu2 where "lu2 = (if dcache_lastused c' target < dcache_lastused c' lu' then target else lu')"
    from Suc.IH [OF r(2), of lu2] False t t' r(1) assms(2) reloc show ?thesis
      by (auto simp: Let_def lu2_def [symmetric] split: if_splits)
  qed
qed auto

lemma dcache_find_stable:
  assumes "dcache_find c b = Some e" "dcache_wf c"
    and "dcache_entries c' = dcache_entries c" "dcache_config c' = dcache_config c"
    and "dcache_relocate_offset c' = dcache_relocate_offset c"
    and "dcache_valid c' e" "dcache_blk c' e = b"
    and "\<And>x. \<lbrakk>x \<noteq> e; dcache_valid c x; dcache_blk c x \<noteq> b\<rbrakk> \<Longrightarrow> dcache_valid c' x \<and> dcache_blk c' x \<noteq> b"
  shows "dcache_find c' b = Some e"
proof -
  let ?n = "nat (num_cache_entry (dcache_config c))" and ?m = "max_hash_collision (dcache_config c)"
  let ?en = "b mod ?n"
  have n: "0 < num_cache_entry (dcache_config c)" "dcache_entries c = ?n"
    using assms(2) by (auto simp: dcache_wf_def)
  from assms(1) n have l: "dcache_find_loop c b ?en ?m 0 ?en ?en = Some e"
    by (simp add: dcache_find_def Let_def)
  have "dcache_find_loop c' b ?en ?m 0 ?en ?en = Some e"
  proof (cases "e = ?en")
    case True
    moreover have "?en < ?n" using n by simp
    ultimately show ?thesis using n assms(3,6,7) by (cases ?m) (auto simp: not_le)
  next
    case False
    with dcache_find_loop_stable [OF l assms(3-8), where lu' = ?en] show ?thesis by blast
  qed
  with n assms(4) show ?thesis by (simp add: dcache_find_def Let_def)
qed

lemma dcache_wf_cong:
  "\<lbrakk>dcache_config c' = dcache_config c; dcache_entries c' = dcache_entries c;
    dcache_relocate_offset c' = dcache_relocate_offset c\<rbrakk> \<Longrightarrow> dcache_wf c' = dcache_wf c"
  by (simp add: dcache_wf_def)

lemma dcache_find_loop_cong:
  "\<lbrakk>dcache_config c' = dcache_config c; dcache_entries c' = dcache_entries c;
    dcache_relocate_offset c' = dcache_relocate_offset c; dcache_valid c' = dcache_valid c;
    dcache_blk c' = dcache_blk c; dcache_lastused c' = dcache_lastused c\<rbrakk>
   \<Longrightarrow> dcache_find_loop c' b en k t tg lu = dcache_find_loop c b en k t tg lu"
  by (induction k arbitrary: t tg lu) (auto simp: Let_def dcache_relocate_def)

lemma dcache_find_cong:
  "\<lbrakk>dcache_config c' = dcache_config c; dcache_entries c' = dcache_entries c;
    dcache_relocate_offset c' = dcache_relocate_offset c; dcache_valid c' = dcache_valid c;
    dcache_blk c' = dcache_blk c; dcache_lastused c' = dcache_lastused c\<rbrakk>
   \<Longrightarrow> dcache_find c' b = dcache_find c b"
  using dcache_find_loop_cong [of c' c] by (simp add: dcache_find_def Let_def)

lemma dcache_find_stats [simp]:
  "dcache_find (c\<lparr>dcache_raccess := a\<rparr>) x = dcache_find c x"
  "dcache_find (c\<lparr>dcache_rhit := a\<rparr>) x = dcache_find c x"
  "dcache_find (c\<lparr>dcache_rmiss := a, dcache_rreplace := b\<rparr>) x = dcache_find c x"
  "dcache_find (c\<lparr>dcache_buf := d\<rparr>) x = dcache_find c x"
  by (rule dcache_find_cong; simp)+

lemma dcache_coherent_stats [simp]:
  "dcache_coherent h fd (c\<lparr>dcache_raccess := a\<rparr>) = dcache_coherent h fd c"
  "dcache_coherent h fd (c\<lparr>dcache_rhit := a\<rparr>) = dcache_coherent h fd c"
  "dcache_coherent h fd (c\<lparr>dcache_rmiss := a, dcache_rreplace := b\<rparr>) = dcache_coherent h fd c"
  by (simp_all add: dcache_coherent_def dcache_wf_def)

lemma dcache_coherent_hit:
  "\<lbrakk>dcache_coherent h fd c; dcache_find c blk = Some e; e < dcache_entries c;
    dcache_valid c e; dcache_blk c e = blk; i < BLKSZ\<rbrakk>
   \<Longrightarrow> dcache_buf c e i = fdata h fd (blk * BLKSZ + i)"
  by (auto simp: dcache_coherent_def)

lemma dcache_io_read_coherent:
  assumes "dcache_coherent h fd c" "dcache_find c blk = Some e" "e < dcache_entries c"
    and "\<not> (dcache_valid c e \<and> dcache_blk c e = blk)" "\<not> rd_fail h fd (blk * BLKSZ)"
    and "dcache_io_read h fd e (blk * BLKSZ) blk c = (err, c')"
  shows "err = 0" "dcache_coherent h fd c'" "dcache_entries c' = dcache_entries c"
    and "i < BLKSZ \<Longrightarrow> dcache_buf c' e i = fdata h fd (blk * BLKSZ + i)"
proof -
  have c': "err = 0" "c' = c\<lparr>dcache_buf := (dcache_buf c)
      (e := put_bytes 0 BLKSZ (at_off (blk * BLKSZ) (fdata h fd)) (dcache_buf c e)),
      dcache_usetick := dcache_usetick c + 1,
      dcache_lastused := (dcache_lastused c)(e := dcache_usetick c + 1),
      dcache_valid := (dcache_valid c)(e := True), dcache_blk := (dcache_blk c)(e := blk)\<rparr>"
    using assms(5,6) by (auto simp: dcache_io_read_def)
  have wf: "dcache_wf c" using assms(1) by (simp add: dcache_coherent_def)
  have wf': "dcache_wf c'" using wf by (simp add: c' dcache_wf_def)
  show "err = 0" "dcache_entries c' = dcache_entries c" by (simp_all add: c')
  show buf: "dcache_buf c' e i = fdata h fd (blk * BLKSZ + i)" if "i < BLKSZ" for i
    using that by (simp add: c' put_bytes_in at_off_apply)
  have find_e: "dcache_find c' blk = Some e"
    using assms(2) wf by (rule dcache_find_stable) (auto simp: c')
  have find_x: "dcache_find c' (dcache_blk c x) = Some x"
    if x: "x < dcache_entries c" "dcache_valid c x" "x \<noteq> e" for x
  proof -
    have f: "dcache_find c (dcache_blk c x) = Some x"
      using assms(1) x by (simp add: dcache_coherent_def)
    then have "dcache_blk c x \<noteq> blk" using assms(2) x(3) by auto
    with f wf show ?thesis
      by (intro dcache_find_stable [OF f wf]) (use x in \<open>auto simp: c'\<close>)
  qed
  have "dcache_find c' (dcache_blk c' x) = Some x \<and>
      (\<forall>i<BLKSZ. dcache_buf c' x i = fdata h fd (dcache_blk c' x * BLKSZ + i))"
    if "x < dcache_entries c" "dcache_valid c' x" for x
  proof (cases "x = e")
    case True
    with find_e buf show ?thesis by (simp add: c'(2))
  next
    case False
    with that find_x [of x] assms(1) show ?thesis by (auto simp: c'(2) dcache_coherent_def)
  qed
  with wf' show "dcache_coherent h fd c'" by (auto simp: dcache_coherent_def c'(2))
qed

declare dcache_rw_loop.simps [simp del]

definition dcache_shape :: "dcache \<Rightarrow> dev_cache_config \<times> int list \<times> bool" where
  "dcache_shape c = (dcache_config c, dcache_relocate_offset c, dcache_initialized c)"

lemma put_bytes_put_bytes:
  "n \<le> m \<Longrightarrow> put_bytes (off + n) (m - n) (at_off n src) (put_bytes off n src b) = put_bytes off m src b"
  by (rule ext) (auto simp: put_bytes_def at_off_apply)

lemma put_bytes_cong:
  "(\<And>i. i < n \<Longrightarrow> s i = t i) \<Longrightarrow> put_bytes off n s b = put_bytes off n t b"
  by (rule ext) (auto simp: put_bytes_def)

lemma put_bytes_0 [simp]: "put_bytes off 0 s b = b"
  by (rule ext) (auto simp: put_bytes_def)

lemma dcache_rw_loop_hit:
  assumes "n \<noteq> 0" "dcache_find c blk = Some e" "e < dcache_entries c"
    and "dcache_valid c e" "dcache_blk c e = blk"
  shows "dcache_rw_loop h fd False blk a start n pos b c =
           dcache_rw_loop h fd False (blk + 1) 0 (start + BLKSZ) (n - min n (BLKSZ - a))
             (pos + min n (BLKSZ - a))
             (put_bytes pos (min n (BLKSZ - a)) (at_off a (dcache_buf c e)) b)
             (c\<lparr>dcache_raccess := dcache_raccess c + 1, dcache_rhit := dcache_rhit c + 1\<rparr>)"
    and "dcache_rw_loop h fd True blk a start n pos b c =
           dcache_rw_loop h fd True (blk + 1) 0 (start + BLKSZ) (n - min n (BLKSZ - a))
             (pos + min n (BLKSZ - a)) b
             (c\<lparr>dcache_buf := (dcache_buf c)(e :=
                put_bytes a (min n (BLKSZ - a)) (at_off pos b) (dcache_buf c e))\<rparr>)"
  by (subst dcache_rw_loop.simps; use assms in \<open>simp add: Let_def\<close>)+

lemma dcache_rw_loop_miss:
  assumes "n \<noteq> 0" "dcache_find c blk = Some e" "e < dcache_entries c"
    and "\<not> (dcache_valid c e \<and> dcache_blk c e = blk)"
    and "dcache_io_read h fd e start blk
      (c\<lparr>dcache_raccess := dcache_raccess c + 1, dcache_rmiss := dcache_rmiss c + 1,
         dcache_rreplace := dcache_rreplace c + (if dcache_valid c e then 1 else 0)\<rparr>) = (0, c1)"
  shows "dcache_rw_loop h fd False blk a start n pos b c =
           dcache_rw_loop h fd False (blk + 1) 0 (start + BLKSZ) (n - min n (BLKSZ - a))
             (pos + min n (BLKSZ - a))
             (put_bytes pos (min n (BLKSZ - a)) (at_off a (dcache_buf c1 e)) b) c1"
proof (cases "dcache_valid c e")
  case True
  with assms show ?thesis by (subst dcache_rw_loop.simps) (simp add: Let_def)
next
  case False
  with assms show ?thesis by (subst dcache_rw_loop.simps) (simp add: Let_def)
qed

lemma dcache_rw_loop_write_miss:
  assumes "n \<noteq> 0" "dcache_find c blk = Some e" "e < dcache_entries c"
    and "\<not> (dcache_valid c e \<and> dcache_blk c e = blk)"
  shows "dcache_rw_loop h fd True blk a start n pos b c =
           dcache_rw_loop h fd True (blk + 1) 0 (start + BLKSZ) (n - min n (BLKSZ - a))
             (pos + min n (BLKSZ - a)) b c"
  using assms by (subst dcache_rw_loop.simps) (auto simp: Let_def)

lemma dcache_read_loop:
  assumes "dcache_coherent h fd c" "\<And>o'. \<not> rd_fail h fd o'" "a < BLKSZ"
  shows "\<exists>c'. dcache_rw_loop h fd False blk a (blk * BLKSZ) n pos b c =
           Some (0, put_bytes pos n (at_off (blk * BLKSZ + a) (fdata h fd)) b, c') \<and>
         dcache_coherent h fd c' \<and> dcache_shape c' = dcache_shape c"
  using assms(1,3)
proof (induction n arbitrary: blk a pos b c rule: less_induct)
  case (less n)
  let ?s = "min n (BLKSZ - a)"
  let ?src = "at_off (blk * BLKSZ + a) (fdata h fd)"
  show ?case
  proof (cases "n = 0")
    case True
    with less.prems show ?thesis
      by (subst dcache_rw_loop.simps) auto
  next
    case False
    obtain e where e: "dcache_find c blk = Some e" "e < dcache_entries c"
      using dcache_find_total [of c blk] less.prems(1) by (auto simp: dcache_coherent_def)
    obtain c1 where c1: "dcache_coherent h fd c1" "dcache_shape c1 = dcache_shape c"
      "\<And>i. i < BLKSZ \<Longrightarrow> dcache_buf c1 e i = fdata h fd (blk * BLKSZ + i)"
      "dcache_rw_loop h fd False blk a (blk * BLKSZ) n pos b c =
         dcache_rw_loop h fd False (blk + 1) 0 ((blk + 1) * BLKSZ) (n - ?s) (pos + ?s)
           (put_bytes pos ?s (at_off a (dcache_buf c1 e)) b) c1"
    proof (cases "dcache_valid c e \<and> dcache_blk c e = blk")
      case True
      show ?thesis
        using True less.prems dcache_coherent_hit [OF less.prems(1) e]
          dcache_rw_loop_hit(1) [OF False e, of h fd a "blk * BLKSZ" pos b]
        by (intro that [of "c\<lparr>dcache_raccess := dcache_raccess c + 1, dcache_rhit := dcache_rhit c + 1\<rparr>"])
           (simp_all add: add.commute dcache_shape_def)
    next
      case miss: False
      let ?c = "c\<lparr>dcache_raccess := dcache_raccess c + 1, dcache_rmiss := dcache_rmiss c + 1,
        dcache_rreplace := dcache_rreplace c + (if dcache_valid c e then 1 else 0)\<rparr>"
      obtain err c1 where r: "dcache_io_read h fd e (blk * BLKSZ) blk ?c = (err, c1)" by force
      note io = dcache_io_read_coherent [of h fd ?c blk e, OF _ _ _ _ assms(2) r]
      have "err = 0" "dcache_coherent h fd c1"
        "\<And>i. i < BLKSZ \<Longrightarrow> dcache_buf c1 e i = fdata h fd (blk * BLKSZ + i)"
        using io less.prems(1) e miss by auto
      moreover have "dcache_shape c1 = dcache_shape c"
        using r by (auto simp: dcache_io_read_def dcache_shape_def split: if_splits)
      ultimately show ?thesis
        using dcache_rw_loop_miss [OF False e miss, of h fd "blk * BLKSZ" c1 a pos b] r
        by (intro that [of c1]) (simp_all add: add.commute)
    qed
    let ?b1 = "put_bytes pos ?s (at_off a (dcache_buf c1 e)) b"
    have lt: "n - ?s < n" using False less.prems(2) by auto
    have z: "(0::nat) < BLKSZ" by (simp add: BLKSZ_def)
    obtain c' where c': "dcache_rw_loop h fd False (blk + 1) 0 ((blk + 1) * BLKSZ) (n - ?s) (pos + ?s) ?b1 c1 =
       Some (0, put_bytes (pos + ?s) (n - ?s) (at_off ((blk + 1) * BLKSZ + 0) (fdata h fd)) ?b1, c')"
       "dcache_coherent h fd c'" "dcache_shape c' = dcache_shape c1"
      using less.IH [OF lt c1(1) z, of "blk + 1" "pos + ?s" ?b1] by (elim exE conjE)
    have "put_bytes pos ?s (at_off a (dcache_buf c1 e)) b = put_bytes pos ?s ?src b"
      using c1(3) less.prems(2) by (intro put_bytes_cong) (auto simp: at_off_apply add.assoc)
    moreover have "put_bytes (pos + ?s) (n - ?s) (at_off ((blk + 1) * BLKSZ + 0) (fdata h fd)) d =
       put_bytes (pos + ?s) (n - ?s) (at_off ?s ?src) d" for d
      using less.prems(2) by (cases "n \<le> BLKSZ - a") (simp_all add: add.commute)
    ultimately have "put_bytes (pos + ?s) (n - ?s) (at_off ((blk + 1) * BLKSZ + 0) (fdata h fd)) ?b1 =
        put_bytes pos n ?src b"
      using put_bytes_put_bytes [of ?s n pos ?src b] by (simp only: min.cobounded1)
    then show ?thesis using c' c1(2,4) by metis
  qed
qed

lemma host_write_0 [simp]: "host_write fd off 0 b h = h"
  by (simp add: host_write_def)

lemma host_write_host_write:
  "n \<le> m \<Longrightarrow> host_write fd (off + n) (m - n) (at_off n src) (host_write fd off n src h) = host_write fd off m src h"
  by (simp add: host_write_def put_bytes_put_bytes)

lemma block_ranges_disjoint:
  assumes "x \<noteq> (y::nat)" "i < B" "a + s \<le> B" "j < s"
  shows "x * B + i \<noteq> y * B + a + j"
proof
  assume eq: "x * B + i = y * B + a + j"
  have "(x * B + i) div B = x" "(y * B + (a + j)) div B = y" using assms(2-4) by auto
  with eq assms(1) show False by (simp add: add.assoc)
qed

lemma host_write_other_block:
  assumes "x \<noteq> y" "i < BLKSZ" "a + s \<le> BLKSZ"
  shows "fdata (host_write fd (y * BLKSZ + a) s src h) fd (x * BLKSZ + i) = fdata h fd (x * BLKSZ + i)"
proof -
  have "\<not> (y * BLKSZ + a \<le> x * BLKSZ + i \<and> x * BLKSZ + i < y * BLKSZ + a + s)"
  proof
    assume r: "y * BLKSZ + a \<le> x * BLKSZ + i \<and> x * BLKSZ + i < y * BLKSZ + a + s"
    define j where "j = x * BLKSZ + i - (y * BLKSZ + a)"
    have "j < s" "x * BLKSZ + i = y * BLKSZ + a + j" using r by (auto simp: j_def)
    with block_ranges_disjoint [OF assms] show False by blast
  qed
  then show ?thesis by (auto simp: host_write_def put_bytes_def)
qed

lemma dcache_write_hit_coherent:
  assumes "dcache_coherent h fd c" "dcache_find c blk = Some e" "dcache_blk c e = blk" "a + s \<le> BLKSZ"
  shows "dcache_coherent (host_write fd (blk * BLKSZ + a) s src h) fd
           (c\<lparr>dcache_buf := (dcache_buf c)(e := put_bytes a s src (dcache_buf c e))\<rparr>)"
proof -
  have "dcache_find c (dcache_blk c x) = Some x \<and>
      (\<forall>i<BLKSZ. ((dcache_buf c)(e := put_bytes a s src (dcache_buf c e))) x i =
         fdata (host_write fd (blk * BLKSZ + a) s src h) fd (dcache_blk c x * BLKSZ + i))"
    if x: "x < dcache_entries c" "dcache_valid c x" for x
  proof -
    have f: "dcache_find c (dcache_blk c x) = Some x"
      "\<And>i. i < BLKSZ \<Longrightarrow> dcache_buf c x i = fdata h fd (dcache_blk c x * BLKSZ + i)"
      using assms(1) x by (auto simp: dcache_coherent_def)
    show ?thesis
    proof (cases "x = e")
      case True
      with f assms(3) show ?thesis by (auto simp: host_write_def put_bytes_def)
    next
      case False
      with f(1) assms(2) have "dcache_blk c x \<noteq> blk" by auto
      with f False assms(4) show ?thesis by (simp add: host_write_other_block)
    qed
  qed
  with assms(1) show ?thesis by (auto simp: dcache_coherent_def dcache_wf_def)
qed

lemma dcache_write_miss_coherent:
  assumes "dcache_coherent h fd c" "dcache_find c blk = Some e" "e < dcache_entries c"
    and "\<not> (dcache_valid c e \<and> dcache_blk c e = blk)" "a + s \<le> BLKSZ"
  shows "dcache_coherent (host_write fd (blk * BLKSZ + a) s src h) fd c"
proof -
  have "dcache_blk c x \<noteq> blk" if "x < dcache_entries c" "dcache_valid c x" for x
    using assms(1,2,4) that by (auto simp: dcache_coherent_def)
  with assms(1,5) show ?thesis by (simp add: dcache_coherent_def host_write_other_block)
qed

lemma dcache_write_loop:
  assumes "dcache_coherent h fd c" "a < BLKSZ"
  shows "\<exists>c'. dcache_rw_loop h0 fd True blk a start n pos b c = Some (0, b, c') \<and>
         dcache_coherent (host_write fd (blk * BLKSZ + a) n (at_off pos b) h) fd c' \<and>
         dcache_shape c' = dcache_shape c"
  using assms
proof (induction n arbitrary: blk a start pos h c rule: less_induct)
  case (less n)
  let ?s = "min n (BLKSZ - a)"
  let ?h = "host_write fd (blk * BLKSZ + a) ?s (at_off pos b) h"
  show ?case
  proof (cases "n = 0")
    case True
    with less.prems show ?thesis by (subst dcache_rw_loop.simps) auto
  next
    case False
    obtain e where e: "dcache_find c blk = Some e" "e < dcache_entries c"
      using dcache_find_total [of c blk] less.prems(1) by (auto simp: dcache_coherent_def)
    have s: "a + ?s \<le> BLKSZ" using less.prems(2) by auto
    obtain c1 where c1: "dcache_coherent ?h fd c1" "dcache_shape c1 = dcache_shape c"
      "dcache_rw_loop h0 fd True blk a start n pos b c =
         dcache_rw_loop h0 fd True (blk + 1) 0 (start + BLKSZ) (n - ?s) (pos + ?s) b c1"
    proof (cases "dcache_valid c e \<and> dcache_blk c e = blk")
      case True
      then have v: "dcache_valid c e" "dcache_blk c e = blk" by auto
      show ?thesis
        using dcache_write_hit_coherent [OF less.prems(1) e(1) v(2) s]
          dcache_rw_loop_hit(2) [OF False e v, of h0 fd a start pos b]
        by (intro that) (simp_all add: dcache_shape_def)
    next
      case miss: False
      show ?thesis
        using dcache_write_miss_coherent [OF less.prems(1) e miss s]
          dcache_rw_loop_write_miss [OF False e miss, of h0 fd a start pos b]
        by (intro that) (simp_all add: dcache_shape_def)
    qed
    have lt: "n - ?s < n" using False less.prems(2) by auto
    have z: "(0::nat) < BLKSZ" by (simp add: BLKSZ_def)
    obtain c' where c': "dcache_rw_loop h0 fd True (blk + 1) 0 (start + BLKSZ) (n - ?s) (pos + ?s) b c1 = Some (0, b, c')"
       "dcache_coherent (host_write fd ((blk + 1) * BLKSZ + 0) (n - ?s) (at_off (pos + ?s) b) ?h) fd c'"
       "dcache_shape c' = dcache_shape c1"
      using less.IH [OF lt c1(1) z, of "blk + 1" "start + BLKSZ" "pos + ?s"] by (elim exE conjE)
    have "host_write fd ((blk + 1) * BLKSZ + 0) (n - ?s) (at_off (pos + ?s) b) ?h =
      host_write fd (blk * BLKSZ + a + ?s) (n - ?s) (at_off ?s (at_off pos b)) ?h"
      using less.prems(2) by (cases "n \<le> BLKSZ - a") (simp_all add: add.commute)
    also have "\<dots> = host_write fd (blk * BLKSZ + a) n (at_off pos b) h"
      by (rule host_write_host_write) simp
    finally show ?thesis using c' c1(2,3) by metis
  qed
qed

subsection \<open>Initialisation\<close>

lemma dcache_relocate_loop_inv:
  "num_cache_entry (dcache_config (dcache_relocate_loop i rs c)) = num_cache_entry (dcache_config c)"
  "dcache_entries (dcache_relocate_loop i rs c) = dcache_entries c"
  "dcache_valid (dcache_relocate_loop i rs c) = dcache_valid c"
  "length (dcache_relocate_offset (dcache_relocate_loop i rs c)) = length (dcache_relocate_offset c)"
  "max_hash_collision (dcache_config (dcache_relocate_loop i rs c)) \<le> max_hash_collision (dcache_config c)"
  by (induction i rs c rule: dcache_relocate_loop.induct) auto

declare dcache_alloc_loop.simps [simp del]

lemma dcache_alloc_loop_ok:
  assumes "alloc_ok h MIN_NUM_CACHE_ENTRY" "\<not> dcache_initialized c"
  shows "\<exists>n > 0. dcache_alloc_loop h m c =
     c\<lparr>dcache_entries := nat n, dcache_valid := fresh_valid h, dcache_blk := fresh_blk h,
       dcache_lastused := fresh_lastused h, dcache_buf := fresh_buf h,
       dcache_config := (dcache_config c)\<lparr>num_cache_entry := n\<rparr>\<rparr>"
  using assms
proof (induction h m c rule: dcache_alloc_loop.induct)
  case (1 h n c)
  show ?case
  proof (cases "fst (dcache_alloc_all h n c)")
    case True
    then show ?thesis
      by (subst dcache_alloc_loop.simps)
         (auto simp: dcache_alloc_all_def split: if_splits intro!: exI [of _ n])
  next
    case False
    then have eq: "dcache_alloc_all h n c = (False, c)" and "n \<noteq> MIN_NUM_CACHE_ENTRY"
      using "1.prems" by (auto simp: dcache_alloc_all_def dcache_release_def MIN_NUM_CACHE_ENTRY_def split: if_splits)
    with "1.IH" [of "(False, c)" False c] "1.prems" show ?thesis
      by (subst dcache_alloc_loop.simps) simp
  qed
qed

lemma dcache_init_coherent:
  assumes "0 < num_cache_entry cfg" "max_hash_collision cfg \<le> length (dcache_relocate_offset c)"
    and "alloc_ok h MIN_NUM_CACHE_ENTRY" "fresh_valid h = (\<lambda>_. False)"
  shows "dcache_initialized (dcache_init h cfg c)" "dcache_coherent h fd (dcache_init h cfg c)"
    and "length (dcache_relocate_offset (dcache_init h cfg c)) = length (dcache_relocate_offset c)"
proof -
  let ?c1 = "(dcache_release c)\<lparr>dcache_entries := 0, dcache_config := cfg\<rparr>"
  have u: "\<not> dcache_initialized ?c1" by (simp add: dcache_release_def)
  obtain n where n: "n > 0" "dcache_alloc_loop h (max MIN_NUM_CACHE_ENTRY (num_cache_entry cfg)) ?c1 =
     ?c1\<lparr>dcache_entries := nat n, dcache_valid := fresh_valid h, dcache_blk := fresh_blk h,
       dcache_lastused := fresh_lastused h, dcache_buf := fresh_buf h,
       dcache_config := (dcache_config ?c1)\<lparr>num_cache_entry := n\<rparr>\<rparr>"
    using dcache_alloc_loop_ok [OF assms(3) u] by blast
  have off: "dcache_relocate_offset (dcache_release c) = dcache_relocate_offset c"
    by (simp add: dcache_release_def)
  show "dcache_initialized (dcache_init h cfg c)"
    using assms(1) by (simp add: dcache_init_def Let_def)
  show "length (dcache_relocate_offset (dcache_init h cfg c)) = length (dcache_relocate_offset c)"
    using assms(1) n by (simp add: dcache_init_def Let_def dcache_relocate_init_def
        dcache_relocate_loop_inv off)
  show "dcache_coherent h fd (dcache_init h cfg c)"
    using assms n by (auto simp: dcache_init_def Let_def dcache_relocate_init_def dcache_coherent_def
        dcache_wf_def dcache_relocate_loop_inv off intro: order_trans [OF dcache_relocate_loop_inv(5)])
qed

subsection \<open>The device as a byte store\<close>

text \<open>The states in which the cache is sound: one device, starting at block 0; \<open>malloc\<close>
  gives the smallest cache, zeroed; at most as many collisions as there are relocation offsets.\<close>

definition io_inv :: "io_state \<Rightarrow> bool" where
  "io_inv st \<longleftrightarrow>
     (\<exists>d. devices st = [d] \<and> 0 \<le> dev_fd d \<and> start_blkaddr d = 0 \<and>
        (dcache_initialized (cache st) \<longrightarrow> dcache_coherent (hst st) (dev_fd d) (cache st))) \<and>
     max_hash_collision (cache_config st) \<le> length (dcache_relocate_offset (cache st)) \<and>
     alloc_ok (hst st) MIN_NUM_CACHE_ENTRY \<and> fresh_valid (hst st) = (\<lambda>_. False)"

definition io_fd :: "io_state \<Rightarrow> int" where
  "io_fd st = dev_fd (hd (devices st))"

definition io_last :: "io_state \<Rightarrow> nat" where
  "io_last st = end_blkaddr (hd (devices st))"

lemma note_size_sel [simp]:
  "devices (note_size o' l st) = devices st" "cache_config (note_size o' l st) = cache_config st"
  "dry_run (note_size o' l st) = dry_run st" "cache (note_size o' l st) = cache st"
  "hst (note_size o' l st) = hst st"
  by (simp_all add: note_size_def)

lemma dcache_update_rw_inv:
  assumes inv: "io_inv st" and dev: "devices st = [d]"
    and rd: "\<And>o'. \<not> rd_fail (hst st) (dev_fd d) o'"
  shows "\<exists>err c'. dcache_update_rw (hst st) (cache_config st) (dev_fd d) b off n False (cache st) =
           Some (err, if err = 0 then put_bytes 0 n (at_off off (fdata (hst st) (dev_fd d))) b else b, c') \<and>
         err \<in> {0, 1} \<and> io_inv (st\<lparr>cache := c'\<rparr>)"
    and "\<exists>err c'. dcache_update_rw (hst st) (cache_config st) (dev_fd d) b off n True (cache st) =
           Some (err, b, c') \<and> err \<in> {0, 1} \<and>
         io_inv (st\<lparr>cache := c', hst := host_write (dev_fd d) off n b (hst st)\<rparr>)"
proof -
  let ?c = "if \<not> dcache_initialized (cache st) then dcache_init (hst st) (cache_config st) (cache st) else cache st"
  let ?fd = "dev_fd d" and ?h = "hst st"
  have d: "0 \<le> ?fd" "start_blkaddr d = 0"
    "dcache_initialized (cache st) \<Longrightarrow> dcache_coherent ?h ?fd (cache st)"
    "max_hash_collision (cache_config st) \<le> length (dcache_relocate_offset (cache st))"
    "alloc_ok ?h MIN_NUM_CACHE_ENTRY" "fresh_valid ?h = (\<lambda>_. False)"
    using inv dev by (auto simp: io_inv_def)
  have off: "length (dcache_relocate_offset ?c) = length (dcache_relocate_offset (cache st))"
    using dcache_init_coherent(3) [OF _ d(4-6)]
    by (cases "0 < num_cache_entry (cache_config st)") (auto simp: dcache_init_def [of _ _ "cache st"])
  have coh: "dcache_coherent ?h ?fd ?c" if "dcache_initialized ?c"
    using that d(3) dcache_init_coherent(2) [OF _ d(4-6)]
    by (cases "0 < num_cache_entry (cache_config st)") (auto simp: dcache_init_def [of _ _ "cache st"])
  have split: "off div BLKSZ * BLKSZ + off mod BLKSZ = off" by simp
  have lt: "off mod BLKSZ < BLKSZ" by (simp add: BLKSZ_def)
  have keep: "io_inv (st\<lparr>cache := c', hst := host_write ?fd off k b ?h\<rparr>)"
    if "dcache_initialized c' \<Longrightarrow> dcache_coherent (host_write ?fd off k b ?h) ?fd c'"
      "length (dcache_relocate_offset c') = length (dcache_relocate_offset (cache st))" for c' k
    using that d dev by (auto simp: io_inv_def host_write_def)
  show "\<exists>err c'. dcache_update_rw ?h (cache_config st) ?fd b off n False (cache st) =
           Some (err, if err = 0 then put_bytes 0 n (at_off off (fdata ?h ?fd)) b else b, c') \<and>
         err \<in> {0, 1} \<and> io_inv (st\<lparr>cache := c'\<rparr>)"
  proof (cases "dcache_initialized ?c")
    case True
    from dcache_read_loop [OF coh [OF True] rd lt, of "off div BLKSZ" n 0 b] split
    obtain c' where c': "dcache_rw_loop ?h ?fd False (off div BLKSZ) (off mod BLKSZ) (off div BLKSZ * BLKSZ) n 0 b ?c =
        Some (0, put_bytes 0 n (at_off off (fdata ?h ?fd)) b, c')"
        "dcache_coherent ?h ?fd c'" "dcache_shape c' = dcache_shape ?c" by auto
    have "io_inv (st\<lparr>cache := c'\<rparr>)"
      using keep [of c' 0] c' off by (auto simp: dcache_shape_def)
    with True c'(1) show ?thesis by (auto simp: dcache_update_rw_def Let_def)
  next
    case False
    then have "io_inv (st\<lparr>cache := ?c\<rparr>)" using keep [of ?c 0] off by auto
    with False show ?thesis by (auto simp: dcache_update_rw_def Let_def)
  qed
  show "\<exists>err c'. dcache_update_rw ?h (cache_config st) ?fd b off n True (cache st) =
           Some (err, b, c') \<and> err \<in> {0, 1} \<and>
         io_inv (st\<lparr>cache := c', hst := host_write ?fd off n b ?h\<rparr>)"
  proof (cases "dcache_initialized ?c")
    case True
    from dcache_write_loop [OF coh [OF True] lt, of ?h "off div BLKSZ" "off div BLKSZ * BLKSZ" n 0 b] split
    obtain c' where c': "dcache_rw_loop ?h ?fd True (off div BLKSZ) (off mod BLKSZ) (off div BLKSZ * BLKSZ) n 0 b ?c =
        Some (0, b, c')" "dcache_coherent (host_write ?fd off n b ?h) ?fd c'"
        "dcache_shape c' = dcache_shape ?c" by auto
    have "io_inv (st\<lparr>cache := c', hst := host_write ?fd off n b ?h\<rparr>)"
      using keep [of c' n] c' off by (auto simp: dcache_shape_def)
    with True c'(1) show ?thesis by (auto simp: dcache_update_rw_def Let_def)
  next
    case False
    then have "io_inv (st\<lparr>cache := ?c, hst := host_write ?fd off n b ?h\<rparr>)" using keep [of ?c n] off by auto
    with False show ?thesis by (auto simp: dcache_update_rw_def Let_def)
  qed
qed

lemma dev_read_inv:
  assumes "io_inv st" "off div BLKSZ \<le> io_last st" "\<And>o'. \<not> rd_fail (hst st) (io_fd st) o'"
  shows "\<exists>st'. dev_read b off n st = Some (0, put_bytes 0 n (at_off off (fdata (hst st) (io_fd st))) b, st') \<and>
     io_inv st' \<and> hst st' = hst st \<and> devices st' = devices st \<and> dry_run st' = dry_run st"
proof -
  obtain d where d: "devices st = [d]" "0 \<le> dev_fd d" "start_blkaddr d = 0"
    using assms(1) by (auto simp: io_inv_def)
  let ?st = "note_size off n st"
  have inv: "io_inv ?st" using assms(1) by (simp add: io_inv_def)
  obtain err c' where r: "dcache_update_rw (hst st) (cache_config st) (dev_fd d) b off n False (cache st) =
       Some (err, if err = 0 then put_bytes 0 n (at_off off (fdata (hst st) (dev_fd d))) b else b, c')"
     "err \<in> {0, 1}" "io_inv (?st\<lparr>cache := c'\<rparr>)"
    using dcache_update_rw_inv(1) [OF inv, of d b off n] assms(3) d by (auto simp: io_fd_def)
  have "get_device_fd (devices st) off = Some (dev_fd d, off)"
    using d assms(2) by (simp add: io_last_def Let_def)
  with r assms(3) d show ?thesis
    by (auto simp: dev_read_def dcache_read_def Let_def io_fd_def)
qed

lemma dev_write_inv:
  assumes "io_inv st" "off div BLKSZ \<le> io_last st" "\<And>o'. \<not> rd_fail (hst st) (io_fd st) o'"
    "\<And>o'. \<not> wr_fail (hst st) (io_fd st) o'" "\<not> dry_run st"
  shows "\<exists>st'. dev_write b off n st = Some (0, st') \<and> io_inv st' \<and>
     hst st' = host_write (io_fd st) off n b (hst st) \<and> devices st' = devices st \<and> dry_run st' = dry_run st"
proof -
  obtain d where d: "devices st = [d]" "0 \<le> dev_fd d" "start_blkaddr d = 0"
    using assms(1) by (auto simp: io_inv_def)
  let ?st = "note_size off n st"
  have inv: "io_inv ?st" using assms(1) by (simp add: io_inv_def)
  obtain err c' where r: "dcache_update_rw (hst st) (cache_config st) (dev_fd d) b off n True (cache st) =
       Some (err, b, c')" "err \<in> {0, 1}"
     "io_inv (?st\<lparr>cache := c', hst := host_write (dev_fd d) off n b (hst st)\<rparr>)"
    using dcache_update_rw_inv(2) [OF inv, of d b off n] assms(3) d by (auto simp: io_fd_def)
  have "get_device_fd (devices st) off = Some (dev_fd d, off)"
    using d assms(2) by (simp add: io_last_def Let_def)
  with r assms(4,5) d show ?thesis
    by (auto simp: dev_write_def dcache_update_cache_def Let_def io_fd_def)
qed

subsection \<open>Sequences of requests\<close>

text \<open>A program of reads and writes, run through \<open>dev_read\<close> and \<open>dev_write\<close>, and
  the same program on a flat byte store.\<close>

datatype io_op = Rd nat nat | Wr nat "u8 list"

fun buf_of :: "u8 list \<Rightarrow> buf" where
  "buf_of xs i = (if i < length xs then xs ! i else 0)"

fun run_io :: "io_op list \<Rightarrow> io_state \<Rightarrow> (u8 list list \<times> io_state) option" where
  "run_io [] st = Some ([], st)"
| "run_io (Rd off n # ops) st = do {
     (err, b, st) \<leftarrow> dev_read zero_buf off n st;
     if err \<noteq> 0 then None
     else do { (rs, st) \<leftarrow> run_io ops st; Some (map b [0..<n] # rs, st) } }"
| "run_io (Wr off xs # ops) st = do {
     (err, st) \<leftarrow> dev_write (buf_of xs) off (length xs) st;
     if err \<noteq> 0 then None else run_io ops st }"

fun run_flat :: "io_op list \<Rightarrow> (nat \<Rightarrow> u8) \<Rightarrow> u8 list list \<times> (nat \<Rightarrow> u8)" where
  "run_flat [] f = ([], f)"
| "run_flat (Rd off n # ops) f = (let (rs, g) = run_flat ops f in (map f [off..<off + n] # rs, g))"
| "run_flat (Wr off xs # ops) f = run_flat ops (put_bytes off (length xs) (buf_of xs) f)"

fun op_in_range :: "nat \<Rightarrow> io_op \<Rightarrow> bool" where
  "op_in_range l (Rd off n) = (off div BLKSZ \<le> l)"
| "op_in_range l (Wr off xs) = (off div BLKSZ \<le> l)"


definition demo_io :: "(nat \<Rightarrow> bool) \<Rightarrow> device_info list \<Rightarrow> io_state" where
  "demo_io fresh ds =
     \<lparr>devices = ds, cache_config = \<lparr>num_cache_entry = 1024, max_hash_collision = 16\<rparr>,
      dry_run = False, max_size = 0,
      cache = \<lparr>dcache_config = \<lparr>num_cache_entry = 0, max_hash_collision = 16\<rparr>,
        dcache_initialized = False, dcache_entries = 0, dcache_valid = (\<lambda>_. False),
        dcache_blk = (\<lambda>_. 0), dcache_lastused = (\<lambda>_. 0), dcache_buf = (\<lambda>_. zero_buf),
        dcache_usetick = 0, dcache_relocate_offset = replicate 16 0,
        dcache_raccess = 0, dcache_rhit = 0, dcache_rmiss = 0, dcache_rreplace = 0\<rparr>,
      hst = \<lparr>fdata = (\<lambda>fd _. of_int fd), rd_fail = (\<lambda>_ _. False), wr_fail = (\<lambda>_ _. False),
        alloc_ok = (\<lambda>_. True), fresh_valid = fresh, fresh_blk = (\<lambda>_. 0),
        fresh_lastused = (\<lambda>_. 0), fresh_buf = (\<lambda>_. zero_buf)\<rparr>\<rparr>"

lemma demo_io_inv:
  "io_inv (demo_io (\<lambda>_. False) [\<lparr>dev_fd = 3, start_blkaddr = 0, end_blkaddr = 99\<rparr>])"
  by (simp add: io_inv_def demo_io_def)



text \<open>Property C21. \<open>dcache_alloc_all\<close> takes the array of valid flags from \<open>malloc\<close> and never
  clears it. Where the fresh memory is not zero, the first read of a block succeeds and
  returns what the fresh buffer holds, not what the device holds.\<close>

theorem dcache_trusts_fresh_memory:
  "\<exists>st b st'. devices st = [\<lparr>dev_fd = 3, start_blkaddr = 0, end_blkaddr = 99\<rparr>] \<and>
     \<not> dcache_initialized (cache st) \<and>
     dev_read_block zero_buf 0 st = Some (0, b, st') \<and>
     b 0 = fresh_buf (hst st) 0 0 \<and> b 0 \<noteq> fdata (hst st) 3 0"
proof -
  define st where "st = demo_io (\<lambda>_. True) [\<lparr>dev_fd = 3, start_blkaddr = 0, end_blkaddr = 99\<rparr>]"
  have "(case dev_read_block zero_buf 0 st of None \<Rightarrow> False | Some (r1, b1, st1) \<Rightarrow> r1 = 0 \<and> b1 0 = 0)"
    unfolding st_def by code_simp
  then obtain b st1 where "dev_read_block zero_buf 0 st = Some (0, b, st1)" "b 0 = 0"
    by (auto split: option.splits)
  moreover have "devices st = [\<lparr>dev_fd = 3, start_blkaddr = 0, end_blkaddr = 99\<rparr>]"
    "fdata (hst st) 3 0 = 3" "fresh_buf (hst st) 0 0 = 0" "\<not> dcache_initialized (cache st)"
    by (simp_all add: st_def demo_io_def zero_buf_def)
  ultimately show ?thesis by (intro exI [of _ st] exI [of _ b] exI [of _ st1]) simp
qed

subsection \<open>The block store the upper layers see\<close>

record disk =
  blocks :: "nat \<Rightarrow> buf"
  last_blk :: nat
  disk_ro :: bool

definition blk_read :: "disk \<Rightarrow> nat \<Rightarrow> buf option" where
  "blk_read d a = (if a \<le> last_blk d then Some (blocks d a) else None)"

definition blk_write :: "nat \<Rightarrow> buf \<Rightarrow> disk \<Rightarrow> disk option" where
  "blk_write a b d =
     (if disk_ro d then Some d
      else if a \<le> last_blk d then Some (d\<lparr>blocks := (blocks d)(a := b)\<rparr>) else None)"

definition disk_rel :: "io_state \<Rightarrow> disk \<Rightarrow> bool" where
  "disk_rel st d \<longleftrightarrow> io_inv st \<and> last_blk d = io_last st \<and> disk_ro d = dry_run st \<and>
     (\<forall>o'. \<not> rd_fail (hst st) (io_fd st) o' \<and> \<not> wr_fail (hst st) (io_fd st) o') \<and>
     (\<forall>a \<le> last_blk d. \<forall>i < BLKSZ. blocks d a i = fdata (hst st) (io_fd st) (a * BLKSZ + i))"

text \<open>The contract of a store of blocks: a read sees the last write of its block and no other.\<close>

locale block_store =
  fixes rd :: "'s \<Rightarrow> nat \<Rightarrow> 'b option"
    and wr :: "nat \<Rightarrow> 'b \<Rightarrow> 's \<Rightarrow> 's option"
    and writable :: "'s \<Rightarrow> bool"
  assumes rd_wr: "\<lbrakk>writable s; wr a b s = Some s'\<rbrakk> \<Longrightarrow> rd s' = (rd s)(a := Some b)"
    and wr_writable: "wr a b s = Some s' \<Longrightarrow> writable s' = writable s"
    and wr_defined: "\<lbrakk>writable s; rd s a \<noteq> None\<rbrakk> \<Longrightarrow> \<exists>s'. wr a b s = Some s'"
    and wr_frozen: "\<lbrakk>\<not> writable s; wr a b s = Some s'\<rbrakk> \<Longrightarrow> rd s' = rd s"
begin

primrec wr_all :: "(nat \<times> 'b) list \<Rightarrow> 's \<Rightarrow> 's option" where
  "wr_all [] s = Some s"
| "wr_all (p # ps) s = Option.bind (wr (fst p) (snd p) s) (wr_all ps)"

lemma rd_wr_all:
  "\<lbrakk>writable s; wr_all ps s = Some s'\<rbrakk> \<Longrightarrow> rd s' a = (case map_of (rev ps) a of None \<Rightarrow> rd s a | Some b \<Rightarrow> Some b)"
proof (induction ps arbitrary: s)
  case (Cons p ps)
  then obtain t where t: "wr (fst p) (snd p) s = Some t" "wr_all ps t = Some s'"
    by (auto split: bind_splits)
  have "writable t" "rd t = (rd s)(fst p := Some (snd p))"
    using rd_wr [OF Cons.prems(1) t(1)] wr_writable [OF t(1)] Cons.prems(1) by simp_all
  with Cons.IH [of t] t(2) show ?case
    by (auto simp: map_add_def split: option.splits)
qed auto

lemma wr_all_defined:
  "\<lbrakk>writable s; \<forall>p \<in> set ps. rd s (fst p) \<noteq> None\<rbrakk> \<Longrightarrow> \<exists>s'. wr_all ps s = Some s'"
proof (induction ps arbitrary: s)
  case (Cons p ps)
  then obtain t where t: "wr (fst p) (snd p) s = Some t" using wr_defined [of s "fst p" "snd p"] by auto
  have "writable t" "rd t = (rd s)(fst p := Some (snd p))"
    using rd_wr [OF Cons.prems(1) t] wr_writable [OF t] Cons.prems(1) by simp_all
  with Cons.IH [of t] Cons.prems(2) t show ?case by simp
qed auto

end

interpretation blk: block_store blk_read blk_write "\<lambda>d. \<not> disk_ro d"
  by unfold_locales (auto simp: blk_read_def blk_write_def split: if_splits)


lemma demo_io_disk:
  "disk_rel (demo_io (\<lambda>_. False) [\<lparr>dev_fd = 3, start_blkaddr = 0, end_blkaddr = 99\<rparr>])
     \<lparr>blocks = (\<lambda>_ _. 3), last_blk = 99, disk_ro = False\<rparr>"
  using demo_io_inv by (simp add: disk_rel_def io_last_def io_fd_def demo_io_def)

end
