(* ===== verification/Super.thy ===== *)
theory Super
  imports Checksum Device
begin

text \<open>
  The super block: its fields (\<open>struct f2fs_super_block\<close> of \<open>include/f2fs_fs.h\<close>), and the
  code of \<open>fsck/mount.c\<close> that writes it (\<open>update_superblock\<close>), checks it
  (\<open>sanity_check_area_boundary\<close>, \<open>verify_sb_chksum\<close>, \<open>sanity_check_raw_super\<close>), reads it
  (\<open>validate_super_block\<close>) and sets up the in-memory geometry from it (\<open>init_sb_info\<close>).

  A super block is the buffer of its bytes. The checks run at the width of
  the C variables; a division by zero or a shift of an \<open>int\<close> by 32 or more, which C leaves
  undefined, and a failing \<open>ASSERT\<close> are \<open>None\<close>.
\<close>

subsection \<open>Fields\<close>

named_theorems sb_fields

definition sb_magic :: "buf \<Rightarrow> u32" where [sb_fields]: "sb_magic sb = le32_at sb 0"
definition sb_log_sectorsize :: "buf \<Rightarrow> u32" where [sb_fields]: "sb_log_sectorsize sb = le32_at sb 8"
definition sb_log_sectors_per_block :: "buf \<Rightarrow> u32" where
  [sb_fields]: "sb_log_sectors_per_block sb = le32_at sb 12"
definition sb_log_blocksize :: "buf \<Rightarrow> u32" where [sb_fields]: "sb_log_blocksize sb = le32_at sb 16"
definition sb_log_blocks_per_seg :: "buf \<Rightarrow> u32" where
  [sb_fields]: "sb_log_blocks_per_seg sb = le32_at sb 20"
definition sb_segs_per_sec :: "buf \<Rightarrow> u32" where [sb_fields]: "sb_segs_per_sec sb = le32_at sb 24"
definition sb_secs_per_zone :: "buf \<Rightarrow> u32" where [sb_fields]: "sb_secs_per_zone sb = le32_at sb 28"
definition sb_checksum_offset :: "buf \<Rightarrow> u32" where [sb_fields]: "sb_checksum_offset sb = le32_at sb 32"
definition sb_block_count :: "buf \<Rightarrow> u64" where [sb_fields]: "sb_block_count sb = le64_at sb 36"
definition sb_section_count :: "buf \<Rightarrow> u32" where [sb_fields]: "sb_section_count sb = le32_at sb 44"
definition sb_segment_count :: "buf \<Rightarrow> u32" where [sb_fields]: "sb_segment_count sb = le32_at sb 48"
definition sb_segment_count_ckpt :: "buf \<Rightarrow> u32" where
  [sb_fields]: "sb_segment_count_ckpt sb = le32_at sb 52"
definition sb_segment_count_sit :: "buf \<Rightarrow> u32" where
  [sb_fields]: "sb_segment_count_sit sb = le32_at sb 56"
definition sb_segment_count_nat :: "buf \<Rightarrow> u32" where
  [sb_fields]: "sb_segment_count_nat sb = le32_at sb 60"
definition sb_segment_count_ssa :: "buf \<Rightarrow> u32" where
  [sb_fields]: "sb_segment_count_ssa sb = le32_at sb 64"
definition sb_segment_count_main :: "buf \<Rightarrow> u32" where
  [sb_fields]: "sb_segment_count_main sb = le32_at sb 68"
definition sb_segment0_blkaddr :: "buf \<Rightarrow> u32" where [sb_fields]: "sb_segment0_blkaddr sb = le32_at sb 72"
definition sb_cp_blkaddr :: "buf \<Rightarrow> u32" where [sb_fields]: "sb_cp_blkaddr sb = le32_at sb 76"
definition sb_sit_blkaddr :: "buf \<Rightarrow> u32" where [sb_fields]: "sb_sit_blkaddr sb = le32_at sb 80"
definition sb_nat_blkaddr :: "buf \<Rightarrow> u32" where [sb_fields]: "sb_nat_blkaddr sb = le32_at sb 84"
definition sb_ssa_blkaddr :: "buf \<Rightarrow> u32" where [sb_fields]: "sb_ssa_blkaddr sb = le32_at sb 88"
definition sb_main_blkaddr :: "buf \<Rightarrow> u32" where [sb_fields]: "sb_main_blkaddr sb = le32_at sb 92"
definition sb_root_ino :: "buf \<Rightarrow> u32" where [sb_fields]: "sb_root_ino sb = le32_at sb 96"
definition sb_node_ino :: "buf \<Rightarrow> u32" where [sb_fields]: "sb_node_ino sb = le32_at sb 100"
definition sb_meta_ino :: "buf \<Rightarrow> u32" where [sb_fields]: "sb_meta_ino sb = le32_at sb 104"
definition sb_extension_count :: "buf \<Rightarrow> u32" where [sb_fields]: "sb_extension_count sb = le32_at sb 1148"
definition sb_cp_payload :: "buf \<Rightarrow> u32" where [sb_fields]: "sb_cp_payload sb = le32_at sb 1664"
definition sb_feature :: "buf \<Rightarrow> u32" where [sb_fields]: "sb_feature sb = le32_at sb 2180"
definition sb_dev_path0 :: "buf \<Rightarrow> nat \<Rightarrow> u8" where [sb_fields]: "sb_dev_path0 sb i = sb (2201 + 68 * i)"
definition sb_dev_total_segments :: "buf \<Rightarrow> nat \<Rightarrow> u32" where
  [sb_fields]: "sb_dev_total_segments sb i = le32_at sb (2265 + 68 * i)"
definition sb_qf_ino :: "buf \<Rightarrow> nat \<Rightarrow> u32" where [sb_fields]: "sb_qf_ino sb t = le32_at sb (2745 + 4 * t)"
definition sb_hot_ext_count :: "buf \<Rightarrow> u8" where [sb_fields]: "sb_hot_ext_count sb = sb 2757"
definition sb_crc :: "buf \<Rightarrow> u32" where [sb_fields]: "sb_crc sb = le32_at sb 3068"

definition set_sb_segment_count :: "u32 \<Rightarrow> buf \<Rightarrow> buf" where
  "set_sb_segment_count v sb = put_le32 48 v sb"
definition set_sb_crc :: "u32 \<Rightarrow> buf \<Rightarrow> buf" where
  "set_sb_crc v sb = put_le32 3068 v sb"

definition F2FS_FEATURE_BLKZONED :: u32 where "F2FS_FEATURE_BLKZONED = 0x0002"
definition F2FS_FEATURE_SB_CHKSUM :: u32 where "F2FS_FEATURE_SB_CHKSUM = 0x0800"
definition F2FS_FEATURE_RO :: u32 where "F2FS_FEATURE_RO = 0x4000"
definition SB_CHKSUM_OFFSET :: nat where "SB_CHKSUM_OFFSET = 3068"
definition F2FS_SUPER_OFFSET :: nat where "F2FS_SUPER_OFFSET = 1024"
definition SB_SIZE :: nat where "SB_SIZE = 3072"
definition F2FS_MAX_SEGMENT :: u32 where "F2FS_MAX_SEGMENT = 16 * 1024 * 1024 div 2"
definition F2FS_MIN_SEGMENTS :: u32 where "F2FS_MIN_SEGMENTS = 9"
definition F2FS_MAX_EXTENSION :: u32 where "F2FS_MAX_EXTENSION = 64"
definition MAX_DEVICES :: nat where "MAX_DEVICES = 8"

subsection \<open>Writing\<close>

definition sb_mask_bit :: "nat \<Rightarrow> nat" where "sb_mask_bit addr = 2 ^ addr"

definition update_superblock :: "buf \<Rightarrow> nat \<Rightarrow> disk \<Rightarrow> (buf \<times> disk) option" where
  "update_superblock sb sb_mask d =
     (let sb = (if sb_feature sb AND F2FS_FEATURE_SB_CHKSUM \<noteq> 0
                then set_sb_crc (f2fs_cal_crc32 F2FS_SUPER_MAGIC sb SB_CHKSUM_OFFSET) sb
                else sb);
          blk = put_bytes F2FS_SUPER_OFFSET SB_SIZE sb zero_buf
      in do {
        d \<leftarrow> (if sb_mask_bit 0 AND sb_mask \<noteq> 0 then blk_write 0 blk d else Some d);
        d \<leftarrow> (if sb_mask_bit 1 AND sb_mask \<noteq> 0 then blk_write 1 blk d else Some d);
        Some (sb, d)
      })"

subsection \<open>Checks\<close>

definition shl32 :: "u32 \<Rightarrow> u32 \<Rightarrow> u32 option" where
  "shl32 x n = (if n < 32 then Some (push_bit (unat n) x) else None)"

definition sanity_check_area_boundary :: "buf \<Rightarrow> nat \<Rightarrow> disk \<Rightarrow> (int \<times> buf \<times> disk) option" where
  "sanity_check_area_boundary sb sb_addr d =
     (let segment0_blkaddr = sb_segment0_blkaddr sb;
          cp_blkaddr = sb_cp_blkaddr sb;
          sit_blkaddr = sb_sit_blkaddr sb;
          nat_blkaddr = sb_nat_blkaddr sb;
          ssa_blkaddr = sb_ssa_blkaddr sb;
          main_blkaddr = sb_main_blkaddr sb;
          log_blocks_per_seg = sb_log_blocks_per_seg sb
      in do {
        main_blks \<leftarrow> shl32 (sb_segment_count_main sb) log_blocks_per_seg;
        seg_blks \<leftarrow> shl32 (sb_segment_count sb) log_blocks_per_seg;
        ckpt_blks \<leftarrow> shl32 (sb_segment_count_ckpt sb) log_blocks_per_seg;
        sit_blks \<leftarrow> shl32 (sb_segment_count_sit sb) log_blocks_per_seg;
        nat_blks \<leftarrow> shl32 (sb_segment_count_nat sb) log_blocks_per_seg;
        ssa_blks \<leftarrow> shl32 (sb_segment_count_ssa sb) log_blocks_per_seg;
        let main_end_blkaddr = (ucast (main_blkaddr + main_blks) :: u64);
        let seg_end_blkaddr = (ucast (segment0_blkaddr + seg_blks) :: u64);
        if segment0_blkaddr \<noteq> cp_blkaddr then Some (-1, sb, d)
        else if cp_blkaddr + ckpt_blks \<noteq> sit_blkaddr then Some (-1, sb, d)
        else if sit_blkaddr + sit_blks \<noteq> nat_blkaddr then Some (-1, sb, d)
        else if nat_blkaddr + nat_blks \<noteq> ssa_blkaddr then Some (-1, sb, d)
        else if ssa_blkaddr + ssa_blks \<noteq> main_blkaddr then Some (-1, sb, d)
        else if main_end_blkaddr > seg_end_blkaddr then Some (-1, sb, d)
        else if main_end_blkaddr < seg_end_blkaddr then do {
          let sb = set_sb_segment_count
            (ucast (drop_bit (unat log_blocks_per_seg) (main_end_blkaddr - ucast segment0_blkaddr))) sb;
          (sb, d) \<leftarrow> update_superblock sb (sb_mask_bit sb_addr) d;
          Some (0, sb, d) }
        else Some (0, sb, d)
      })"

definition verify_sb_chksum :: "buf \<Rightarrow> int" where
  "verify_sb_chksum sb =
     (if of_nat SB_CHKSUM_OFFSET \<noteq> sb_checksum_offset sb then -1
      else if f2fs_crc_valid (sb_crc sb) sb (unat (sb_checksum_offset sb)) \<noteq> 0 then -1
      else 0)"

function dev_segs_loop :: "buf \<Rightarrow> nat \<Rightarrow> u32 \<Rightarrow> u32" where
  "dev_segs_loop sb i dev_segs =
     (if i < MAX_DEVICES \<and> sb_dev_path0 sb i \<noteq> 0
      then dev_segs_loop sb (i + 1) (dev_segs + sb_dev_total_segments sb i)
      else dev_segs)"
  by pat_completeness auto
termination by (relation "measure (\<lambda>(sb, i, s). MAX_DEVICES - i)") auto

declare dev_segs_loop.simps [simp del]

definition sanity_check_raw_super :: "bool \<Rightarrow> buf \<Rightarrow> nat \<Rightarrow> disk \<Rightarrow> (int \<times> buf \<times> disk) option" where
  "sanity_check_raw_super zoned_hm sb sb_addr d =
     (if sb_feature sb AND F2FS_FEATURE_SB_CHKSUM \<noteq> 0 \<and> verify_sb_chksum sb \<noteq> 0 then Some (-1, sb, d)
      else if F2FS_SUPER_MAGIC \<noteq> sb_magic sb then Some (-1, sb, d)
      else do {
        blocksize \<leftarrow> shl32 1 (sb_log_blocksize sb);
        if of_nat F2FS_BLKSIZE \<noteq> blocksize then Some (-1, sb, d)
        else if sb_log_blocks_per_seg sb \<noteq> 9 then Some (-1, sb, d)
        else if sb_log_sectorsize sb > 12 \<or> sb_log_sectorsize sb < 9 then Some (-1, sb, d)
        else if sb_log_sectors_per_block sb + sb_log_sectorsize sb \<noteq> 12 then Some (-1, sb, d)
        else do {
          let segment_count = sb_segment_count sb;
          let segs_per_sec = sb_segs_per_sec sb;
          let secs_per_zone = sb_secs_per_zone sb;
          let total_sections = sb_section_count sb;
          let segs_per_zone = segs_per_sec * secs_per_zone;
          blocks_per_seg \<leftarrow> shl32 1 (sb_log_blocks_per_seg sb);
          if segment_count > F2FS_MAX_SEGMENT \<or> segment_count < F2FS_MIN_SEGMENTS then Some (-1, sb, d)
          else if sb_feature sb AND F2FS_FEATURE_RO = 0 \<and>
              (total_sections > segment_count \<or> total_sections < F2FS_MIN_SEGMENTS \<or>
               segs_per_sec > segment_count \<or> segs_per_sec = 0) then Some (1, sb, d)
          else if segs_per_sec = 0 then None
          else if segment_count div segs_per_sec < total_sections then Some (1, sb, d)
          else if (ucast segment_count :: u64) > drop_bit 9 (sb_block_count sb) then Some (1, sb, d)
          else if sb_dev_path0 sb 0 \<noteq> 0 \<and> segs_per_zone = 0 then None
          else if sb_dev_path0 sb 0 \<noteq> 0 \<and>
              segment_count \<noteq>
                dev_segs_loop sb 1 (sb_dev_total_segments sb 0) div segs_per_zone * segs_per_zone
          then Some (1, sb, d)
          else if secs_per_zone > total_sections \<or> secs_per_zone = 0 then Some (1, sb, d)
          else if sb_extension_count sb > F2FS_MAX_EXTENSION \<or>
              ucast (sb_hot_ext_count sb) > F2FS_MAX_EXTENSION \<or>
              sb_extension_count sb + ucast (sb_hot_ext_count sb) > F2FS_MAX_EXTENSION
          then Some (1, sb, d)
          else if sb_cp_payload sb > blocks_per_seg - 2 then Some (1, sb, d)
          else if sb_node_ino sb \<noteq> 1 \<or> sb_meta_ino sb \<noteq> 2 \<or> sb_root_ino sb \<noteq> 3 then Some (-1, sb, d)
          else if zoned_hm \<and> sb_feature sb AND F2FS_FEATURE_BLKZONED = 0 then Some (-1, sb, d)
          else do {
            (r, sb, d) \<leftarrow> sanity_check_area_boundary sb sb_addr d;
            if r \<noteq> 0 then Some (-1, sb, d) else Some (0, sb, d)
          }
        }
      })"

definition EINVAL :: int where "EINVAL = 22"

definition validate_super_block :: "bool \<Rightarrow> nat \<Rightarrow> disk \<Rightarrow> (int \<times> buf option \<times> disk) option" where
  "validate_super_block zoned_hm sb_addr d =
     (case blk_read d sb_addr of
        None \<Rightarrow> Some (-1, None, d)
      | Some blk \<Rightarrow> do {
          (r, sb, d) \<leftarrow> sanity_check_raw_super zoned_hm (at_off F2FS_SUPER_OFFSET blk) sb_addr d;
          if r = 0 then Some (0, Some sb, d) else Some (- EINVAL, None, d)
        })"

subsection \<open>In-memory geometry\<close>

record sb_info =
  log_sectors_per_block :: u32
  log_blocksize :: u32
  blocksize :: u32
  log_blocks_per_seg :: u32
  blocks_per_seg :: u32
  segs_per_sec :: u32
  secs_per_zone :: u32
  total_sections :: u32
  total_node_count :: u32
  root_ino_num :: u32
  node_ino_num :: u32
  meta_ino_num :: u32

definition NAT_ENTRY_PER_BLOCK :: nat where "NAT_ENTRY_PER_BLOCK = 455"

definition init_sb_fields :: "buf \<Rightarrow> sb_info" where
  "init_sb_fields sb =
     (let bps = push_bit (unat (sb_log_blocks_per_seg sb)) 1 in
      \<lparr>log_sectors_per_block = sb_log_sectors_per_block sb,
       log_blocksize = sb_log_blocksize sb,
       blocksize = push_bit (unat (sb_log_blocksize sb)) 1,
       log_blocks_per_seg = sb_log_blocks_per_seg sb,
       blocks_per_seg = bps,
       segs_per_sec = sb_segs_per_sec sb,
       secs_per_zone = sb_secs_per_zone sb,
       total_sections = sb_section_count sb,
       total_node_count = sb_segment_count_nat sb div 2 * bps * of_nat NAT_ENTRY_PER_BLOCK,
       root_ino_num = sb_root_ino sb, node_ino_num = sb_node_ino sb, meta_ino_num = sb_meta_ino sb\<rparr>)"

text \<open>The device table of \<open>init_sb_info\<close>, as the pairs of first and last block of each device.
  Opening a further device and comparing the path of the first are outside the file system:
  \<open>dev_ok i\<close> says whether they succeed. \<open>c.blks_per_seg\<close> is 512.\<close>

function init_devices :: "(nat \<Rightarrow> bool) \<Rightarrow> buf \<Rightarrow> nat \<Rightarrow> (u64 \<times> u64) list \<Rightarrow> (u64 \<times> u64) list option" where
  "init_devices dev_ok sb i devs =
     (if i < MAX_DEVICES \<and> sb_dev_path0 sb i \<noteq> 0 then
        if \<not> dev_ok i then None
        else
          let start = (if i \<noteq> 0 then snd (last devs) + 1 else 0);
              end_blkaddr = start + ucast (sb_dev_total_segments sb i * 512 - 1);
              end_blkaddr = (if i = 0 then end_blkaddr + ucast (sb_segment0_blkaddr sb) else end_blkaddr)
          in init_devices dev_ok sb (i + 1) (devs @ [(start, end_blkaddr)])
      else Some devs)"
  by pat_completeness auto
termination by (relation "measure (\<lambda>(k, sb, i, ds). MAX_DEVICES - i)") auto

declare init_devices.simps [simp del]

definition init_sb_info :: "(nat \<Rightarrow> bool) \<Rightarrow> buf \<Rightarrow> (sb_info \<times> (u64 \<times> u64) list) option" where
  "init_sb_info dev_ok sb = do {
     devs \<leftarrow> init_devices dev_ok sb 0 [];
     Some (init_sb_fields sb, devs)
   }"

subsection \<open>The super block on disk\<close>

lemma sb_fields_set_crc [simp]:
  "sb_feature (set_sb_crc v sb) = sb_feature sb"
  "sb_checksum_offset (set_sb_crc v sb) = sb_checksum_offset sb"
  "sb_crc (set_sb_crc v sb) = v"
  by (simp_all add: sb_fields set_sb_crc_def buf_simps)

lemma crc32_set_crc [simp]:
  "f2fs_cal_crc32 c (set_sb_crc v sb) SB_CHKSUM_OFFSET = f2fs_cal_crc32 c sb SB_CHKSUM_OFFSET"
  by (rule f2fs_cal_crc32_cong) (simp add: set_sb_crc_def SB_CHKSUM_OFFSET_def buf_simps)

lemma verify_sb_chksum_cong:
  assumes "\<And>i. i < SB_SIZE \<Longrightarrow> b i = sb i"
  shows "verify_sb_chksum b = verify_sb_chksum sb"
proof -
  have "le32_at b 32 = le32_at sb 32" "le32_at b 3068 = le32_at sb 3068"
    using assms by (auto simp: SB_SIZE_def intro!: le32_at_cong)
  moreover have "f2fs_cal_crc32 F2FS_SUPER_MAGIC b SB_CHKSUM_OFFSET = f2fs_cal_crc32 F2FS_SUPER_MAGIC sb SB_CHKSUM_OFFSET"
    using assms by (intro f2fs_cal_crc32_cong) (simp add: SB_SIZE_def SB_CHKSUM_OFFSET_def)
  ultimately show ?thesis
    by (auto simp: verify_sb_chksum_def f2fs_crc_valid_def sb_fields SB_CHKSUM_OFFSET_def Let_def)
qed

lemma update_superblock_block:
  assumes "update_superblock sb sb_mask d = Some (sb', d')" "\<not> disk_ro d"
    and "a < 2" "sb_mask_bit a AND sb_mask \<noteq> 0"
  shows "blk_read d' a = Some (put_bytes F2FS_SUPER_OFFSET SB_SIZE sb' zero_buf)"
proof -
  have a: "a = 0 \<or> a = 1" using assms(3) by auto
  from assms(1) a assms(2,4) show ?thesis
    by (auto simp: update_superblock_def Let_def blk_write_def blk_read_def
        split: bind_splits if_splits)
qed

lemma update_superblock_others:
  assumes "update_superblock sb sb_mask d = Some (sb', d')" "1 < a"
  shows "blk_read d' a = blk_read d a"
  using assms by (auto simp: update_superblock_def Let_def blk_write_def blk_read_def
        split: bind_splits if_splits)

lemma update_superblock_sb:
  assumes "update_superblock sb sb_mask d = Some (sb', d')"
  shows "sb' = (if sb_feature sb AND F2FS_FEATURE_SB_CHKSUM \<noteq> 0
                then set_sb_crc (f2fs_cal_crc32 F2FS_SUPER_MAGIC sb SB_CHKSUM_OFFSET) sb else sb)"
  using assms by (auto simp: update_superblock_def Let_def split: bind_splits)

text \<open>Property C13. \<open>update_superblock\<close> leaves on disk what it reports: each copy its sb_mask
  selects reads back as the super block in memory, the blocks past the two copies keep
  their content, only the checksum field changes, and with the checksum feature the copy read
  back passes \<open>verify_sb_chksum\<close>.\<close>

theorem update_superblock_readback:
  assumes "update_superblock sb sb_mask d = Some (sb', d')" "\<not> disk_ro d"
    and "a < 2" "sb_mask_bit a AND sb_mask \<noteq> 0"
  shows "\<exists>blk. blk_read d' a = Some blk \<and>
           (\<forall>i < SB_SIZE. at_off F2FS_SUPER_OFFSET blk i = sb' i) \<and>
           (\<forall>i. \<not> (3068 \<le> i \<and> i < 3072) \<longrightarrow> sb' i = sb i) \<and>
           (\<forall>x > 1. blk_read d' x = blk_read d x) \<and>
           (sb_feature sb AND F2FS_FEATURE_SB_CHKSUM \<noteq> 0 \<and> sb_checksum_offset sb = of_nat SB_CHKSUM_OFFSET \<longrightarrow>
              verify_sb_chksum (at_off F2FS_SUPER_OFFSET blk) = 0)"
proof -
  let ?blk = "put_bytes F2FS_SUPER_OFFSET SB_SIZE sb' zero_buf"
  note sb' = update_superblock_sb [OF assms(1)]
  have bytes: "at_off F2FS_SUPER_OFFSET ?blk i = sb' i" if "i < SB_SIZE" for i
    using that by (simp add: at_off_apply put_bytes_in)
  have crc: "verify_sb_chksum sb' = 0"
    if "sb_feature sb AND F2FS_FEATURE_SB_CHKSUM \<noteq> 0" "sb_checksum_offset sb = of_nat SB_CHKSUM_OFFSET"
  proof -
    have "unat (of_nat SB_CHKSUM_OFFSET :: u32) = SB_CHKSUM_OFFSET" by (simp add: SB_CHKSUM_OFFSET_def)
    with that sb' show ?thesis by (simp add: verify_sb_chksum_def f2fs_crc_valid_def Let_def)
  qed
  have "sb' i = sb i" if "\<not> (3068 \<le> i \<and> i < 3072)" for i
    using that sb' by (auto simp: set_sb_crc_def put_le32_out split: if_splits)
  with update_superblock_block [OF assms] update_superblock_others [OF assms(1)] bytes crc
    verify_sb_chksum_cong [of "at_off F2FS_SUPER_OFFSET ?blk" sb']
  show ?thesis by auto
qed

theorem update_superblock_readback_witness:
  "\<exists>sb' d'. update_superblock (put_le32 2180 0x800 (put_le32 32 3068 zero_buf)) 1
        \<lparr>blocks = (\<lambda>_. zero_buf), last_blk = 9, disk_ro = False\<rparr> = Some (sb', d') \<and>
     (\<exists>blk. blk_read d' 0 = Some blk \<and> verify_sb_chksum (at_off F2FS_SUPER_OFFSET blk) = 0)"
proof -
  let ?sb = "put_le32 2180 0x800 (put_le32 32 3068 zero_buf)"
  let ?d = "\<lparr>blocks = (\<lambda>_. zero_buf), last_blk = 9, disk_ro = False\<rparr>"
  have f: "sb_feature ?sb = 0x800" "sb_checksum_offset ?sb = 3068"
    by (simp_all add: sb_fields buf_simps)
  obtain sb' d' where u: "update_superblock ?sb 1 ?d = Some (sb', d')"
    by (auto simp: update_superblock_def Let_def blk_write_def sb_mask_bit_def)
  have "sb_mask_bit 0 AND 1 \<noteq> 0" by (simp add: sb_mask_bit_def)
  with update_superblock_readback [OF u, of 0] f u show ?thesis
    by (auto simp: F2FS_FEATURE_SB_CHKSUM_def SB_CHKSUM_OFFSET_def)
qed

subsection \<open>The areas\<close>

lemma shl32_9: "shl32 x 9 = Some (push_bit 9 x)"
  by (simp add: shl32_def)

text \<open>The areas a super block describes, in unbounded arithmetic.\<close>

definition areas_fit :: "buf \<Rightarrow> bool" where
  "areas_fit sb \<longleftrightarrow> 0 < unat (sb_segment_count_main sb) \<and>
     unat (sb_segment0_blkaddr sb) +
       512 * (unat (sb_segment_count_ckpt sb) + unat (sb_segment_count_sit sb) +
              unat (sb_segment_count_nat sb) + unat (sb_segment_count_ssa sb) +
              unat (sb_segment_count_main sb)) < 2 ^ 32"

definition areas_contiguous :: "buf \<Rightarrow> bool" where
  "areas_contiguous sb \<longleftrightarrow>
     unat (sb_cp_blkaddr sb) = unat (sb_segment0_blkaddr sb) \<and>
     unat (sb_sit_blkaddr sb) = unat (sb_cp_blkaddr sb) + 512 * unat (sb_segment_count_ckpt sb) \<and>
     unat (sb_nat_blkaddr sb) = unat (sb_sit_blkaddr sb) + 512 * unat (sb_segment_count_sit sb) \<and>
     unat (sb_ssa_blkaddr sb) = unat (sb_nat_blkaddr sb) + 512 * unat (sb_segment_count_nat sb) \<and>
     unat (sb_main_blkaddr sb) = unat (sb_ssa_blkaddr sb) + 512 * unat (sb_segment_count_ssa sb) \<and>
     unat (sb_segment0_blkaddr sb) + 512 * unat (sb_segment_count sb) =
       unat (sb_main_blkaddr sb) + 512 * unat (sb_segment_count_main sb)"

lemma unat_add_shl:
  fixes a x :: u32
  assumes "unat a + 512 * unat x < 2 ^ 32"
  shows "unat (a + push_bit 9 x) = unat a + 512 * unat x"
proof -
  have "unat (push_bit 9 x) = 512 * unat x"
    using assms by (simp add: push_bit_eq_mult unat_word_ariths)
  with assms show ?thesis by (simp add: unat_word_ariths)
qed

lemma sb_fields_set_segment_count [simp]:
  "sb_segment_count (set_sb_segment_count v sb) = v"
  "sb_feature (set_sb_segment_count v sb) = sb_feature sb"
  "sb_checksum_offset (set_sb_segment_count v sb) = sb_checksum_offset sb"
  by (simp_all add: sb_fields set_sb_segment_count_def buf_simps)

lemma sb_geometry_set [simp]:
  "f \<in> {sb_segment_count_ckpt, sb_segment_count_sit, sb_segment_count_nat, sb_segment_count_ssa,
         sb_segment_count_main, sb_segment0_blkaddr, sb_cp_blkaddr, sb_sit_blkaddr, sb_nat_blkaddr,
         sb_ssa_blkaddr, sb_main_blkaddr, sb_log_blocks_per_seg} \<Longrightarrow>
     f (set_sb_segment_count v sb) = f sb \<and> f (set_sb_crc v sb) = f sb"
  by (auto simp: sb_fields set_sb_segment_count_def set_sb_crc_def buf_simps)

lemma sb_segment_count_set_crc [simp]: "sb_segment_count (set_sb_crc v sb) = sb_segment_count sb"
  by (simp add: sb_fields set_sb_crc_def buf_simps)

text \<open>The values the checks compare, when the areas fit in 32 bits.\<close>

lemma area_sums:
  assumes fit: "areas_fit sb"
    and "sb_segment0_blkaddr sb = sb_cp_blkaddr sb"
    and "sb_cp_blkaddr sb + push_bit 9 (sb_segment_count_ckpt sb) = sb_sit_blkaddr sb"
    and "sb_sit_blkaddr sb + push_bit 9 (sb_segment_count_sit sb) = sb_nat_blkaddr sb"
    and "sb_nat_blkaddr sb + push_bit 9 (sb_segment_count_nat sb) = sb_ssa_blkaddr sb"
    and "sb_ssa_blkaddr sb + push_bit 9 (sb_segment_count_ssa sb) = sb_main_blkaddr sb"
  shows "unat (sb_sit_blkaddr sb) = unat (sb_cp_blkaddr sb) + 512 * unat (sb_segment_count_ckpt sb)"
    "unat (sb_nat_blkaddr sb) = unat (sb_sit_blkaddr sb) + 512 * unat (sb_segment_count_sit sb)"
    "unat (sb_ssa_blkaddr sb) = unat (sb_nat_blkaddr sb) + 512 * unat (sb_segment_count_nat sb)"
    "unat (sb_main_blkaddr sb) = unat (sb_ssa_blkaddr sb) + 512 * unat (sb_segment_count_ssa sb)"
    "unat (sb_main_blkaddr sb + push_bit 9 (sb_segment_count_main sb)) =
       unat (sb_main_blkaddr sb) + 512 * unat (sb_segment_count_main sb)"
proof -
  note fit' = fit [unfolded areas_fit_def]
  show s: "unat (sb_sit_blkaddr sb) = unat (sb_cp_blkaddr sb) + 512 * unat (sb_segment_count_ckpt sb)"
    using fit' assms(2) by (subst assms(3) [symmetric], intro unat_add_shl) simp
  show n: "unat (sb_nat_blkaddr sb) = unat (sb_sit_blkaddr sb) + 512 * unat (sb_segment_count_sit sb)"
    using fit' assms(2) s by (subst assms(4) [symmetric], intro unat_add_shl) simp
  show a: "unat (sb_ssa_blkaddr sb) = unat (sb_nat_blkaddr sb) + 512 * unat (sb_segment_count_nat sb)"
    using fit' assms(2) s n by (subst assms(5) [symmetric], intro unat_add_shl) simp
  show m: "unat (sb_main_blkaddr sb) = unat (sb_ssa_blkaddr sb) + 512 * unat (sb_segment_count_ssa sb)"
    using fit' assms(2) s n a by (subst assms(6) [symmetric], intro unat_add_shl) simp
  show "unat (sb_main_blkaddr sb + push_bit 9 (sb_segment_count_main sb)) =
       unat (sb_main_blkaddr sb) + 512 * unat (sb_segment_count_main sb)"
    using fit' assms(2) s n a m by (intro unat_add_shl) simp
qed

lemma unat_shl9_exact:
  fixes x :: u32
  assumes "x \<le> F2FS_MAX_SEGMENT" "unat (push_bit 9 x) \<noteq> 0"
  shows "unat (push_bit 9 x) = 512 * unat x"
proof -
  have "unat x \<le> 2 ^ 23" using assms(1) by (simp add: word_le_nat_alt F2FS_MAX_SEGMENT_def)
  moreover have "unat (push_bit 9 x) = 512 * unat x mod 2 ^ 32"
    by (simp add: push_bit_eq_mult unat_word_ariths mult.commute)
  ultimately show ?thesis using assms(2) by (cases "unat x = 2 ^ 23") auto
qed

lemma area_checks_contiguous:
  assumes fit: "areas_fit sb" and log: "sb_log_blocks_per_seg sb = 9"
    and max: "sb_segment_count sb \<le> F2FS_MAX_SEGMENT"
    and ok: "sanity_check_area_boundary sb sb_addr d = Some (0, sb', d')"
  shows "areas_contiguous sb'"
proof -
  let ?fin = "sb_main_blkaddr sb + push_bit 9 (sb_segment_count_main sb)"
  let ?seg = "sb_segment0_blkaddr sb + push_bit 9 (sb_segment_count sb)"
  let ?S = "unat (sb_segment_count_ckpt sb) + unat (sb_segment_count_sit sb) +
              unat (sb_segment_count_nat sb) + unat (sb_segment_count_ssa sb) +
              unat (sb_segment_count_main sb)"
  have eqs: "sb_segment0_blkaddr sb = sb_cp_blkaddr sb"
    "sb_cp_blkaddr sb + push_bit 9 (sb_segment_count_ckpt sb) = sb_sit_blkaddr sb"
    "sb_sit_blkaddr sb + push_bit 9 (sb_segment_count_sit sb) = sb_nat_blkaddr sb"
    "sb_nat_blkaddr sb + push_bit 9 (sb_segment_count_nat sb) = sb_ssa_blkaddr sb"
    "sb_ssa_blkaddr sb + push_bit 9 (sb_segment_count_ssa sb) = sb_main_blkaddr sb"
    using ok by (auto simp: sanity_check_area_boundary_def log shl32_9 Let_def split: if_splits)
  note sums = area_sums [OF fit eqs]
  have S: "unat ?fin = unat (sb_segment0_blkaddr sb) + 512 * ?S" using sums eqs(1) by simp
  have S0: "0 < ?S" using fit by (simp add: areas_fit_def)
  show ?thesis
  proof (cases "(ucast ?fin :: u64) < ucast ?seg")
    case True
    define v :: u32 where "v = ucast (drop_bit 9 (ucast ?fin - ucast (sb_segment0_blkaddr sb) :: u64))"
    have "unat (ucast ?fin - ucast (sb_segment0_blkaddr sb) :: u64) = 512 * ?S"
      using S by (rule unat_diff_u64)
    moreover have "?S < 2 ^ 32" using fit by (simp add: areas_fit_def)
    ultimately have v: "unat v = ?S" by (simp add: v_def unat_ucast_u32 unat_drop_bit)
    from True ok eqs obtain dd where "update_superblock (set_sb_segment_count v sb) (sb_mask_bit sb_addr) d = Some (sb', dd)"
      by (auto simp: sanity_check_area_boundary_def log shl32_9 Let_def v_def split: if_splits bind_splits)
    note sb' = update_superblock_sb [OF this]
    then show ?thesis using sums eqs(1) v by (auto simp: areas_contiguous_def)
  next
    case False
    with ok eqs have "sb' = sb" "?seg = ?fin"
      by (auto simp: sanity_check_area_boundary_def log shl32_9 Let_def split: if_splits)
    then have "unat (push_bit 9 (sb_segment_count sb)) = 512 * ?S" using S by (blast intro: unat_add_cancel)
    with unat_shl9_exact [OF max] S0 have "unat (sb_segment_count sb) = ?S" by simp
    with \<open>sb' = sb\<close> sums eqs(1) show ?thesis by (simp add: areas_contiguous_def)
  qed
qed

lemma area_boundary_of_contiguous:
  assumes "areas_fit sb" "areas_contiguous sb" "sb_log_blocks_per_seg sb = 9"
  shows "sanity_check_area_boundary sb sb_addr d = Some (0, sb, d)"
proof -
  have shl: "unat (a + push_bit 9 x) = unat a + 512 * unat x"
    if "unat a + 512 * unat x \<le> unat (sb_segment0_blkaddr sb) +
       512 * (unat (sb_segment_count_ckpt sb) + unat (sb_segment_count_sit sb) +
              unat (sb_segment_count_nat sb) + unat (sb_segment_count_ssa sb) +
              unat (sb_segment_count_main sb))" for a x :: u32
    using that assms(1) by (intro unat_add_shl) (simp add: areas_fit_def)
  note c = assms(2) [unfolded areas_contiguous_def]
  have "sb_segment0_blkaddr sb = sb_cp_blkaddr sb" using c by (simp add: word_unat_eq_iff)
  moreover have "sb_cp_blkaddr sb + push_bit 9 (sb_segment_count_ckpt sb) = sb_sit_blkaddr sb"
    "sb_sit_blkaddr sb + push_bit 9 (sb_segment_count_sit sb) = sb_nat_blkaddr sb"
    "sb_nat_blkaddr sb + push_bit 9 (sb_segment_count_nat sb) = sb_ssa_blkaddr sb"
    "sb_ssa_blkaddr sb + push_bit 9 (sb_segment_count_ssa sb) = sb_main_blkaddr sb"
    "sb_main_blkaddr sb + push_bit 9 (sb_segment_count_main sb) =
       sb_segment0_blkaddr sb + push_bit 9 (sb_segment_count sb)"
    using c by (auto simp: word_unat_eq_iff shl)
  ultimately show ?thesis
    by (simp add: sanity_check_area_boundary_def assms(3) shl32_9 Let_def)
qed

lemma shl32_1_4096: "shl32 1 n = Some 4096 \<longleftrightarrow> n = 12"
proof
  assume "shl32 1 n = Some 4096"
  then have n: "n < 32" "push_bit (unat n) (1 :: u32) = 4096" by (auto simp: shl32_def split: if_splits)
  then have u: "unat n < 32" by (simp add: word_less_nat_alt)
  have "unat (push_bit (unat n) (1 :: u32)) = unat (4096 :: u32)" using n(2) by simp
  then have "(2::nat) ^ unat n = 2 ^ 12" using u by (simp add: push_bit_eq_mult unat_2p)
  then have "unat n = 12" by (simp only: power_inject_exp)
  then show "n = 12" by (simp add: word_unat_eq_iff)
qed (simp add: shl32_def push_bit_eq_mult)

lemma sanity_check_raw_super_checks:
  assumes "sanity_check_raw_super zoned_hm sb sb_addr d = Some (0, sb', d')"
  shows "sb_log_blocks_per_seg sb = 9 \<and> sb_segment_count sb \<le> F2FS_MAX_SEGMENT \<and>
    sanity_check_area_boundary sb sb_addr d = Some (0, sb', d') \<and>
    sb_magic sb = F2FS_SUPER_MAGIC \<and> shl32 1 (sb_log_blocksize sb) = Some 4096 \<and>
    sb_section_count sb \<le> sb_segment_count sb div sb_segs_per_sec sb \<and>
    sb_segs_per_sec sb \<noteq> 0 \<and> sb_secs_per_zone sb \<noteq> 0 \<and>
    sb_root_ino sb = 3 \<and> sb_node_ino sb = 1 \<and> sb_meta_ino sb = 2 \<and>
    (sb_feature sb AND F2FS_FEATURE_SB_CHKSUM \<noteq> 0 \<longrightarrow> verify_sb_chksum sb = 0)"
proof -
  note ok = assms [unfolded sanity_check_raw_super_def Let_def]
  from ok have 1: "\<not> (sb_feature sb AND F2FS_FEATURE_SB_CHKSUM \<noteq> 0 \<and> verify_sb_chksum sb \<noteq> 0)"
    "sb_magic sb = F2FS_SUPER_MAGIC" by (auto split: if_splits)
  from ok have 2: "shl32 1 (sb_log_blocksize sb) = Some 4096"
    by (auto simp: F2FS_BLKSIZE_def split: if_splits bind_splits)
  show ?thesis using ok 1 2
    by (auto simp: shl32_9 F2FS_BLKSIZE_def not_less split: if_split_asm bind_split_asm)
qed


lemma area_fit_update:
  assumes "sb_log_blocks_per_seg sb = 9"
    and "sanity_check_area_boundary sb sb_addr d = Some (0, sb', d')"
  shows "areas_fit sb' = areas_fit sb" "sb_log_blocks_per_seg sb' = 9"
proof -
  consider "sb' = sb" | v dd where
    "update_superblock (set_sb_segment_count v sb) (sb_mask_bit sb_addr) d = Some (sb', dd)"
    using assms by (auto simp: sanity_check_area_boundary_def shl32_9 Let_def split: if_splits bind_splits)
  then have "areas_fit sb' = areas_fit sb \<and> sb_log_blocks_per_seg sb' = 9"
  proof cases
    case 2
    with update_superblock_sb [OF 2] assms(1) show ?thesis by (auto simp: areas_fit_def)
  qed (use assms in auto)
  then show "areas_fit sb' = areas_fit sb" "sb_log_blocks_per_seg sb' = 9" by auto
qed


text \<open>A super block given by its fields, for concrete instances.\<close>

definition mk_sb :: "(nat \<times> u32) list \<Rightarrow> buf" where
  "mk_sb fs = foldr (\<lambda>(off, v) b. put_le32 off v b) fs zero_buf"

definition sample_fields :: "u32 \<Rightarrow> u32 \<Rightarrow> u32 \<Rightarrow> u32 \<Rightarrow> (nat \<times> u32) list" where
  "sample_fields segs nat_segs ssa main =
     [(0, F2FS_SUPER_MAGIC), (8, 9), (12, 3), (16, 12), (20, 9), (24, 1), (28, 1),
      (36, 0x100000), (40, 0), (44, 20), (48, segs), (52, 2), (56, 2), (60, nat_segs), (64, 1), (68, 20),
      (72, 512), (76, 512), (80, 1536), (84, 2560), (88, ssa), (92, main), (96, 3), (100, 1), (104, 2)]"

lemma le64_split: "le64_at b off = ucast (le32_at b off) OR push_bit 32 (ucast (le32_at b (off + 4)))"
  by (simp add: le64_at_def)

lemma sample_sb:
  fixes segs nat_segs ssa main :: u32
  defines "sb \<equiv> mk_sb (sample_fields segs nat_segs ssa main)"
  shows "sb_feature sb = 0" "sb_magic sb = F2FS_SUPER_MAGIC" "sb_log_blocksize sb = 12"
    "sb_log_blocks_per_seg sb = 9" "sb_log_sectorsize sb = 9" "sb_log_sectors_per_block sb = 3"
    "sb_segment_count sb = segs" "sb_segs_per_sec sb = 1" "sb_secs_per_zone sb = 1"
    "sb_section_count sb = 20" "sb_dev_path0 sb 0 = 0" "sb_extension_count sb = 0"
    "sb_hot_ext_count sb = 0" "sb_cp_payload sb = 0" "sb_node_ino sb = 1" "sb_meta_ino sb = 2"
    "sb_root_ino sb = 3" "sb_segment0_blkaddr sb = 512" "sb_cp_blkaddr sb = 512"
    "sb_sit_blkaddr sb = 1536" "sb_nat_blkaddr sb = 2560" "sb_ssa_blkaddr sb = ssa"
    "sb_main_blkaddr sb = main" "sb_segment_count_ckpt sb = 2" "sb_segment_count_sit sb = 2"
    "sb_segment_count_nat sb = nat_segs" "sb_segment_count_ssa sb = 1" "sb_segment_count_main sb = 20"
    "sb_block_count sb = 0x100000"
  by (simp_all add: sb_def sb_fields mk_sb_def sample_fields_def buf_simps le64_split)
     (simp_all add: zero_buf_def)

lemma sample_sb_check:
  fixes segs nat_segs ssa main :: u32
  defines "sb \<equiv> mk_sb (sample_fields segs nat_segs ssa main)"
  assumes "20 \<le> segs" "segs \<le> 2048"
  shows "sanity_check_raw_super False sb a d =
    Option.bind (sanity_check_area_boundary sb a d) (\<lambda>(r, sb, d). Some (if r \<noteq> 0 then -1 else 0, sb, d))"
proof -
  note f = sample_sb [of segs nat_segs ssa main, folded sb_def]
  have s: "\<not> segs > F2FS_MAX_SEGMENT" "segs \<noteq> 0" "\<not> segs < 9" "\<not> segs < 20"
    "\<not> 2048 < (ucast segs :: u64)"
    using assms(2,3) unat_ucast_u64 [of segs]
    by (auto simp: word_less_nat_alt word_le_nat_alt F2FS_MAX_SEGMENT_def F2FS_MIN_SEGMENTS_def)
  have l: "shl32 1 12 = Some 4096" "shl32 1 9 = Some 512" by (simp_all add: shl32_def)
  show ?thesis
    by (simp add: sanity_check_raw_super_def Let_def f s l F2FS_BLKSIZE_def F2FS_MIN_SEGMENTS_def
        F2FS_MAX_EXTENSION_def) (auto split: bind_splits)
qed


text \<open>Property C18. The area checks compute in 32 bits and wrap: a super block whose
  NAT claims 2 ^ 23 segments, as many blocks as there are addresses, is accepted, with
  the NAT, the SSA and the main area at the same place as if the NAT were empty.\<close>

theorem raw_super_accepts_wrapped_area:
  "\<exists>sb d. sanity_check_raw_super False sb 0 d = Some (0, sb, d) \<and>
     sb_segment_count_nat sb > sb_segment_count sb \<and> sb_ssa_blkaddr sb = sb_nat_blkaddr sb \<and>
     \<not> areas_contiguous sb"
proof -
  let ?sb = "mk_sb (sample_fields 25 0x800000 2560 3072)"
  let ?d = "\<lparr>blocks = (\<lambda>_. zero_buf), last_blk = 99999, disk_ro = False\<rparr>"
  have "sanity_check_raw_super False ?sb 0 ?d = Some (0, ?sb, ?d)"
    by (simp add: sample_sb_check sample_sb sanity_check_area_boundary_def shl32_def Let_def)
  moreover have "\<not> areas_contiguous ?sb" by (simp add: areas_contiguous_def sample_sb)
  ultimately show ?thesis by (intro exI [of _ ?sb] exI [of _ ?d]) (simp add: sample_sb)
qed


subsection \<open>The device table\<close>

definition dev_first :: "buf \<Rightarrow> nat \<Rightarrow> nat" where
  "dev_first sb i =
     (if i = 0 then 0
      else unat (sb_segment0_blkaddr sb) + 512 * (\<Sum>j < i. unat (sb_dev_total_segments sb j)))"

definition dev_table_ok :: "buf \<Rightarrow> (u64 \<times> u64) list \<Rightarrow> bool" where
  "dev_table_ok sb devs \<longleftrightarrow>
     (\<forall>i < length devs. unat (fst (devs ! i)) = dev_first sb i \<and>
        unat (snd (devs ! i)) + 1 = dev_first sb (Suc i))"

lemma unat_dev_blocks:
  fixes t :: u32
  assumes "0 < unat t" "unat t < 2 ^ 23"
  shows "unat (t * 512 - 1) = 512 * unat t - 1"
proof -
  have p: "unat (t * 512) = 512 * unat t" using assms(2) by (simp add: unat_word_ariths)
  then have "1 \<le> t * 512" using assms(1) by (simp add: word_le_nat_alt)
  with p show ?thesis by (simp add: unat_sub)
qed

lemma unat_add_u64:
  fixes a b :: u64
  shows "unat a + unat b < 2 ^ 64 \<Longrightarrow> unat (a + b) = unat a + unat b"
  by (simp add: unat_word_ariths)

lemma dev_first_bound:
  assumes "\<And>j. j < i \<Longrightarrow> unat (sb_dev_total_segments sb j) < 2 ^ 23" "i \<le> 8"
  shows "dev_first sb i < 2 ^ 36"
proof -
  have "(\<Sum>j < i. unat (sb_dev_total_segments sb j)) \<le> (\<Sum>j < i. 2 ^ 23)"
    using assms(1) by (intro sum_mono) (simp add: less_imp_le)
  then have "512 * (\<Sum>j < i. unat (sb_dev_total_segments sb j)) \<le> 8 * 2 ^ 32" using assms(2) by simp
  moreover have "unat (sb_segment0_blkaddr sb) < 2 ^ 32" using unsigned_less [of "sb_segment0_blkaddr sb"] by simp
  ultimately show ?thesis by (simp add: dev_first_def)
qed

lemma init_devices_step:
  assumes ok: "dev_table_ok sb devs" and len: "length devs < 8"
    and ts: "\<And>j. j \<le> length devs \<Longrightarrow> 0 < unat (sb_dev_total_segments sb j) \<and> unat (sb_dev_total_segments sb j) < 2 ^ 23"
  defines "i \<equiv> length devs"
  defines "st \<equiv> (if i \<noteq> 0 then snd (last devs) + 1 else 0)"
  defines "en \<equiv> (if i = 0 then st + ucast (sb_dev_total_segments sb i * 512 - 1) + ucast (sb_segment0_blkaddr sb)
                 else st + ucast (sb_dev_total_segments sb i * 512 - 1))"
  shows "dev_table_ok sb (devs @ [(st, en)])"
proof -
  let ?t = "sb_dev_total_segments sb i"
  have t: "0 < unat ?t" "unat ?t < 2 ^ 23" using ts [of i] by (auto simp: i_def)
  have b: "dev_first sb i < 2 ^ 36" using ts len by (intro dev_first_bound) (auto simp: i_def)
  have s0: "unat (sb_segment0_blkaddr sb) < 2 ^ 32" using unsigned_less [of "sb_segment0_blkaddr sb"] by simp
  have st: "unat st = dev_first sb i"
  proof (cases "i = 0")
    case True then show ?thesis by (simp add: st_def dev_first_def)
  next
    case False
    then have l: "last devs = devs ! (i - 1)" "i - 1 < length devs"
      by (auto simp: i_def last_conv_nth)
    with ok have "unat (snd (last devs)) + 1 = dev_first sb (Suc (i - 1))" by (simp add: dev_table_ok_def)
    with False b show ?thesis using unat_add_u64 [of "snd (last devs)" 1] by (simp add: st_def)
  qed
  have len': "unat (ucast (?t * 512 - 1) :: u64) = 512 * unat ?t - 1"
    by (simp add: unat_dev_blocks [OF t])
  have e1: "unat (st + ucast (?t * 512 - 1)) = dev_first sb i + (512 * unat ?t - 1)"
    using st len' t b by (subst unat_add_u64) auto
  have "unat en + 1 = dev_first sb (Suc i)"
  proof (cases "i = 0")
    case True
    then have "unat en = unat (st + ucast (?t * 512 - 1)) + unat (sb_segment0_blkaddr sb)"
      using e1 t b s0 unat_add_u64 [of "st + ucast (?t * 512 - 1)" "ucast (sb_segment0_blkaddr sb)"]
      by (simp add: en_def)
    with True e1 t show ?thesis by (simp add: dev_first_def)
  next
    case False
    with e1 t show ?thesis by (simp add: en_def dev_first_def)
  qed
  with st ok show ?thesis by (auto simp: dev_table_ok_def nth_append i_def less_Suc_eq)
qed

lemma init_devices_table:
  assumes "init_devices dev_ok sb i devs = Some devs'" "i = length devs" "i \<le> 8" "dev_table_ok sb devs"
    and "\<forall>j < i. sb_dev_path0 sb j \<noteq> 0"
    and "\<And>j. \<lbrakk>j < MAX_DEVICES; sb_dev_path0 sb j \<noteq> 0\<rbrakk> \<Longrightarrow>
       0 < unat (sb_dev_total_segments sb j) \<and> unat (sb_dev_total_segments sb j) < 2 ^ 23"
  shows "dev_table_ok sb devs' \<and> length devs' \<le> 8"
  using assms
proof (induction dev_ok sb i devs rule: init_devices.induct)
  case (1 dev_ok sb i devs)
  show ?case
  proof (cases "i < MAX_DEVICES \<and> sb_dev_path0 sb i \<noteq> 0")
    case True
    let ?st = "if i \<noteq> 0 then snd (last devs) + 1 else 0"
    let ?en = "if i = 0 then ?st + ucast (sb_dev_total_segments sb i * 512 - 1) + ucast (sb_segment0_blkaddr sb)
                 else ?st + ucast (sb_dev_total_segments sb i * 512 - 1)"
    have paths: "\<forall>j < i + 1. sb_dev_path0 sb j \<noteq> 0" using True "1.prems"(5) by (auto simp: less_Suc_eq)
    have lt: "length devs < 8" using True "1.prems"(2) by (simp add: MAX_DEVICES_def)
    from True "1.prems"(1) have ok: "dev_ok i" by (auto simp: init_devices.simps split: if_splits)
    have ts: "0 < unat (sb_dev_total_segments sb j) \<and> unat (sb_dev_total_segments sb j) < 2 ^ 23"
      if "j \<le> length devs" for j
      using that paths "1.prems"(2,6) lt by (simp add: MAX_DEVICES_def)
    have step: "dev_table_ok sb (devs @ [(?st, ?en)])"
      unfolding "1.prems"(2) by (rule init_devices_step [OF "1.prems"(4) lt ts])
    have "init_devices dev_ok sb (i + 1) (devs @ [(?st, ?en)]) = Some devs'"
      using "1.prems"(1) True ok init_devices.simps [of dev_ok sb i devs]
      by (cases "i = 0") (simp_all add: Let_def)
    from "1.IH" [OF True _ refl refl refl, simplified] ok this step "1.prems"(2,6) lt paths show ?thesis
      by simp
  next
    case False
    then have "init_devices dev_ok sb i devs = Some devs" by (subst init_devices.simps) auto
    with "1.prems" show ?thesis by simp
  qed
qed


end
