(* ===== verification/Ckpt.thy ===== *)
theory Ckpt
  imports Super
begin

text \<open>
  Checkpoints: the fields of \<open>struct f2fs_checkpoint\<close>, the choice of the valid checkpoint pack
  (\<open>verify_checksum_chksum\<close> to \<open>get_valid_checkpoint\<close> of \<open>fsck/mount.c\<close>), the sanity checks
  of the chosen one (\<open>sanity_check_ckpt\<close>) and the place of the version bitmaps in it
  (\<open>__bitmap_ptr\<close> of \<open>fsck/f2fs.h\<close>).

  A checkpoint is a buffer: its first block and, with a payload, the blocks after it. An
  \<open>ASSERT\<close> that ends the process is \<open>None\<close>.
\<close>

subsection \<open>Fields\<close>

named_theorems cp_fields

definition cp_checkpoint_ver :: "buf \<Rightarrow> u64" where [cp_fields]: "cp_checkpoint_ver cp = le64_at cp 0"
definition cp_user_block_count :: "buf \<Rightarrow> u64" where [cp_fields]: "cp_user_block_count cp = le64_at cp 8"
definition cp_valid_block_count :: "buf \<Rightarrow> u64" where [cp_fields]: "cp_valid_block_count cp = le64_at cp 16"
definition cp_rsvd_segment_count :: "buf \<Rightarrow> u32" where [cp_fields]: "cp_rsvd_segment_count cp = le32_at cp 24"
definition cp_overprov_segment_count :: "buf \<Rightarrow> u32" where
  [cp_fields]: "cp_overprov_segment_count cp = le32_at cp 28"
definition cp_free_segment_count :: "buf \<Rightarrow> u32" where [cp_fields]: "cp_free_segment_count cp = le32_at cp 32"
definition cp_cur_node_segno :: "buf \<Rightarrow> nat \<Rightarrow> u32" where
  [cp_fields]: "cp_cur_node_segno cp i = le32_at cp (36 + 4 * i)"
definition cp_cur_node_blkoff :: "buf \<Rightarrow> nat \<Rightarrow> u16" where
  [cp_fields]: "cp_cur_node_blkoff cp i = le16_at cp (68 + 2 * i)"
definition cp_cur_data_segno :: "buf \<Rightarrow> nat \<Rightarrow> u32" where
  [cp_fields]: "cp_cur_data_segno cp i = le32_at cp (84 + 4 * i)"
definition cp_cur_data_blkoff :: "buf \<Rightarrow> nat \<Rightarrow> u16" where
  [cp_fields]: "cp_cur_data_blkoff cp i = le16_at cp (116 + 2 * i)"
definition cp_ckpt_flags :: "buf \<Rightarrow> u32" where [cp_fields]: "cp_ckpt_flags cp = le32_at cp 132"
definition cp_pack_total_block_count :: "buf \<Rightarrow> u32" where
  [cp_fields]: "cp_pack_total_block_count cp = le32_at cp 136"
definition cp_pack_start_sum :: "buf \<Rightarrow> u32" where [cp_fields]: "cp_pack_start_sum cp = le32_at cp 140"
definition cp_valid_node_count :: "buf \<Rightarrow> u32" where [cp_fields]: "cp_valid_node_count cp = le32_at cp 144"
definition cp_valid_inode_count :: "buf \<Rightarrow> u32" where [cp_fields]: "cp_valid_inode_count cp = le32_at cp 148"
definition cp_next_free_nid :: "buf \<Rightarrow> u32" where [cp_fields]: "cp_next_free_nid cp = le32_at cp 152"
definition cp_sit_ver_bitmap_bytesize :: "buf \<Rightarrow> u32" where
  [cp_fields]: "cp_sit_ver_bitmap_bytesize cp = le32_at cp 156"
definition cp_nat_ver_bitmap_bytesize :: "buf \<Rightarrow> u32" where
  [cp_fields]: "cp_nat_ver_bitmap_bytesize cp = le32_at cp 160"

definition CP_RESIZEFS_FLAG :: u32 where "CP_RESIZEFS_FLAG = 0x4000"
definition CP_QUOTA_NEED_FSCK_FLAG :: u32 where "CP_QUOTA_NEED_FSCK_FLAG = 0x800"
definition CP_LARGE_NAT_BITMAP_FLAG :: u32 where "CP_LARGE_NAT_BITMAP_FLAG = 0x400"
definition CP_FSCK_FLAG :: u32 where "CP_FSCK_FLAG = 0x10"
definition CP_ERROR_FLAG :: u32 where "CP_ERROR_FLAG = 0x8"
definition CP_MIN_CHKSUM_OFFSET :: nat where "CP_MIN_CHKSUM_OFFSET = 192"
definition CP_BITMAP_OFFSET :: nat where "CP_BITMAP_OFFSET = 192"

subsection \<open>Choosing the checkpoint pack\<close>

definition verify_checksum_chksum :: "buf \<Rightarrow> int" where
  "verify_checksum_chksum cp =
     (let chksum_offset = cp_checksum_offset cp in
      if chksum_offset < of_nat CP_MIN_CHKSUM_OFFSET \<or> chksum_offset > of_nat CP_CHKSUM_OFFSET then -1
      else if f2fs_checkpoint_chksum cp \<noteq> le32_at cp (unat chksum_offset) then -1
      else 0)"

definition get_checkpoint_version :: "disk \<Rightarrow> u32 \<Rightarrow> buf option option" where
  "get_checkpoint_version d cp_addr = do {
     cp_page \<leftarrow> blk_read d (unat cp_addr);
     Some (if verify_checksum_chksum cp_page \<noteq> 0 then None else Some cp_page)
   }"

definition validate_checkpoint :: "sb_info \<Rightarrow> disk \<Rightarrow> u32 \<Rightarrow> (buf \<times> u64) option option" where
  "validate_checkpoint sbi d cp_addr = do {
     page_1 \<leftarrow> get_checkpoint_version d cp_addr;
     case page_1 of
       None \<Rightarrow> Some None
     | Some cp_page_1 \<Rightarrow>
         if cp_pack_total_block_count cp_page_1 > blocks_per_seg sbi then Some None
         else do {
           let pre_version = cp_checkpoint_ver cp_page_1;
           page_2 \<leftarrow> get_checkpoint_version d (cp_addr + (cp_pack_total_block_count cp_page_1 - 1));
           case page_2 of
             None \<Rightarrow> Some None
           | Some cp_page_2 \<Rightarrow>
               let cur_version = cp_checkpoint_ver cp_page_2
               in Some (if cur_version = pre_version then Some (cp_page_1, cur_version) else None)
         }
   }"

definition ver_after :: "u64 \<Rightarrow> u64 \<Rightarrow> bool" where
  "ver_after a b \<longleftrightarrow> sint (a - b) > 0"

fun copy_payload :: "disk \<Rightarrow> u64 \<Rightarrow> nat \<Rightarrow> nat \<Rightarrow> buf \<Rightarrow> buf option" where
  "copy_payload d cp_blk_no i 0 ckpt = Some ckpt"
| "copy_payload d cp_blk_no i (Suc n) ckpt = do {
     cur_page \<leftarrow> blk_read d (unat (cp_blk_no + of_nat i));
     copy_payload d cp_blk_no (i + 1) n (put_bytes (i * F2FS_BLKSIZE) F2FS_BLKSIZE cur_page ckpt)
   }"

definition SIZE_ALIGN :: "nat \<Rightarrow> nat \<Rightarrow> nat" where
  "SIZE_ALIGN val sz = (val + sz - 1) div sz"

definition MAX_SIT_BITMAP_SIZE :: nat where
  "MAX_SIT_BITMAP_SIZE = SIZE_ALIGN (SIZE_ALIGN (unat F2FS_MAX_SEGMENT) 55) 512 * 512 div 8"

fun pick_pack :: "(buf \<times> u64) option \<Rightarrow> (buf \<times> u64) option \<Rightarrow> (buf \<times> nat \<times> u64) option" where
  "pick_pack (Some (p1, v1)) (Some (p2, v2)) =
     (if ver_after v2 v1 then Some (p2, 2, v2) else Some (p1, 1, v1))"
| "pick_pack (Some (p1, v1)) None = Some (p1, 1, v1)"
| "pick_pack None (Some (p2, v2)) = Some (p2, 2, v2)"
| "pick_pack None None = None"

text \<open>The result is the return code and, on success, the checkpoint with its payload, the pack
  it comes from (\<open>sbi->cur_cp\<close>) and its version.\<close>

definition get_valid_checkpoint ::
  "sb_info \<Rightarrow> buf \<Rightarrow> disk \<Rightarrow> (int \<times> (buf \<times> nat \<times> u64) option) option" where
  "get_valid_checkpoint sbi sb d =
     (let cp_payload = sb_cp_payload sb in
      if unat cp_payload > SIZE_ALIGN MAX_SIT_BITMAP_SIZE F2FS_BLKSIZE then Some (- EINVAL, None)
      else do {
        let cp_start_blk_no = (ucast (sb_cp_blkaddr sb) :: u64);
        cp1 \<leftarrow> validate_checkpoint sbi d (ucast cp_start_blk_no);
        blks \<leftarrow> shl32 1 (sb_log_blocks_per_seg sb);
        let cp_start_blk_no2 = cp_start_blk_no + ucast blks;
        cp2 \<leftarrow> validate_checkpoint sbi d (ucast cp_start_blk_no2);
        case pick_pack cp1 cp2 of
          None \<Rightarrow> Some (- EINVAL, None)
        | Some (page, cur_cp, version) \<Rightarrow> do {
            let ckpt = put_bytes 0 F2FS_BLKSIZE page zero_buf;
            let cp_blk_no = (if cur_cp = 2 then cp_start_blk_no2 else cp_start_blk_no);
            ckpt \<leftarrow> copy_payload d cp_blk_no 1 (unat cp_payload) ckpt;
            Some (0, Some (ckpt, cur_cp, version))
          }
      })"

subsection \<open>Sanity checks\<close>

record config =
  fix_on :: bool
  auto_fix :: bool
  preen_mode :: bool
  bug_on :: bool

definition exist_qf_ino :: "buf \<Rightarrow> bool" where
  "exist_qf_ino sb \<longleftrightarrow> (\<exists>i \<in> set [0..<3]. sb_qf_ino sb i \<noteq> 0)"

definition f2fs_should_proceed :: "buf \<Rightarrow> u32 \<Rightarrow> config \<Rightarrow> bool \<times> config" where
  "f2fs_should_proceed sb flag c =
     (if \<not> fix_on c \<and> (auto_fix c \<or> preen_mode c) then
        if flag AND CP_FSCK_FLAG \<noteq> 0 \<or> flag AND CP_QUOTA_NEED_FSCK_FLAG \<noteq> 0 \<or>
           (exist_qf_ino sb \<and> flag AND CP_ERROR_FLAG \<noteq> 0)
        then (True, c\<lparr>fix_on := True\<rparr>)
        else if \<not> preen_mode c then (False, c)
        else (True, c)
      else (True, c))"

fun curseg_bad :: "(nat \<Rightarrow> u32) \<Rightarrow> (nat \<Rightarrow> u16) \<Rightarrow> u32 \<Rightarrow> u32 \<Rightarrow> bool" where
  "curseg_bad segno blkoff main_segs bps \<longleftrightarrow>
     (\<exists>i \<in> set [0..<3]. segno i \<ge> main_segs \<or> ucast (blkoff i) \<ge> bps)"

definition set_cp_user_block_count :: "u64 \<Rightarrow> buf \<Rightarrow> buf" where
  "set_cp_user_block_count v cp = put_le64 8 v cp"

definition set_sb_cp_payload :: "u32 \<Rightarrow> buf \<Rightarrow> buf" where
  "set_sb_cp_payload v sb = put_le32 1664 v sb"

text \<open>The part of \<open>sanity_check_ckpt\<close> on \<open>user_block_count\<close>: the checkpoint and the
  configuration to go on with, or \<open>None\<close> for an early return of 1.\<close>

definition check_user_block_count :: "buf \<Rightarrow> buf \<Rightarrow> config \<Rightarrow> (buf \<times> config) option" where
  "check_user_block_count sb cp c =
     (let flag = cp_ckpt_flags cp;
          user_block_count = (ucast (cp_user_block_count cp) :: u32);
          segment_count_main = sb_segment_count_main sb + 1;
          log_blocks_per_seg = unat (sb_log_blocks_per_seg sb)
      in if user_block_count = 0 \<or> user_block_count \<ge> push_bit log_blocks_per_seg segment_count_main then
           let c = c\<lparr>bug_on := True\<rparr>;
               (go_on, c) = f2fs_should_proceed sb flag c
           in if \<not> go_on then None
              else if \<not> fix_on c then None
              else if flag AND (CP_FSCK_FLAG OR CP_RESIZEFS_FLAG) \<noteq> 0 then
                let seg_cnt_main = sb_segment_count sb -
                      (sb_segment_count_ckpt sb + sb_segment_count_sit sb +
                       sb_segment_count_nat sb + sb_segment_count_ssa sb)
                in if seg_cnt_main \<noteq> sb_segment_count_main sb then None
                   else Some (set_cp_user_block_count
                          (ucast ((sb_segment_count_main sb - cp_overprov_segment_count cp) * 512)) cp,
                          c\<lparr>bug_on := True\<rparr>)
              else Some (cp, c)
         else Some (cp, c))"

definition sanity_check_ckpt ::
  "sb_info \<Rightarrow> buf \<Rightarrow> buf \<Rightarrow> config \<Rightarrow> disk \<Rightarrow> (int \<times> buf \<times> buf \<times> config \<times> disk) option" where
  "sanity_check_ckpt sbi sb cp c d =
     (let total = sb_segment_count sb;
          sit_segs = sb_segment_count_sit sb;
          nat_segs = sb_segment_count_nat sb;
          fsmeta = sb_segment_count_ckpt sb + sit_segs + nat_segs + cp_rsvd_segment_count cp +
                   sb_segment_count_ssa sb
      in if fsmeta \<ge> total then Some (1, sb, cp, c, d)
         else if sb_feature sb AND F2FS_FEATURE_RO = 0 \<and>
             (fsmeta < 9 \<or> cp_overprov_segment_count cp = 0 \<or> cp_rsvd_segment_count cp = 0)
         then Some (1, sb, cp, c, d)
         else case check_user_block_count sb cp c of
           None \<Rightarrow> Some (1, sb, cp,
             snd (f2fs_should_proceed sb (cp_ckpt_flags cp) (c\<lparr>bug_on := True\<rparr>)), d)
         | Some (cp, c) \<Rightarrow>
             let main_segs = sb_segment_count_main sb;
                 bps = blocks_per_seg sbi;
                 log_bps = unat (sb_log_blocks_per_seg sb)
             in if curseg_bad (cp_cur_node_segno cp) (cp_cur_node_blkoff cp) main_segs bps
                then Some (1, sb, cp, c, d)
                else if curseg_bad (cp_cur_data_segno cp) (cp_cur_data_blkoff cp) main_segs bps
                then Some (1, sb, cp, c, d)
                else if cp_sit_ver_bitmap_bytesize cp \<noteq> push_bit log_bps (sit_segs div 2) div 8 \<or>
                        cp_nat_ver_bitmap_bytesize cp \<noteq> push_bit log_bps (nat_segs div 2) div 8
                then Some (1, sb, cp, c, d)
                else if cp_pack_start_sum cp < sb_cp_payload sb + 1 \<or>
                        cp_pack_start_sum cp > bps - 1 - 6 then
                  if sb_feature sb AND F2FS_FEATURE_SB_CHKSUM \<noteq> 0 then Some (1, sb, cp, c, d)
                  else do {
                    (sb, d) \<leftarrow> update_superblock (set_sb_cp_payload (cp_pack_start_sum cp - 1) sb) 3 d;
                    Some (0, sb, cp, c, d) }
                else Some (0, sb, cp, c, d))"

subsection \<open>Version bitmaps in the checkpoint\<close>

datatype bitmap_kind = NAT_BITMAP | SIT_BITMAP

definition bitmap_size :: "buf \<Rightarrow> bitmap_kind \<Rightarrow> nat" where
  "bitmap_size ckpt flag =
     (case flag of NAT_BITMAP \<Rightarrow> unat (cp_nat_ver_bitmap_bytesize ckpt)
                 | SIT_BITMAP \<Rightarrow> unat (cp_sit_ver_bitmap_bytesize ckpt))"

definition bitmap_ptr :: "buf \<Rightarrow> buf \<Rightarrow> bitmap_kind \<Rightarrow> nat" where
  "bitmap_ptr sb ckpt flag =
     (if cp_ckpt_flags ckpt AND CP_LARGE_NAT_BITMAP_FLAG \<noteq> 0 then
        let offset = (if flag = SIT_BITMAP then unat (cp_nat_ver_bitmap_bytesize ckpt) else 0);
            chksum_size = (if cp_checksum_offset ckpt = of_nat CP_MIN_CHKSUM_OFFSET then 4 else 0)
        in CP_BITMAP_OFFSET + offset + chksum_size
      else if sb_cp_payload sb > 0 then
        if flag = NAT_BITMAP then CP_BITMAP_OFFSET else F2FS_BLKSIZE
      else
        let offset = (if flag = NAT_BITMAP then unat (cp_sit_ver_bitmap_bytesize ckpt) else 0)
        in CP_BITMAP_OFFSET + offset)"

subsection \<open>The chosen checkpoint\<close>

lemma sint_uminus_pos:
  fixes x :: u64
  assumes "0 < sint x"
  shows "sint (- x) = - sint x"
proof -
  have r: "sint x < 2 ^ 63" using sint_lt [of x] by simp
  have "sint (- x) = signed_take_bit 63 (- sint x)" by (simp add: sint_word_ariths)
  also have "\<dots> = - sint x" using assms r by (intro signed_take_bit_int_eq_self) auto
  finally show ?thesis .
qed

lemma ver_after_asym: "ver_after a b \<Longrightarrow> \<not> ver_after b a"
  using sint_uminus_pos [of "a - b"] by (simp add: ver_after_def)

lemma ver_after_irrefl [simp]: "\<not> ver_after a a"
  by (simp add: ver_after_def)

text \<open>Two checkpoint packs start at \<open>cp_blkaddr\<close>, one segment apart.\<close>

definition pack_start :: "buf \<Rightarrow> nat \<Rightarrow> nat" where
  "pack_start sb p = unat (sb_cp_blkaddr sb) + (if p = 2 then 512 else 0)"

definition pack_valid :: "sb_info \<Rightarrow> buf \<Rightarrow> disk \<Rightarrow> nat \<Rightarrow> u64 \<Rightarrow> bool" where
  "pack_valid sbi sb d p v \<longleftrightarrow>
     (\<exists>page. validate_checkpoint sbi d (of_nat (pack_start sb p)) = Some (Some (page, v)) \<and>
        1 \<le> cp_pack_total_block_count page)"

definition packs_on_disk :: "buf \<Rightarrow> disk \<Rightarrow> bool" where
  "packs_on_disk sb d \<longleftrightarrow> sb_log_blocks_per_seg sb = 9 \<and> unat (sb_cp_payload sb) \<le> 5 \<and>
     0 < unat (sb_cp_blkaddr sb) \<and> unat (sb_cp_blkaddr sb) + 1024 < 2 ^ 32 \<and>
     unat (sb_cp_blkaddr sb) + 1024 \<le> last_blk d"

lemma get_checkpoint_version_total:
  "unat a \<le> last_blk d \<Longrightarrow> get_checkpoint_version d a \<noteq> None"
  by (simp add: get_checkpoint_version_def blk_read_def)

lemma unat_pack_tail:
  fixes a t :: u32
  assumes "0 < unat a" "unat a + 512 < 2 ^ 32" "t \<le> 512"
  shows "unat (a + (t - 1)) \<le> unat a + 511"
    "1 \<le> t \<Longrightarrow> unat (a + (t - 1)) = unat a + (unat t - 1)"
proof -
  have t: "unat t \<le> 512" using assms(3) by (simp add: word_le_nat_alt)
  show *: "unat (a + (t - 1)) = unat a + (unat t - 1)" if "1 \<le> t"
  proof -
    have "unat (t - 1) = unat t - 1" using that by (simp add: unat_sub word_le_nat_alt)
    then show ?thesis using t assms by (simp add: unat_word_ariths)
  qed
  show "unat (a + (t - 1)) \<le> unat a + 511"
  proof (cases "1 \<le> t")
    case True with * t show ?thesis by simp
  next
    case False
    then have "t = 0" by (simp add: word_le_nat_alt word_unat_eq_iff)
    then have "a + (t - 1) = a - 1" by simp
    moreover have "unat (a - 1) = unat a - 1" using assms(1) by (simp add: unat_sub word_le_nat_alt)
    ultimately show ?thesis by simp
  qed
qed

lemma validate_checkpoint_total:
  assumes "blocks_per_seg sbi = 512" "0 < unat a" "unat a + 512 < 2 ^ 32" "unat a + 512 \<le> last_blk d"
  shows "validate_checkpoint sbi d a \<noteq> None"
proof -
  have "get_checkpoint_version d (a + (t - 1)) \<noteq> None" if "t \<le> 512" for t
    using unat_pack_tail(1) [OF assms(2,3) that] assms(4) by (intro get_checkpoint_version_total) simp
  moreover have "get_checkpoint_version d a \<noteq> None"
    using assms(4) by (intro get_checkpoint_version_total) simp
  ultimately have g: "\<And>t. t \<le> 512 \<Longrightarrow> \<exists>y. get_checkpoint_version d (a + (t - 1)) = Some y"
    and q: "\<exists>q. get_checkpoint_version d a = Some q" by auto
  from q obtain q where q: "get_checkpoint_version d a = Some q" by blast
  show ?thesis
  proof (cases q)
    case None
    with q show ?thesis by (simp add: validate_checkpoint_def)
  next
    case (Some p)
    show ?thesis
    proof (cases "cp_pack_total_block_count p \<le> 512")
      case True
      from g [OF True] obtain y where "get_checkpoint_version d (a + (cp_pack_total_block_count p - 1)) = Some y" ..
      with q Some assms(1) show ?thesis by (cases y) (simp_all add: validate_checkpoint_def Let_def)
    qed (use q Some assms(1) in \<open>simp add: validate_checkpoint_def not_le\<close>)
  qed
qed

lemma validate_checkpoint_iff:
  "validate_checkpoint sbi d a = Some (Some (page, v)) \<longleftrightarrow>
     get_checkpoint_version d a = Some (Some page) \<and>
     cp_pack_total_block_count page \<le> blocks_per_seg sbi \<and> cp_checkpoint_ver page = v \<and>
     (\<exists>tail. get_checkpoint_version d (a + (cp_pack_total_block_count page - 1)) = Some (Some tail) \<and>
        cp_checkpoint_ver tail = v)"
proof (cases "get_checkpoint_version d a")
  case (Some q)
  note q = this
  show ?thesis
  proof (cases q)
    case (Some p)
    show ?thesis
    proof (cases "cp_pack_total_block_count p > blocks_per_seg sbi")
      case True
      with q Some show ?thesis by (auto simp: validate_checkpoint_def)
    next
      case False
      with q Some show ?thesis
        by (cases "get_checkpoint_version d (a + (cp_pack_total_block_count p - 1))"; cases "the (get_checkpoint_version d (a + (cp_pack_total_block_count p - 1)))")
           (auto simp: validate_checkpoint_def Let_def)
    qed
  qed (use q in \<open>simp add: validate_checkpoint_def\<close>)
qed (simp add: validate_checkpoint_def)

lemma validate_checkpoint_agree:
  assumes "blocks_per_seg sbi = 512" "0 < unat a" "unat a + 512 < 2 ^ 32"
    and "\<And>x. \<lbrakk>unat a \<le> x; x < unat a + 512\<rbrakk> \<Longrightarrow> blk_read d' x = blk_read d x"
    and ok: "validate_checkpoint sbi d a = Some (Some (page, v))" "1 \<le> cp_pack_total_block_count page"
  shows "validate_checkpoint sbi d' a = Some (Some (page, v))"
proof -
  have h: "get_checkpoint_version d' a = get_checkpoint_version d a"
    using assms(4) [of "unat a"] by (simp add: get_checkpoint_version_def)
  have "get_checkpoint_version d' (a + (t - 1)) = get_checkpoint_version d (a + (t - 1))"
    if "t \<le> 512" "1 \<le> t" for t
    using unat_pack_tail(2) [OF assms(2,3) that(1) that(2)] assms(4) [of "unat (a + (t - 1))"] that
    by (simp add: get_checkpoint_version_def word_le_nat_alt)
  with ok h assms(1) show ?thesis by (simp add: validate_checkpoint_iff)
qed

lemma unat_of_nat_u32: "n < 2 ^ 32 \<Longrightarrow> unat (of_nat n :: u32) = n"
  by (simp add: unat_of_nat)

lemma copy_payload_total:
  assumes "\<And>j. \<lbrakk>i \<le> j; j < i + n\<rbrakk> \<Longrightarrow> unat (b + of_nat j) \<le> last_blk d" "0 < i"
  shows "\<exists>c'. copy_payload d b i n ckpt = Some c' \<and> (\<forall>k < F2FS_BLKSIZE. c' k = ckpt k)"
  using assms
proof (induction n arbitrary: i ckpt)
  case (Suc n)
  have r: "blk_read d (unat (b + of_nat i)) = Some (blocks d (unat (b + of_nat i)))"
    using Suc.prems(1) [of i] by (simp add: blk_read_def)
  obtain c' where "copy_payload d b (i + 1) n
      (put_bytes (i * F2FS_BLKSIZE) F2FS_BLKSIZE (blocks d (unat (b + of_nat i))) ckpt) = Some c'"
    "\<forall>k < F2FS_BLKSIZE. c' k = put_bytes (i * F2FS_BLKSIZE) F2FS_BLKSIZE (blocks d (unat (b + of_nat i))) ckpt k"
    using Suc.IH [of "i + 1"] Suc.prems by force
  moreover have "put_bytes (i * F2FS_BLKSIZE) F2FS_BLKSIZE p ckpt k = ckpt k" if "k < F2FS_BLKSIZE" for k p
    using that Suc.prems(2) by (intro put_bytes_out) (cases i; simp)
  ultimately show ?case using r by auto
qed auto

lemma pack_addresses:
  assumes "packs_on_disk sb d"
  shows "ucast (ucast (sb_cp_blkaddr sb) :: u64) = (of_nat (pack_start sb 1) :: u32)"
    "ucast (ucast (sb_cp_blkaddr sb) + 512 :: u64) = (of_nat (pack_start sb 2) :: u32)"
    "unat (of_nat (pack_start sb p) :: u32) = pack_start sb p"
    "unat (ucast (sb_cp_blkaddr sb) :: u64) = pack_start sb 1"
    "unat (ucast (sb_cp_blkaddr sb) + 512 :: u64) = pack_start sb 2"
proof -
  note fit = assms [unfolded packs_on_disk_def]
  show e: "unat (ucast (sb_cp_blkaddr sb) + 512 :: u64) = pack_start sb 2"
    using fit unat_add_u64 [of "ucast (sb_cp_blkaddr sb)" 512] by (simp add: pack_start_def)
  show u: "unat (of_nat (pack_start sb p) :: u32) = pack_start sb p" for p
  proof (rule unat_of_nat_u32)
    show "pack_start sb p < 2 ^ 32" using fit by (simp add: pack_start_def)
  qed
  show "unat (ucast (sb_cp_blkaddr sb) :: u64) = pack_start sb 1" by (simp add: pack_start_def)
  show "ucast (ucast (sb_cp_blkaddr sb) :: u64) = (of_nat (pack_start sb 1) :: u32)"
    using u [of 1] fit by (simp add: word_unat_eq_iff unat_ucast_u32 pack_start_def)
  show "ucast (ucast (sb_cp_blkaddr sb) + 512 :: u64) = (of_nat (pack_start sb 2) :: u32)"
    using e u [of 2] fit by (simp add: word_unat_eq_iff unat_ucast_u32 pack_start_def)
qed

text \<open>What \<open>get_valid_checkpoint\<close> returns, in terms of the validation of the two packs.\<close>

lemma get_valid_checkpoint_pick:
  assumes "packs_on_disk sb d" "blocks_per_seg sbi = 512"
  shows "\<exists>c1 c2. validate_checkpoint sbi d (of_nat (pack_start sb 1)) = Some c1 \<and>
     validate_checkpoint sbi d (of_nat (pack_start sb 2)) = Some c2 \<and>
     (case pick_pack c1 c2 of
        None \<Rightarrow> get_valid_checkpoint sbi sb d = Some (- EINVAL, None)
      | Some (page, cur, v) \<Rightarrow>
          \<exists>k. get_valid_checkpoint sbi sb d = Some (0, Some (k, cur, v)) \<and> (\<forall>i < F2FS_BLKSIZE. k i = page i))"
proof -
  note fit = assms(1) [unfolded packs_on_disk_def]
  note addr = pack_addresses [OF assms(1)]
  have "validate_checkpoint sbi d (of_nat (pack_start sb p)) \<noteq> None" for p
  proof -
    have "0 < pack_start sb p" "pack_start sb p + 512 < 2 ^ 32" "pack_start sb p + 512 \<le> last_blk d"
      using fit by (auto simp: pack_start_def)
    then show ?thesis by (intro validate_checkpoint_total assms(2)) (simp_all only: addr(3))
  qed
  then obtain c1 c2 where c: "validate_checkpoint sbi d (of_nat (pack_start sb 1)) = Some c1"
    "validate_checkpoint sbi d (of_nat (pack_start sb 2)) = Some c2" by blast
  have pl: "\<not> SIZE_ALIGN MAX_SIT_BITMAP_SIZE F2FS_BLKSIZE < unat (sb_cp_payload sb)"
    using fit by (simp add: SIZE_ALIGN_def MAX_SIT_BITMAP_SIZE_def F2FS_BLKSIZE_def F2FS_MAX_SEGMENT_def)
  have shl: "shl32 1 (sb_log_blocks_per_seg sb) = Some 512" using fit by (simp add: shl32_def)
  have cp: "\<exists>c'. copy_payload d b 1 (unat (sb_cp_payload sb)) (put_bytes 0 F2FS_BLKSIZE page zero_buf) = Some c' \<and>
      (\<forall>i < F2FS_BLKSIZE. c' i = page i)"
    if "unat b = pack_start sb p" for b page p
  proof -
    have "unat (b + of_nat j) \<le> last_blk d" if "1 \<le> j" "j < 1 + unat (sb_cp_payload sb)" for j
    proof -
      have "unat (of_nat j :: u64) = j" "j \<le> 5" using that fit by (simp_all add: unat_of_nat)
      moreover have "pack_start sb p + 512 < 2 ^ 33" using fit by (simp add: pack_start_def)
      ultimately have "unat (b + of_nat j) = pack_start sb p + j"
        using \<open>unat b = pack_start sb p\<close> unat_add_u64 [of b "of_nat j"] by simp
      with \<open>j \<le> 5\<close> fit show ?thesis by (simp add: pack_start_def split: if_splits)
    qed
    from copy_payload_total [OF this] obtain c' where
      "copy_payload d b 1 (unat (sb_cp_payload sb)) (put_bytes 0 F2FS_BLKSIZE page zero_buf) = Some c'"
      "\<forall>k < F2FS_BLKSIZE. c' k = put_bytes 0 F2FS_BLKSIZE page zero_buf k" by force
    then show ?thesis by (simp add: put_bytes_in)
  qed
  note cp1 = cp [OF addr(4)] and cp2 = cp [OF addr(5)]
  have "case pick_pack c1 c2 of
        None \<Rightarrow> get_valid_checkpoint sbi sb d = Some (- EINVAL, None)
      | Some (page, cur, v) \<Rightarrow>
          \<exists>k. get_valid_checkpoint sbi sb d = Some (0, Some (k, cur, v)) \<and> (\<forall>i < F2FS_BLKSIZE. k i = page i)"
  proof (cases "pick_pack c1 c2")
    case None
    then show ?thesis by (simp add: get_valid_checkpoint_def Let_def pl shl addr(1,2) c c [unfolded One_nat_def])
  next
    case (Some x)
    obtain page cur v where x: "x = (page, cur, v)" by (cases x)
    show ?thesis using Some x cp1 [of page] cp2 [of page]
      by (auto simp: get_valid_checkpoint_def Let_def pl shl addr(1,2) c c [unfolded One_nat_def])
  qed
  with c show ?thesis by blast
qed


lemma get_valid_checkpoint_spec:
  assumes "packs_on_disk sb d" "blocks_per_seg sbi = 512"
  shows "(\<exists>ckpt cur v page tail. get_valid_checkpoint sbi sb d = Some (0, Some (ckpt, cur, v)) \<and>
            cur \<in> {1, 2} \<and>
            blk_read d (pack_start sb cur) = Some page \<and> verify_checksum_chksum page = 0 \<and>
            blk_read d (unat (of_nat (pack_start sb cur) + (cp_pack_total_block_count page - 1))) = Some tail \<and>
            verify_checksum_chksum tail = 0 \<and>
            cp_checkpoint_ver page = v \<and> cp_checkpoint_ver tail = v \<and>
            (\<forall>i < F2FS_BLKSIZE. ckpt i = page i) \<and>
            (\<forall>q w. q \<in> {1, 2} \<and> pack_valid sbi sb d q w \<longrightarrow> \<not> ver_after w v)) \<or>
         (get_valid_checkpoint sbi sb d = Some (- EINVAL, None) \<and>
            (\<forall>q w. q \<in> {1, 2} \<longrightarrow> \<not> pack_valid sbi sb d q w))"
proof -
  note addr = pack_addresses [OF assms(1)]
  have sound: "\<exists>tail. blk_read d (pack_start sb p) = Some page \<and> verify_checksum_chksum page = 0 \<and>
      blk_read d (unat (of_nat (pack_start sb p) + (cp_pack_total_block_count page - 1))) = Some tail \<and>
      verify_checksum_chksum tail = 0 \<and> cp_checkpoint_ver page = v \<and> cp_checkpoint_ver tail = v"
    if "validate_checkpoint sbi d (of_nat (pack_start sb p)) = Some (Some (page, v))" for p page v
    using that by (auto simp: validate_checkpoint_iff get_checkpoint_version_def addr(3)
        split: bind_splits if_splits)
  obtain c1 c2 where c: "validate_checkpoint sbi d (of_nat (pack_start sb 1)) = Some c1"
    "validate_checkpoint sbi d (of_nat (pack_start sb 2)) = Some c2"
    and pick: "case pick_pack c1 c2 of
        None \<Rightarrow> get_valid_checkpoint sbi sb d = Some (- EINVAL, None)
      | Some (page, cur, v) \<Rightarrow>
          \<exists>k. get_valid_checkpoint sbi sb d = Some (0, Some (k, cur, v)) \<and> (\<forall>i < F2FS_BLKSIZE. k i = page i)"
    using get_valid_checkpoint_pick [OF assms] by blast
  have valid: "(\<exists>p. q = 1 \<and> c1 = Some (p, w)) \<or> (\<exists>p. q = 2 \<and> c2 = Some (p, w))"
    if "pack_valid sbi sb d q w" "q \<in> {1, 2}" for q w
    using that c by (auto simp: pack_valid_def)
  show ?thesis
  proof (cases "pick_pack c1 c2")
    case None
    then have "c1 = None" "c2 = None" by (cases c1; cases c2; auto split: if_splits)+
    with None pick valid show ?thesis by (intro disjI2) auto
  next
    case (Some x)
    obtain page cur v where x: "x = (page, cur, v)" by (cases x)
    have cur: "cur = 1 \<and> c1 = Some (page, v) \<or> cur = 2 \<and> c2 = Some (page, v)"
      using Some x by (cases c1; cases c2; auto split: if_splits)
    have newest: "\<not> ver_after w v" if "c1 = Some (p, w) \<or> c2 = Some (p, w)" for p w
      using Some x that by (cases c1; cases c2; auto split: if_splits dest: ver_after_asym)
    obtain k where k: "get_valid_checkpoint sbi sb d = Some (0, Some (k, cur, v))"
      "\<forall>i < F2FS_BLKSIZE. k i = page i" using pick Some x by auto
    obtain tail where tl: "blk_read d (pack_start sb cur) = Some page" "verify_checksum_chksum page = 0"
      "blk_read d (unat (of_nat (pack_start sb cur) + (cp_pack_total_block_count page - 1))) = Some tail"
      "verify_checksum_chksum tail = 0" "cp_checkpoint_ver page = v" "cp_checkpoint_ver tail = v"
      using sound [of cur page v] cur c by auto
    have "\<forall>q w. q \<in> {1, 2} \<and> pack_valid sbi sb d q w \<longrightarrow> \<not> ver_after w v"
      using valid newest by blast
    with k tl cur show ?thesis 
      by (intro disjI1 exI [of _ k] exI [of _ cur] exI [of _ v] exI [of _ page] exI [of _ tail]) auto
  qed
qed

text \<open>Property C1. Mounting picks a sound and newest checkpoint: on success the pack named by
  \<open>cur_cp\<close> has valid checksums at its head and its tail, both with the version returned, its
  head is what is loaded, and no other valid pack has a later version; mounting fails
  with \<open>-EINVAL\<close> exactly when neither pack validates.\<close>

theorem get_valid_checkpoint_newest:
  assumes "packs_on_disk sb d" "blocks_per_seg sbi = 512"
  shows "(\<exists>ckpt cur v page tail. get_valid_checkpoint sbi sb d = Some (0, Some (ckpt, cur, v)) \<and>
            cur \<in> {1, 2} \<and>
            blk_read d (pack_start sb cur) = Some page \<and> verify_checksum_chksum page = 0 \<and>
            blk_read d (unat (of_nat (pack_start sb cur) + (cp_pack_total_block_count page - 1))) = Some tail \<and>
            verify_checksum_chksum tail = 0 \<and>
            cp_checkpoint_ver page = v \<and> cp_checkpoint_ver tail = v \<and>
            (\<forall>i < F2FS_BLKSIZE. ckpt i = page i) \<and>
            (\<forall>q w. q \<in> {1, 2} \<and> pack_valid sbi sb d q w \<longrightarrow> \<not> ver_after w v)) \<or>
         (get_valid_checkpoint sbi sb d = Some (- EINVAL, None) \<and>
            (\<forall>q w. q \<in> {1, 2} \<longrightarrow> \<not> pack_valid sbi sb d q w))"
  using assms by (rule get_valid_checkpoint_spec)


text \<open>A checkpoint block with its checksum, and a disk with one pack, for concrete instances.\<close>

definition seal_cp :: "buf \<Rightarrow> buf" where
  "seal_cp cp = put_le32 (unat (cp_checksum_offset cp)) (f2fs_checkpoint_chksum cp) cp"

lemma verify_seal_cp:
  assumes "192 \<le> unat (cp_checksum_offset cp)" "unat (cp_checksum_offset cp) \<le> 4092"
  shows "verify_checksum_chksum (seal_cp cp) = 0"
proof -
  have o: "cp_checksum_offset (seal_cp cp) = cp_checksum_offset cp"
    using assms(1) by (simp add: seal_cp_def cp_checksum_offset_def le32_at_put_le32)
  have "f2fs_checkpoint_chksum (seal_cp cp) = f2fs_checkpoint_chksum cp"
    unfolding seal_cp_def using assms(1) by (intro f2fs_checkpoint_chksum_ignores_field) auto
  moreover have "le32_at (seal_cp cp) (unat (cp_checksum_offset cp)) = f2fs_checkpoint_chksum cp"
    by (simp add: seal_cp_def)
  ultimately show ?thesis using assms
    by (simp add: verify_checksum_chksum_def Let_def o word_less_nat_alt CP_MIN_CHKSUM_OFFSET_def
        CP_CHKSUM_OFFSET_def)
qed

definition demo_cp :: "u64 \<Rightarrow> buf" where
  "demo_cp v = seal_cp (put_le32 164 4092 (put_le32 136 1 (put_le64 0 v zero_buf)))"

definition demo_sbi :: "sb_info" where
  "demo_sbi = init_sb_fields (mk_sb (sample_fields 27 2 3584 4096))"

definition demo_disk :: "u64 \<Rightarrow> u64 \<Rightarrow> disk" where
  "demo_disk v1 v2 =
     \<lparr>blocks = (\<lambda>_. zero_buf)(512 := demo_cp v1, 1024 := demo_cp v2), last_blk = 99999, disk_ro = False\<rparr>"

lemma demo_cp_fields:
  "cp_checkpoint_ver (demo_cp v) = v" "cp_pack_total_block_count (demo_cp v) = 1"
  "verify_checksum_chksum (demo_cp v) = 0"
  by (simp_all add: demo_cp_def verify_seal_cp cp_checksum_offset_def buf_simps)
     (simp_all add: cp_fields seal_cp_def cp_checksum_offset_def buf_simps)

lemma demo_packs:
  "packs_on_disk (mk_sb (sample_fields 27 2 3584 4096)) (demo_disk v1 v2)"
  "blocks_per_seg demo_sbi = 512"
  by (simp_all add: packs_on_disk_def sample_sb demo_disk_def demo_sbi_def init_sb_fields_def Let_def)

lemma demo_pack_valid:
  "pack_valid demo_sbi (mk_sb (sample_fields 27 2 3584 4096)) (demo_disk v1 v2) 1 v1"
  "pack_valid demo_sbi (mk_sb (sample_fields 27 2 3584 4096)) (demo_disk v1 v2) 2 v2"
proof -
  have r: "get_checkpoint_version (demo_disk v1 v2) 512 = Some (Some (demo_cp v1))"
    "get_checkpoint_version (demo_disk v1 v2) 1024 = Some (Some (demo_cp v2))"
    by (simp_all add: get_checkpoint_version_def blk_read_def demo_disk_def demo_cp_fields)
  show "pack_valid demo_sbi (mk_sb (sample_fields 27 2 3584 4096)) (demo_disk v1 v2) 1 v1"
    unfolding pack_valid_def
    by (rule exI [of _ "demo_cp v1"])
       (simp add: validate_checkpoint_iff r pack_start_def sample_sb demo_cp_fields demo_packs(2))
  show "pack_valid demo_sbi (mk_sb (sample_fields 27 2 3584 4096)) (demo_disk v1 v2) 2 v2"
    unfolding pack_valid_def
    by (rule exI [of _ "demo_cp v2"])
       (simp add: validate_checkpoint_iff r pack_start_def sample_sb demo_cp_fields demo_packs(2))
qed

theorem get_valid_checkpoint_newest_witness:
  "\<exists>ckpt cur v. get_valid_checkpoint demo_sbi (mk_sb (sample_fields 27 2 3584 4096)) (demo_disk 7 8) =
     Some (0, Some (ckpt, cur, v)) \<and> \<not> ver_after 8 v"
proof -
  have "\<exists>ckpt cur v. get_valid_checkpoint demo_sbi (mk_sb (sample_fields 27 2 3584 4096)) (demo_disk 7 8) =
     Some (0, Some (ckpt, cur, v)) \<and>
     (\<forall>q w. q \<in> {1, 2} \<and> pack_valid demo_sbi (mk_sb (sample_fields 27 2 3584 4096)) (demo_disk 7 8) q w \<longrightarrow>
        \<not> ver_after w v)"
    using get_valid_checkpoint_newest [OF demo_packs(1) [of 7 8] demo_packs(2)] demo_pack_valid(2) [of 7 8]
    by (elim disjE) (blast+)
  with demo_pack_valid(2) [of 7 8] show ?thesis by blast
qed


subsection \<open>Version bitmaps\<close>



subsection \<open>An accepted checkpoint\<close>



end
