(* ===== verification/Meta.thy ===== *)
theory Meta
  imports Ckpt Bitops
begin

text \<open>
  The mounted state the tools work on (\<open>struct f2fs_sb_info\<close>, \<open>f2fs_nm_info\<close>,
  \<open>f2fs_sm_info\<close>, \<open>sit_info\<close>, \<open>curseg_info\<close>, \<open>seg_entry\<close> of \<open>fsck/f2fs.h\<close>) and the
  on-disk entries of the NAT, the SIT and the summary blocks (\<open>include/f2fs_fs.h\<close>), read
  from and written to byte buffers at the offsets of the packed structs.

  Block addresses, segment and node numbers are natural numbers here: a super block that
  passed its checks has 512 blocks per segment and areas below 2 ^ 32 blocks. Where an
  \<open>ASSERT\<close> fails the process ends, which is \<open>None\<close>; \<open>ASSERT_MSG\<close> only sets \<open>c.bug_on\<close>.
\<close>

subsection \<open>NAT entries\<close>

record nat_entry =
  ne_version :: u8
  ne_ino :: u32
  ne_block_addr :: u32

definition get_nat_ent :: "buf \<Rightarrow> nat \<Rightarrow> nat_entry" where
  "get_nat_ent b off =
     \<lparr>ne_version = b off, ne_ino = le32_at b (off + 1), ne_block_addr = le32_at b (off + 5)\<rparr>"

definition put_nat_ent :: "nat \<Rightarrow> nat_entry \<Rightarrow> buf \<Rightarrow> buf" where
  "put_nat_ent off e b =
     put_le32 (off + 5) (ne_block_addr e) (put_le32 (off + 1) (ne_ino e) (b(off := ne_version e)))"

definition null_nat_entry :: nat_entry where
  "null_nat_entry = \<lparr>ne_version = 0, ne_ino = 0, ne_block_addr = 0\<rparr>"

text \<open>Entry \<open>i\<close> of a NAT block (\<open>struct f2fs_nat_block\<close>).\<close>

definition nat_blk_entry :: "buf \<Rightarrow> nat \<Rightarrow> nat_entry" where
  "nat_blk_entry b i = get_nat_ent b (9 * i)"

definition set_nat_blk_entry :: "nat \<Rightarrow> nat_entry \<Rightarrow> buf \<Rightarrow> buf" where
  "set_nat_blk_entry i e b = put_nat_ent (9 * i) e b"

subsection \<open>SIT entries\<close>

text \<open>Entry \<open>i\<close> of a SIT block (\<open>struct f2fs_sit_block\<close>) starts at byte \<open>74 * i\<close>.\<close>

definition SIT_ENTRY_PER_BLOCK :: nat where "SIT_ENTRY_PER_BLOCK = 55"
definition SIT_VBLOCK_MAP_SIZE :: nat where "SIT_VBLOCK_MAP_SIZE = 64"
definition SIT_VBLOCKS_SHIFT :: nat where "SIT_VBLOCKS_SHIFT = 10"
definition NO_CHECK_TYPE :: nat where "NO_CHECK_TYPE = 6"

record sit_entry =
  sit_vblocks :: u16
  sit_valid_map :: buf
  sit_mtime :: u64

definition get_sit_ent :: "buf \<Rightarrow> nat \<Rightarrow> sit_entry" where
  "get_sit_ent b off =
     \<lparr>sit_vblocks = le16_at b off, sit_valid_map = put_bytes 0 SIT_VBLOCK_MAP_SIZE (at_off (off + 2) b) zero_buf,
      sit_mtime = le64_at b (off + 66)\<rparr>"

definition put_sit_ent :: "nat \<Rightarrow> sit_entry \<Rightarrow> buf \<Rightarrow> buf" where
  "put_sit_ent off e b =
     put_le64 (off + 66) (sit_mtime e)
       (put_bytes (off + 2) SIT_VBLOCK_MAP_SIZE (sit_valid_map e) (put_le16 off (sit_vblocks e) b))"

definition sit_blk_entry :: "buf \<Rightarrow> nat \<Rightarrow> sit_entry" where
  "sit_blk_entry b i = get_sit_ent b (74 * i)"

definition set_sit_blk_entry :: "nat \<Rightarrow> sit_entry \<Rightarrow> buf \<Rightarrow> buf" where
  "set_sit_blk_entry i e b = put_sit_ent (74 * i) e b"

definition GET_SIT_VBLOCKS :: "sit_entry \<Rightarrow> nat" where
  "GET_SIT_VBLOCKS e = unat (sit_vblocks e AND 0x3ff)"

definition GET_SIT_TYPE :: "sit_entry \<Rightarrow> nat" where
  "GET_SIT_TYPE e = unat (drop_bit SIT_VBLOCKS_SHIFT (sit_vblocks e AND NOT 0x3ff))"

definition mk_vblocks :: "nat \<Rightarrow> nat \<Rightarrow> u16" where
  "mk_vblocks type valid_blocks = push_bit SIT_VBLOCKS_SHIFT (of_nat type) OR of_nat valid_blocks"

subsection \<open>Summary blocks\<close>

record summary =
  sum_nid :: u32
  sum_version :: u8
  sum_ofs_in_node :: u16

definition get_sum_ent :: "buf \<Rightarrow> nat \<Rightarrow> summary" where
  "get_sum_ent b i =
     \<lparr>sum_nid = le32_at b (7 * i), sum_version = b (7 * i + 4), sum_ofs_in_node = le16_at b (7 * i + 5)\<rparr>"

definition put_sum_ent :: "nat \<Rightarrow> summary \<Rightarrow> buf \<Rightarrow> buf" where
  "put_sum_ent i s b =
     put_le16 (7 * i + 5) (sum_ofs_in_node s)
       ((put_le32 (7 * i) (sum_nid s) b)(7 * i + 4 := sum_version s))"

definition SUM_JOURNAL_OFFSET :: nat where "SUM_JOURNAL_OFFSET = 3584"
definition NAT_JOURNAL_ENTRIES :: nat where "NAT_JOURNAL_ENTRIES = 38"
definition SIT_JOURNAL_ENTRIES :: nat where "SIT_JOURNAL_ENTRIES = 6"
definition SUM_FOOTER_OFFSET :: nat where "SUM_FOOTER_OFFSET = 4091"
definition SUM_TYPE_NODE :: u8 where "SUM_TYPE_NODE = 1"
definition SUM_TYPE_DATA :: u8 where "SUM_TYPE_DATA = 0"

text \<open>The journal of a summary block: \<open>n_nats\<close> and \<open>n_sits\<close> share a field.\<close>

definition jnl_count :: "buf \<Rightarrow> nat" where
  "jnl_count sm = unat (le16_at sm SUM_JOURNAL_OFFSET)"

definition set_jnl_count :: "nat \<Rightarrow> buf \<Rightarrow> buf" where
  "set_jnl_count n sm = put_le16 SUM_JOURNAL_OFFSET (of_nat n) sm"

definition nid_in_journal :: "buf \<Rightarrow> nat \<Rightarrow> nat" where
  "nid_in_journal sm i = unat (le32_at sm (SUM_JOURNAL_OFFSET + 2 + 13 * i))"

definition nat_in_journal :: "buf \<Rightarrow> nat \<Rightarrow> nat_entry" where
  "nat_in_journal sm i = get_nat_ent sm (SUM_JOURNAL_OFFSET + 2 + 13 * i + 4)"

definition set_nat_in_journal :: "nat \<Rightarrow> nat_entry \<Rightarrow> buf \<Rightarrow> buf" where
  "set_nat_in_journal i e sm = put_nat_ent (SUM_JOURNAL_OFFSET + 2 + 13 * i + 4) e sm"

definition segno_in_journal :: "buf \<Rightarrow> nat \<Rightarrow> nat" where
  "segno_in_journal sm i = unat (le32_at sm (SUM_JOURNAL_OFFSET + 2 + 78 * i))"

definition sit_in_journal :: "buf \<Rightarrow> nat \<Rightarrow> sit_entry" where
  "sit_in_journal sm i = get_sit_ent sm (SUM_JOURNAL_OFFSET + 2 + 78 * i + 4)"

definition sum_footer_type :: "buf \<Rightarrow> u8" where
  "sum_footer_type sm = sm SUM_FOOTER_OFFSET"

subsection \<open>Mounted state\<close>

record seg_entry =
  valid_blocks :: nat
  cur_valid_map :: buf
  seg_type :: nat
  orig_type :: nat
  ckpt_valid_blocks :: nat
  ckpt_valid_map :: buf
  ckpt_type :: nat
  seg_mtime :: u64
  seg_dirty :: bool

definition LFS :: u8 where "LFS = 0"
definition SSR :: u8 where "SSR = 1"

record curseg_info =
  sum_blk :: buf
  alloc_type :: u8
  cs_segno :: nat
  next_blkoff :: nat

datatype tool = MKFS | FSCK | DUMP | DEFRAG | RESIZE | SLOAD | LABEL

record hard_link_node =
  hl_nid :: nat
  hl_links :: nat
  hl_actual_links :: nat

record chk_result =
  checked_node_cnt :: nat
  valid_blk_cnt :: nat
  valid_nat_entry_cnt :: nat
  valid_node_cnt :: nat
  valid_inode_cnt :: nat
  multi_hard_link_files :: nat
  sit_valid_blocks :: nat
  sit_free_segs :: nat

record mount =
  raw_super :: buf
  ckpt :: buf
  cur_cp :: nat
  cp_backuped :: bool
  dsk :: disk
  func :: tool
  zoned_hm :: bool
  m_fix_on :: bool
  m_bug_on :: bool
  m_bug_nat_bits :: bool
  m_alloc_failed :: bool
  m_feature :: u32
  m_chksum_seed :: u32
  user_block_count :: nat
  total_valid_block_count :: nat
  total_valid_node_count :: nat
  total_valid_inode_count :: nat
  total_node_count :: nat
  free_segments :: nat
  seg_manager_done :: bool
  nat_blkaddr :: nat
  nat_blocks :: nat
  max_nid :: nat
  nat_bitmap :: buf
  nid_bitmap :: buf
  seg0_blkaddr :: nat
  main_blkaddr :: nat
  ssa_blkaddr :: nat
  segment_count :: nat
  main_segments :: nat
  reserved_segments :: nat
  m_segs_per_sec :: nat
  sit_base_addr :: nat
  sit_blocks :: nat
  sit_bitmap :: buf
  sentries :: "nat \<Rightarrow> seg_entry"
  cursegs :: "nat \<Rightarrow> curseg_info"
  fsck_entries :: "nat \<Rightarrow> nat_entry"
  nr_nat_entries :: nat
  nat_valid_inode_cnt :: nat
  chk :: chk_result
  hard_link_list :: "hard_link_node list"
  main_area_bitmap :: buf
  nat_area_bitmap :: buf
  sit_area_bitmap :: buf

definition CURSEG_HOT_DATA :: nat where "CURSEG_HOT_DATA = 0"
definition CURSEG_COLD_DATA :: nat where "CURSEG_COLD_DATA = 2"
definition CURSEG_HOT_NODE :: nat where "CURSEG_HOT_NODE = 3"

definition BLOCKS_PER_SEG :: nat where "BLOCKS_PER_SEG = 512"

definition CP_UMOUNT_FLAG :: u32 where "CP_UMOUNT_FLAG = 0x1"

definition is_set_ckpt_flags :: "buf \<Rightarrow> u32 \<Rightarrow> bool" where
  "is_set_ckpt_flags cp f \<longleftrightarrow> cp_ckpt_flags cp AND f \<noteq> 0"

definition need_fsync_data_record :: "mount \<Rightarrow> bool" where
  "need_fsync_data_record m \<longleftrightarrow> \<not> is_set_ckpt_flags (ckpt m) CP_UMOUNT_FLAG \<or> zoned_hm m"

definition IS_DATASEG :: "nat \<Rightarrow> bool" where "IS_DATASEG t \<longleftrightarrow> t < 3"
definition IS_NODESEG :: "nat \<Rightarrow> bool" where "IS_NODESEG t \<longleftrightarrow> 3 \<le> t \<and> t < 6"

definition START_BLOCK :: "mount \<Rightarrow> nat \<Rightarrow> nat" where
  "START_BLOCK m segno = main_blkaddr m + segno * BLOCKS_PER_SEG"

definition GET_SUM_BLKADDR :: "mount \<Rightarrow> nat \<Rightarrow> nat" where
  "GET_SUM_BLKADDR m segno = ssa_blkaddr m + segno"

definition BLKOFF_FROM_MAIN :: "mount \<Rightarrow> nat \<Rightarrow> nat option" where
  "BLKOFF_FROM_MAIN m blk_addr = (if blk_addr \<ge> main_blkaddr m then Some (blk_addr - main_blkaddr m) else None)"

definition GET_SEGNO :: "mount \<Rightarrow> nat \<Rightarrow> nat option" where
  "GET_SEGNO m blk_addr = map_option (\<lambda>o'. o' div BLOCKS_PER_SEG) (BLKOFF_FROM_MAIN m blk_addr)"

definition OFFSET_IN_SEG :: "mount \<Rightarrow> nat \<Rightarrow> nat option" where
  "OFFSET_IN_SEG m blk_addr = map_option (\<lambda>o'. o' mod BLOCKS_PER_SEG) (BLKOFF_FROM_MAIN m blk_addr)"

definition IS_VALID_NID :: "mount \<Rightarrow> u32 \<Rightarrow> bool" where
  "IS_VALID_NID m nid \<longleftrightarrow>
     nid < push_bit 8 (of_nat NAT_ENTRY_PER_BLOCK * sb_segment_count_nat (raw_super m))"

definition IS_VALID_BLK_ADDR :: "mount \<Rightarrow> u32 \<Rightarrow> bool" where
  "IS_VALID_BLK_ADDR m addr \<longleftrightarrow>
     (if addr = 0 \<or> addr = - 1 then True
      else \<not> ((ucast addr :: u64) \<ge> sb_block_count (raw_super m) \<or> unat addr < main_blkaddr m))"

definition IS_CUR_SEGNO :: "mount \<Rightarrow> nat \<Rightarrow> bool" where
  "IS_CUR_SEGNO m segno \<longleftrightarrow> (\<exists>i \<in> set [0..<NO_CHECK_TYPE]. segno = cs_segno (cursegs m i))"

text \<open>Reading and writing a block of the volume, an error ending the process.\<close>

definition rd_blk :: "mount \<Rightarrow> nat \<Rightarrow> buf option" where
  "rd_blk m a = blk_read (dsk m) a"

definition wr_blk :: "nat \<Rightarrow> buf \<Rightarrow> mount \<Rightarrow> mount option" where
  "wr_blk a b m = map_option (\<lambda>d. m\<lparr>dsk := d\<rparr>) (blk_write a b (dsk m))"

definition upd_sum_blk :: "nat \<Rightarrow> (buf \<Rightarrow> buf) \<Rightarrow> mount \<Rightarrow> mount" where
  "upd_sum_blk t f m =
     m\<lparr>cursegs := (cursegs m)(t := (cursegs m t)\<lparr>sum_blk := f (sum_blk (cursegs m t))\<rparr>)\<rparr>"

subsection \<open>Entries of a block\<close>

lemma get_put_nat_ent [simp]: "get_nat_ent (put_nat_ent off e b) off = e"
  by (simp add: get_nat_ent_def put_nat_ent_def buf_simps)

lemma get_put_nat_ent_other:
  "off + 9 \<le> o' \<or> o' + 9 \<le> off \<Longrightarrow> get_nat_ent (put_nat_ent off e b) o' = get_nat_ent b o'"
  by (auto simp: get_nat_ent_def put_nat_ent_def buf_simps intro!: le32_at_cong)

lemma nat_blk_entry_set:
  "nat_blk_entry (set_nat_blk_entry i e b) j = (if i = j then e else nat_blk_entry b j)"
proof (cases "i = j")
  case False
  then have "9 * i + 9 \<le> 9 * j \<or> 9 * j + 9 \<le> 9 * i" by linarith
  with False show ?thesis by (simp add: nat_blk_entry_def set_nat_blk_entry_def get_put_nat_ent_other)
qed (simp add: nat_blk_entry_def set_nat_blk_entry_def)

lemma put_bytes_twice [simp]: "put_bytes off n s (put_bytes off n t b) = put_bytes off n s b"
  by (rule ext) (auto simp: put_bytes_def)

lemma le32_at_upd [buf_simps]: "k < off \<or> off + 4 \<le> k \<Longrightarrow> le32_at (b(k := v)) off = le32_at b off"
  by (rule le32_at_cong) auto

lemma le16_at_upd [buf_simps]: "k < off \<or> off + 2 \<le> k \<Longrightarrow> le16_at (b(k := v)) off = le16_at b off"
  by (rule le16_at_cong) auto

lemma get_put_sum_ent [simp]: "get_sum_ent (put_sum_ent i s b) i = s"
  by (simp add: get_sum_ent_def put_sum_ent_def buf_simps)

lemma get_put_sum_ent_other: "i \<noteq> j \<Longrightarrow> get_sum_ent (put_sum_ent i s b) j = get_sum_ent b j"
proof -
  assume "i \<noteq> j"
  then have "7 * i + 7 \<le> 7 * j \<or> 7 * j + 7 \<le> 7 * i" by linarith
  then show ?thesis by (elim disjE) (simp_all add: get_sum_ent_def put_sum_ent_def buf_simps)
qed

text \<open>A SIT entry read from a block has nothing beyond the 64 bytes of its map.\<close>

definition sit_ent_ok :: "sit_entry \<Rightarrow> bool" where
  "sit_ent_ok e \<longleftrightarrow> (\<forall>i \<ge> SIT_VBLOCK_MAP_SIZE. sit_valid_map e i = 0)"

lemma get_sit_ent_ok [simp]: "sit_ent_ok (get_sit_ent b off)"
  by (simp add: sit_ent_ok_def get_sit_ent_def put_bytes_def zero_buf_def)

lemma le_at_put_bytes [buf_simps]:
  "k + 2 \<le> off \<or> off + n \<le> k \<Longrightarrow> le16_at (put_bytes off n s b) k = le16_at b k"
  "k + 4 \<le> off \<or> off + n \<le> k \<Longrightarrow> le32_at (put_bytes off n s b) k = le32_at b k"
  "k + 8 \<le> off \<or> off + n \<le> k \<Longrightarrow> le64_at (put_bytes off n s b) k = le64_at b k"
  by (rule le16_at_cong le32_at_cong le64_at_cong; auto simp: put_bytes_def)+

lemma get_put_sit_ent:
  assumes "sit_ent_ok e"
  shows "get_sit_ent (put_sit_ent off e b) off = e"
proof -
  have "put_bytes 0 64 (at_off (off + 2) (put_sit_ent off e b)) zero_buf = sit_valid_map e"
  proof
    fix i
    show "put_bytes 0 64 (at_off (off + 2) (put_sit_ent off e b)) zero_buf i = sit_valid_map e i"
      using assms by (cases "i < 64")
        (simp_all add: put_bytes_in put_bytes_out at_off_apply put_sit_ent_def put_le64_out SIT_VBLOCK_MAP_SIZE_def
           sit_ent_ok_def zero_buf_def)
  qed
  moreover have "le16_at (put_sit_ent off e b) off = sit_vblocks e" "le64_at (put_sit_ent off e b) (off + 66) = sit_mtime e"
    by (simp_all add: put_sit_ent_def SIT_VBLOCK_MAP_SIZE_def buf_simps)
  ultimately show ?thesis by (simp add: get_sit_ent_def SIT_VBLOCK_MAP_SIZE_def)
qed

lemma put_sit_ent_out: "i < off \<or> off + 74 \<le> i \<Longrightarrow> put_sit_ent off e b i = b i"
  by (auto simp: put_sit_ent_def SIT_VBLOCK_MAP_SIZE_def put_le64_out put_bytes_out put_le16_out)

lemma get_put_sit_ent_other:
  assumes "off + 74 \<le> o' \<or> o' + 74 \<le> off"
  shows "get_sit_ent (put_sit_ent off e b) o' = get_sit_ent b o'"
proof -
  have out: "put_sit_ent off e b i = b i" if "o' \<le> i" "i < o' + 74" for i
    using assms that by (intro put_sit_ent_out) auto
  have "le16_at (put_sit_ent off e b) o' = le16_at b o'" "le64_at (put_sit_ent off e b) (o' + 66) = le64_at b (o' + 66)"
    by (rule le16_at_cong le64_at_cong; simp add: out)+
  moreover have "put_bytes 0 64 (at_off (o' + 2) (put_sit_ent off e b)) zero_buf = put_bytes 0 64 (at_off (o' + 2) b) zero_buf"
    by (rule ext) (simp add: put_bytes_def at_off_apply out)
  ultimately show ?thesis by (simp add: get_sit_ent_def SIT_VBLOCK_MAP_SIZE_def)
qed

lemma sit_blk_entry_set:
  "sit_ent_ok e \<Longrightarrow> sit_blk_entry (set_sit_blk_entry i e b) j = (if i = j then e else sit_blk_entry b j)"
proof (cases "i = j")
  case False
  then have "74 * i + 74 \<le> 74 * j \<or> 74 * j + 74 \<le> 74 * i" by linarith
  with False show ?thesis by (simp add: sit_blk_entry_def set_sit_blk_entry_def get_put_sit_ent_other)
qed (simp add: sit_blk_entry_def set_sit_blk_entry_def get_put_sit_ent)

subsection \<open>The contract of an on-disk table\<close>

text \<open>The NAT and the SIT are tables spread over blocks of the volume. What their users rely
  on: storing an entry succeeds in the range of the table, changes that entry and no other, and
  keeps the invariant under which this is so.\<close>

locale disk_table =
  fixes rd :: "'s \<Rightarrow> nat \<Rightarrow> 'e"
    and wr :: "nat \<Rightarrow> 'e \<Rightarrow> 's \<Rightarrow> 's option"
    and inv :: "'s \<Rightarrow> bool"
    and in_range :: "'s \<Rightarrow> nat \<Rightarrow> bool"
    and ent_ok :: "'e \<Rightarrow> bool"
  assumes wr_ok: "\<lbrakk>inv s; in_range s k; ent_ok e\<rbrakk> \<Longrightarrow>
    \<exists>s'. wr k e s = Some s' \<and> inv s' \<and> in_range s' = in_range s \<and>
      (\<forall>x. in_range s x \<longrightarrow> rd s' x = ((rd s)(k := e)) x)"
begin

primrec wr_list :: "(nat \<times> 'e) list \<Rightarrow> 's \<Rightarrow> 's option" where
  "wr_list [] s = Some s"
| "wr_list (p # ps) s = Option.bind (wr (fst p) (snd p) s) (wr_list ps)"

lemma wr_list_ok:
  "\<lbrakk>inv s; \<And>p. p \<in> set ps \<Longrightarrow> in_range s (fst p) \<and> ent_ok (snd p)\<rbrakk> \<Longrightarrow>
     \<exists>s'. wr_list ps s = Some s' \<and> inv s' \<and> in_range s' = in_range s \<and>
       (\<forall>k. in_range s k \<longrightarrow> rd s' k = (case map_of (rev ps) k of Some e \<Rightarrow> e | None \<Rightarrow> rd s k))"
proof (induction ps arbitrary: s)
  case (Cons p ps)
  from wr_ok [of s "fst p" "snd p"] Cons.prems obtain t where t: "wr (fst p) (snd p) s = Some t" "inv t"
    "in_range t = in_range s" "\<forall>x. in_range s x \<longrightarrow> rd t x = ((rd s)(fst p := snd p)) x" by auto
  from Cons.IH [of t] Cons.prems t obtain s' where s': "wr_list ps t = Some s'" "inv s'"
    "in_range s' = in_range t"
    "\<forall>k. in_range t k \<longrightarrow> rd s' k = (case map_of (rev ps) k of Some e \<Rightarrow> e | None \<Rightarrow> rd t k)" by auto
  have "rd s' k = (case map_of (rev (p # ps)) k of Some e \<Rightarrow> e | None \<Rightarrow> rd s k)" if "in_range s k" for k
    using s'(4) t(3,4) that by (auto simp: map_add_def split: option.splits)
  with t s' show ?case by auto
qed auto

lemma wr_list_distinct:
  assumes "inv s" "\<And>p. p \<in> set ps \<Longrightarrow> in_range s (fst p) \<and> ent_ok (snd p)" "distinct (map fst ps)"
  shows "\<exists>s'. wr_list ps s = Some s' \<and> inv s' \<and> in_range s' = in_range s \<and>
       (\<forall>k. in_range s k \<longrightarrow> rd s' k = (case map_of ps k of Some e \<Rightarrow> e | None \<Rightarrow> rd s k))"
proof -
  have "map_of (rev ps) = map_of ps"
  proof (rule ext)
    fix k
    have d: "distinct (map fst (rev ps))" using assms(3) by (metis distinct_rev rev_map)
    show "map_of (rev ps) k = map_of ps k"
    proof (cases "map_of ps k")
      case None
      then have "map_of (rev ps) k = None" by (metis map_of_eq_None_iff set_rev)
      with None show ?thesis by simp
    next
      case (Some e)
      then have "(k, e) \<in> set (rev ps)" by (auto dest: map_of_SomeD)
      with Some d show ?thesis by simp
    qed
  qed
  with wr_list_ok [of s ps] assms(1,2) show ?thesis by simp
qed

end

subsection \<open>A small mounted image\<close>

text \<open>An empty image of 30 segments, with one entry in the NAT journal: node 7 at block
  \<open>4100\<close>. The witnesses of the properties run on it.\<close>

definition demo_journal :: buf where
  "demo_journal = put_le16 SUM_JOURNAL_OFFSET 1
     (put_nat_ent (SUM_JOURNAL_OFFSET + 6) \<lparr>ne_version = 0, ne_ino = 7, ne_block_addr = 4100\<rparr>
       (put_le32 (SUM_JOURNAL_OFFSET + 2) 7 zero_buf))"

definition demo_seg :: seg_entry where
  "demo_seg = \<lparr>valid_blocks = 0, cur_valid_map = zero_buf, seg_type = 0, orig_type = 0, ckpt_valid_blocks = 0,
     ckpt_valid_map = zero_buf, ckpt_type = 0, seg_mtime = 0, seg_dirty = False\<rparr>"

definition demo_mount :: "buf \<Rightarrow> mount" where
  "demo_mount jnl =
     \<lparr>raw_super = mk_sb (sample_fields 30 2 3584 4096), ckpt = zero_buf, cur_cp = 1, cp_backuped = False,
      dsk = \<lparr>blocks = (\<lambda>_. zero_buf), last_blk = 99999, disk_ro = False\<rparr>, func = FSCK, zoned_hm = False,
      m_fix_on = False, m_bug_on = False, m_bug_nat_bits = False, m_alloc_failed = False,
      m_feature = 0, m_chksum_seed = 0, user_block_count = 5000, total_valid_block_count = 10,
      total_valid_node_count = 5, total_valid_inode_count = 5, total_node_count = 5000, free_segments = 14,
      seg_manager_done = False,
      nat_blkaddr = 2560, nat_blocks = 512, max_nid = 232960, nat_bitmap = zero_buf,
      nid_bitmap = snd (f2fs_set_bit 0 zero_buf), seg0_blkaddr = 512, main_blkaddr = 4096, ssa_blkaddr = 3584,
      segment_count = 27, main_segments = 20, reserved_segments = 2, m_segs_per_sec = 1, sit_base_addr = 1536,
      sit_blocks = 512, sit_bitmap = zero_buf, sentries = (\<lambda>_. demo_seg),
      cursegs = (\<lambda>t. \<lparr>sum_blk = jnl, alloc_type = LFS, cs_segno = t, next_blkoff = 0\<rparr>),
      fsck_entries = (\<lambda>_. \<lparr>ne_version = 0, ne_ino = 0, ne_block_addr = 0\<rparr>), nr_nat_entries = 232960,
      nat_valid_inode_cnt = 0,
      chk = \<lparr>checked_node_cnt = 0, valid_blk_cnt = 0, valid_nat_entry_cnt = 0, valid_node_cnt = 0,
        valid_inode_cnt = 0, multi_hard_link_files = 0, sit_valid_blocks = 0, sit_free_segs = 0\<rparr>,
      hard_link_list = [], main_area_bitmap = zero_buf, nat_area_bitmap = zero_buf, sit_area_bitmap = zero_buf\<rparr>"

lemma demo_journal_sel:
  "jnl_count demo_journal = 1" "nid_in_journal demo_journal 0 = 7"
  "nat_in_journal demo_journal 0 = \<lparr>ne_version = 0, ne_ino = 7, ne_block_addr = 4100\<rparr>"
  by (simp_all add: demo_journal_def jnl_count_def nid_in_journal_def nat_in_journal_def get_nat_ent_def
      put_nat_ent_def SUM_JOURNAL_OFFSET_def buf_simps)

end
