(* ===== verification/NatMgr.thy ===== *)
theory NatMgr
  imports Meta
begin

text \<open>
  The node address table of \<open>fsck/mount.c\<close>: where a NAT block lives
  (\<open>current_nat_addr\<close>), the lookup through the journal kept in the summary block of the hot data
  segment (\<open>lookup_nat_in_journal\<close>, \<open>get_nat_entry\<close>, \<open>get_node_info\<close>), the updates
  (\<open>update_nat_blkaddr\<close>, \<open>nullify_nat_entry\<close>, \<open>flush_nat_journal_entries\<close>), the bitmap of
  used node numbers, and the NAT bits kept next to a checkpoint.
\<close>

subsection \<open>Lookup\<close>

definition NAT_BLOCK_OFFSET :: "nat \<Rightarrow> nat" where
  "NAT_BLOCK_OFFSET nid = nid div NAT_ENTRY_PER_BLOCK"

definition current_nat_addr :: "mount \<Rightarrow> nat \<Rightarrow> nat" where
  "current_nat_addr m start =
     (let block_off = NAT_BLOCK_OFFSET start;
          seg_off = block_off div BLOCKS_PER_SEG;
          block_addr = nat_blkaddr m + seg_off * BLOCKS_PER_SEG * 2 + block_off mod BLOCKS_PER_SEG
      in if f2fs_test_bit block_off (nat_bitmap m) then block_addr + BLOCKS_PER_SEG else block_addr)"

definition nat_journal :: "mount \<Rightarrow> buf" where
  "nat_journal m = sum_blk (cursegs m CURSEG_HOT_DATA)"

fun find_nat_in_journal :: "buf \<Rightarrow> nat \<Rightarrow> nat \<Rightarrow> nat \<Rightarrow> nat option" where
  "find_nat_in_journal jnl nid i 0 = None"
| "find_nat_in_journal jnl nid i (Suc k) =
     (if nid_in_journal jnl i = nid then Some i else find_nat_in_journal jnl nid (i + 1) k)"

definition lookup_nat_in_journal :: "mount \<Rightarrow> nat \<Rightarrow> (nat \<times> nat_entry) option" where
  "lookup_nat_in_journal m nid =
     map_option (\<lambda>i. (i, nat_in_journal (nat_journal m) i))
       (find_nat_in_journal (nat_journal m) nid 0 (jnl_count (nat_journal m)))"

definition get_nat_entry :: "mount \<Rightarrow> nat \<Rightarrow> nat_entry option" where
  "get_nat_entry m nid =
     (case lookup_nat_in_journal m nid of
        Some (i, raw_nat) \<Rightarrow> Some raw_nat
      | None \<Rightarrow> do {
          nat_block \<leftarrow> rd_blk m (current_nat_addr m nid);
          Some (nat_blk_entry nat_block (nid mod NAT_ENTRY_PER_BLOCK))
        })"

record node_info =
  ni_nid :: nat
  ni_ino :: u32
  ni_blk_addr :: u32
  ni_version :: u8

definition node_info_from_raw_nat :: "nat \<Rightarrow> nat_entry \<Rightarrow> node_info" where
  "node_info_from_raw_nat nid raw_nat =
     \<lparr>ni_nid = nid, ni_ino = ne_ino raw_nat, ni_blk_addr = ne_block_addr raw_nat,
      ni_version = ne_version raw_nat\<rparr>"

definition get_node_info :: "mount \<Rightarrow> nat \<Rightarrow> node_info option" where
  "get_node_info m nid =
     (let cached = node_info_from_raw_nat nid (fsck_entries m nid) in
      if func m = FSCK \<and> nr_nat_entries m \<noteq> 0 \<and> ni_blk_addr cached \<noteq> 0 then Some cached
      else map_option (node_info_from_raw_nat nid) (get_nat_entry m nid))"

subsection \<open>Updates\<close>

definition update_nat_blkaddr :: "mount \<Rightarrow> u32 \<Rightarrow> nat \<Rightarrow> u32 \<Rightarrow> mount option" where
  "update_nat_blkaddr m ino nid newaddr = do {
     let entry_off = nid mod NAT_ENTRY_PER_BLOCK;
     let block_addr = current_nat_addr m nid;
     nat_block \<leftarrow> rd_blk m block_addr;
     let e = nat_blk_entry nat_block entry_off;
     let e = (if ino \<noteq> 0 then e\<lparr>ne_ino := ino\<rparr> else e);
     let e = e\<lparr>ne_block_addr := newaddr\<rparr>;
     let nat_block = set_nat_blk_entry entry_off e nat_block;
     let m = (if func m = FSCK then m\<lparr>fsck_entries := (fsck_entries m)(nid := e)\<rparr> else m);
     wr_blk block_addr nat_block m
   }"

definition F2FS_NODE_INO :: "mount \<Rightarrow> nat" where
  "F2FS_NODE_INO m = unat (sb_node_ino (raw_super m))"

definition F2FS_META_INO :: "mount \<Rightarrow> nat" where
  "F2FS_META_INO m = unat (sb_meta_ino (raw_super m))"

definition nullify_nat_entry :: "mount \<Rightarrow> nat \<Rightarrow> mount option" where
  "nullify_nat_entry m nid =
     (case find_nat_in_journal (nat_journal m) nid 0 (jnl_count (nat_journal m)) of
        Some i \<Rightarrow> Some (upd_sum_blk CURSEG_HOT_DATA (set_nat_in_journal i null_nat_entry) m)
      | None \<Rightarrow> do {
          let entry_off = nid mod NAT_ENTRY_PER_BLOCK;
          let block_addr = current_nat_addr m nid;
          nat_block \<leftarrow> rd_blk m block_addr;
          let e = (if nid = F2FS_NODE_INO m \<or> nid = F2FS_META_INO m
                   then (nat_blk_entry nat_block entry_off)\<lparr>ne_block_addr := 1\<rparr>
                   else null_nat_entry);
          wr_blk block_addr (set_nat_blk_entry entry_off e nat_block) m
        })"

fun flush_nat_loop :: "mount \<Rightarrow> nat \<Rightarrow> nat \<Rightarrow> mount option" where
  "flush_nat_loop m i 0 = Some m"
| "flush_nat_loop m i (Suc k) = do {
     let nid = nid_in_journal (nat_journal m) i;
     let entry_off = nid mod NAT_ENTRY_PER_BLOCK;
     let block_addr = current_nat_addr m nid;
     nat_block \<leftarrow> rd_blk m block_addr;
     m \<leftarrow> wr_blk block_addr
            (set_nat_blk_entry entry_off (nat_in_journal (nat_journal m) i) nat_block) m;
     flush_nat_loop m (i + 1) k
   }"

definition flush_nat_journal_entries :: "mount \<Rightarrow> (nat \<times> mount) option" where
  "flush_nat_journal_entries m = do {
     let n = jnl_count (nat_journal m);
     m \<leftarrow> flush_nat_loop m 0 n;
     Some (n, upd_sum_blk CURSEG_HOT_DATA (set_jnl_count 0) m)
   }"

subsection \<open>Bitmap of node numbers in use\<close>

text \<open>The scan of the journal in \<open>f2fs_early_init_nid_bitmap\<close>: on an entry that is out of
  range the journal is cut there.\<close>

fun early_nid_loop :: "mount \<Rightarrow> nat \<Rightarrow> nat \<Rightarrow> mount" where
  "early_nid_loop m i 0 = m"
| "early_nid_loop m i (Suc k) =
     (let addr = ne_block_addr (nat_in_journal (nat_journal m) i);
          nid = le32_at (nat_journal m) (SUM_JOURNAL_OFFSET + 2 + 13 * i);
          cut = (upd_sum_blk CURSEG_HOT_DATA (set_jnl_count i) m)\<lparr>m_fix_on := True\<rparr>
      in if \<not> IS_VALID_BLK_ADDR m addr then cut
         else if \<not> IS_VALID_NID m nid then cut
         else early_nid_loop
           (if addr \<noteq> 0 then m\<lparr>nid_bitmap := snd (f2fs_set_bit (unat nid) (nid_bitmap m))\<rparr> else m)
           (i + 1) k)"

definition f2fs_early_init_nid_bitmap :: "mount \<Rightarrow> mount" where
  "f2fs_early_init_nid_bitmap m =
     (if \<not> (func m = SLOAD \<or> func m = FSCK) then m
      else
        let m = m\<lparr>nid_bitmap := snd (f2fs_set_bit 0 zero_buf)\<rparr>;
            m = (if jnl_count (nat_journal m) > NAT_JOURNAL_ENTRIES
                 then (upd_sum_blk CURSEG_HOT_DATA (set_jnl_count NAT_JOURNAL_ENTRIES) m)\<lparr>m_fix_on := True\<rparr>
                 else m)
        in early_nid_loop m 0 (jnl_count (nat_journal m)))"

fun late_nid_loop :: "mount \<Rightarrow> nat \<Rightarrow> nat \<Rightarrow> buf \<Rightarrow> mount option" where
  "late_nid_loop m nid 0 nat_block = Some m"
| "late_nid_loop m nid (Suc k) nat_block = do {
     nat_block \<leftarrow> (if nid mod NAT_ENTRY_PER_BLOCK = 0 then rd_blk m (current_nat_addr m nid)
                   else Some nat_block);
     let m = (if ne_block_addr (nat_blk_entry nat_block (nid mod NAT_ENTRY_PER_BLOCK)) \<noteq> 0
              then m\<lparr>nid_bitmap := snd (f2fs_set_bit nid (nid_bitmap m))\<rparr> else m);
     late_nid_loop m (nid + 1) k nat_block
   }"

definition f2fs_late_init_nid_bitmap :: "mount \<Rightarrow> mount option" where
  "f2fs_late_init_nid_bitmap m =
     (if \<not> (func m = SLOAD \<or> func m = FSCK) then Some m
      else late_nid_loop m 0 (max_nid m) zero_buf)"

definition init_node_manager :: "mount \<Rightarrow> mount" where
  "init_node_manager m =
     (let sb = raw_super m;
          nat_segs = unat (sb_segment_count_nat sb) div 2;
          blks = nat_segs * BLOCKS_PER_SEG;
          m = m\<lparr>nat_blkaddr := unat (sb_nat_blkaddr sb), nat_blocks := blks,
                max_nid := NAT_ENTRY_PER_BLOCK * blks,
                nat_bitmap := put_bytes 0 (bitmap_size (ckpt m) NAT_BITMAP)
                  (at_off (bitmap_ptr sb (ckpt m) NAT_BITMAP) (ckpt m)) zero_buf\<rparr>
      in f2fs_early_init_nid_bitmap m)"

subsection \<open>NAT bits\<close>

definition CP_NAT_BITS_FLAG :: u32 where "CP_NAT_BITS_FLAG = 0x80"

definition nat_bits_bytes :: "buf \<Rightarrow> nat" where
  "nat_bits_bytes sb = unat (sb_segment_count_nat sb) * 256 div 8"

definition nat_bits_blocks :: "buf \<Rightarrow> nat" where
  "nat_bits_blocks sb = (nat_bits_bytes sb * 2 + 8 + F2FS_BLKSIZE - 1) div F2FS_BLKSIZE"

definition update_nat_bits_flags :: "buf \<Rightarrow> buf \<Rightarrow> u32 \<Rightarrow> u32" where
  "update_nat_bits_flags sb cp flags =
     (if cp_pack_total_block_count cp \<le> 512 - of_nat (nat_bits_blocks sb)
      then flags OR CP_NAT_BITS_FLAG else flags AND NOT CP_NAT_BITS_FLAG)"

text \<open>\<open>get_cp_crc\<close>: the checkpoint version with the checksum in its upper half.\<close>

definition get_cp_crc :: "buf \<Rightarrow> u64" where
  "get_cp_crc cp =
     cp_checkpoint_ver cp OR push_bit 32 (ucast (le32_at cp (unat (cp_checksum_offset cp))))"

fun count_valid :: "(nat \<Rightarrow> bool) \<Rightarrow> nat \<Rightarrow> nat" where
  "count_valid P 0 = 0"
| "count_valid P (Suc k) = (if P k then 1 else 0) + count_valid P k"

text \<open>The address \<open>write_nat_bits\<close> computes for NAT block \<open>i\<close>.\<close>

definition nat_bits_src :: "mount \<Rightarrow> nat \<Rightarrow> nat" where
  "nat_bits_src m i =
     (let blkaddr = unat (sb_nat_blkaddr (raw_super m)) + i div 512 * 512 * 2 + i mod 512
      in if i < nat_blocks m \<and> f2fs_test_bit i (nat_bitmap m) then blkaddr + 512 else blkaddr)"

fun nat_bits_loop :: "mount \<Rightarrow> nat \<Rightarrow> nat \<Rightarrow> buf \<times> buf \<Rightarrow> (buf \<times> buf) option" where
  "nat_bits_loop m i 0 fe = Some fe"
| "nat_bits_loop m i (Suc k) fe = do {
     nat_block \<leftarrow> rd_blk m (nat_bits_src m i);
     let valid = count_valid (\<lambda>j. (i = 0 \<and> j = 0) \<or> ne_block_addr (nat_blk_entry nat_block j) \<noteq> 0)
                   NAT_ENTRY_PER_BLOCK;
     let fe = (if valid = 0 then (fst fe, snd (test_and_set_bit_le i (snd fe)))
               else if valid = NAT_ENTRY_PER_BLOCK then (snd (test_and_set_bit_le i (fst fe)), snd fe)
               else fe);
     nat_bits_loop m (i + 1) k fe
   }"

fun write_blocks :: "nat \<Rightarrow> buf \<Rightarrow> nat \<Rightarrow> nat \<Rightarrow> mount \<Rightarrow> mount" where
  "write_blocks blkaddr b i 0 m = m"
| "write_blocks blkaddr b i (Suc k) m =
     (case wr_blk (blkaddr + i) (at_off (i * F2FS_BLKSIZE) b) m of
        None \<Rightarrow> write_blocks blkaddr b (i + 1) k (m\<lparr>m_bug_on := True\<rparr>)
      | Some m' \<Rightarrow> write_blocks blkaddr b (i + 1) k m')"

definition nat_bits_addr :: "buf \<Rightarrow> nat \<Rightarrow> nat" where
  "nat_bits_addr sb set_nr = unat (sb_segment0_blkaddr sb) + set_nr * 512 - nat_bits_blocks sb"

definition write_nat_bits :: "mount \<Rightarrow> buf \<Rightarrow> nat \<Rightarrow> mount option" where
  "write_nat_bits m cp set_nr = do {
     let sb = raw_super m;
     let n = nat_bits_bytes sb;
     (full, empt) \<leftarrow> nat_bits_loop m 0 (n * 8) (zero_buf, zero_buf);
     let nat_bits = put_le64 0 (get_cp_crc cp) (put_bytes (8 + n) n empt (put_bytes 8 n full zero_buf));
     Some (write_blocks (nat_bits_addr sb set_nr) nat_bits 0 (nat_bits_blocks sb) m)
   }"

text \<open>The loop of \<open>check_nat_bits\<close> that reads the blocks; a block that cannot be read leaves
  the buffer as it was.\<close>

fun read_blocks :: "nat \<Rightarrow> nat \<Rightarrow> nat \<Rightarrow> mount \<Rightarrow> buf \<Rightarrow> mount \<times> buf" where
  "read_blocks blkaddr i 0 m b = (m, b)"
| "read_blocks blkaddr i (Suc k) m b =
     (case rd_blk m (blkaddr + i) of
        None \<Rightarrow> read_blocks blkaddr (i + 1) k (m\<lparr>m_bug_on := True\<rparr>) b
      | Some blk \<Rightarrow> read_blocks blkaddr (i + 1) k m (put_bytes (i * F2FS_BLKSIZE) F2FS_BLKSIZE blk b))"

fun check_nat_bits_loop :: "mount \<Rightarrow> buf \<Rightarrow> buf \<Rightarrow> nat \<Rightarrow> nat \<Rightarrow> bool" where
  "check_nat_bits_loop m full empt i 0 = True"
| "check_nat_bits_loop m full empt i (Suc k) =
     (let valid = count_valid (\<lambda>j. f2fs_test_bit (i * NAT_ENTRY_PER_BLOCK + j) (nid_bitmap m)) NAT_ENTRY_PER_BLOCK;
          e = (test_bit_le i empt \<noteq> 0); f = (test_bit_le i full \<noteq> 0)
      in if valid = 0 then (if \<not> e \<or> f then False else check_nat_bits_loop m full empt (i + 1) k)
         else if valid = NAT_ENTRY_PER_BLOCK then
           (if e \<or> \<not> f then False else check_nat_bits_loop m full empt (i + 1) k)
         else if e \<or> f then False else check_nat_bits_loop m full empt (i + 1) k)"

definition check_nat_bits :: "mount \<Rightarrow> buf \<Rightarrow> int \<times> mount" where
  "check_nat_bits m cp =
     (let sb = raw_super m; n = nat_bits_bytes sb;
          (m, nat_bits) = read_blocks (nat_bits_addr sb (cur_cp m)) 0 (nat_bits_blocks sb) m zero_buf;
          err = (if le64_at nat_bits 0 \<noteq> get_cp_crc cp \<or> jnl_count (nat_journal m) \<noteq> 0
                 then (if m_fix_on m then -1 else 0)
                 else if check_nat_bits_loop m (at_off 8 nat_bits) (at_off (8 + n) nat_bits) 0 (n * 8) then 0 else -1)
      in (err, if err = 0 then m else m\<lparr>m_bug_nat_bits := True\<rparr>))"

subsection \<open>The NAT as a table\<close>

text \<open>What the NAT blocks hold for a node number, the journal aside.\<close>

definition nat_on_disk :: "mount \<Rightarrow> nat \<Rightarrow> nat_entry" where
  "nat_on_disk m nid =
     nat_blk_entry (blocks (dsk m) (current_nat_addr m nid)) (nid mod NAT_ENTRY_PER_BLOCK)"

definition nat_put :: "nat \<Rightarrow> nat_entry \<Rightarrow> mount \<Rightarrow> mount option" where
  "nat_put nid e m = do {
     nat_block \<leftarrow> rd_blk m (current_nat_addr m nid);
     wr_blk (current_nat_addr m nid) (set_nat_blk_entry (nid mod NAT_ENTRY_PER_BLOCK) e nat_block) m
   }"

definition nat_wf :: "mount \<Rightarrow> bool" where
  "nat_wf m \<longleftrightarrow> \<not> disk_ro (dsk m) \<and> nat_blocks m mod BLOCKS_PER_SEG = 0 \<and>
     max_nid m = NAT_ENTRY_PER_BLOCK * nat_blocks m \<and>
     nat_blkaddr m + 2 * nat_blocks m \<le> last_blk (dsk m) + 1"

lemma nat_addr_block:
  "(current_nat_addr m nid - nat_blkaddr m) div 1024 = NAT_BLOCK_OFFSET nid div 512"
  "(current_nat_addr m nid - nat_blkaddr m) mod 512 = NAT_BLOCK_OFFSET nid mod 512"
  "nat_blkaddr m \<le> current_nat_addr m nid"
proof -
  define q r where "q = NAT_BLOCK_OFFSET nid div 512" and "r = NAT_BLOCK_OFFSET nid mod 512"
  have r: "r < 512" by (simp add: r_def)
  obtain t where t: "t = 0 \<or> t = 512" "current_nat_addr m nid = nat_blkaddr m + (q * 1024 + (r + t))"
    by (cases "f2fs_test_bit (NAT_BLOCK_OFFSET nid) (nat_bitmap m)")
       (auto simp: current_nat_addr_def Let_def BLOCKS_PER_SEG_def q_def r_def)
  have "(q * 1024 + (r + t)) div 1024 = q" using r t(1) by auto
  moreover have "(q * 1024 + (r + t)) mod 512 = r"
  proof -
    have "(q * 1024 + (r + t)) mod 512 = (r + t) mod 512"
      using mod_mult_self3 [of "q * 2" 512 "r + t"] by (simp add: mult.assoc)
    then show ?thesis using r t(1) by auto
  qed
  ultimately show "(current_nat_addr m nid - nat_blkaddr m) div 1024 = NAT_BLOCK_OFFSET nid div 512"
    "(current_nat_addr m nid - nat_blkaddr m) mod 512 = NAT_BLOCK_OFFSET nid mod 512"
    "nat_blkaddr m \<le> current_nat_addr m nid"
    using t(2) by (simp_all add: q_def r_def)
qed

lemma current_nat_addr_inj:
  assumes "current_nat_addr m x = current_nat_addr m y"
  shows "NAT_BLOCK_OFFSET x = NAT_BLOCK_OFFSET y"
proof -
  have "NAT_BLOCK_OFFSET x div 512 = NAT_BLOCK_OFFSET y div 512"
    "NAT_BLOCK_OFFSET x mod 512 = NAT_BLOCK_OFFSET y mod 512"
    using assms nat_addr_block(1,2) [of m x] nat_addr_block(1,2) [of m y] by simp_all
  then show ?thesis by (metis div_mult_mod_eq)
qed

lemma current_nat_addr_range:
  assumes "nat_wf m" "nid < max_nid m"
  shows "nat_blkaddr m \<le> current_nat_addr m nid" "current_nat_addr m nid < nat_blkaddr m + 2 * nat_blocks m"
    "current_nat_addr m nid \<le> last_blk (dsk m)"
proof -
  show "nat_blkaddr m \<le> current_nat_addr m nid" by (rule nat_addr_block)
  have b: "NAT_BLOCK_OFFSET nid < nat_blocks m"
    using assms by (simp add: nat_wf_def NAT_BLOCK_OFFSET_def NAT_ENTRY_PER_BLOCK_def less_mult_imp_div_less mult.commute)
  moreover obtain q where q: "nat_blocks m = 512 * q"
    using assms(1) by (auto simp: nat_wf_def BLOCKS_PER_SEG_def mod_eq_0_iff_dvd)
  ultimately have "NAT_BLOCK_OFFSET nid div 512 < q" by (simp add: less_mult_imp_div_less mult.commute)
  then have "NAT_BLOCK_OFFSET nid div 512 * 1024 + 1024 \<le> 1024 * q" by linarith
  moreover have "NAT_BLOCK_OFFSET nid mod 512 < 512" by simp
  ultimately show lt: "current_nat_addr m nid < nat_blkaddr m + 2 * nat_blocks m"
    unfolding current_nat_addr_def Let_def BLOCKS_PER_SEG_def q by auto
  then show "current_nat_addr m nid \<le> last_blk (dsk m)" using assms(1) by (simp add: nat_wf_def)
qed

text \<open>Storing a NAT block changes nothing but the disk.\<close>

lemma wr_blk_Some:
  "\<lbrakk>\<not> disk_ro (dsk m); a \<le> last_blk (dsk m)\<rbrakk> \<Longrightarrow>
     wr_blk a b m = Some (m\<lparr>dsk := (dsk m)\<lparr>blocks := (blocks (dsk m))(a := b)\<rparr>\<rparr>)"
  by (simp add: wr_blk_def blk_write_def)

lemma rd_blk_Some: "a \<le> last_blk (dsk m) \<Longrightarrow> rd_blk m a = Some (blocks (dsk m) a)"
  by (simp add: rd_blk_def blk_read_def)

lemma current_nat_addr_dsk [simp]: "current_nat_addr (m\<lparr>dsk := d\<rparr>) = current_nat_addr m"
  by (rule ext) (simp add: current_nat_addr_def)

lemma nat_journal_dsk [simp]: "nat_journal (m\<lparr>dsk := d\<rparr>) = nat_journal m"
  by (simp add: nat_journal_def)

lemma nid_eq_iff: "x = y \<longleftrightarrow> NAT_BLOCK_OFFSET x = NAT_BLOCK_OFFSET y \<and>
    x mod NAT_ENTRY_PER_BLOCK = y mod NAT_ENTRY_PER_BLOCK"
  unfolding NAT_BLOCK_OFFSET_def by (metis div_mult_mod_eq)

lemma current_nat_addr_same:
  "NAT_BLOCK_OFFSET x = NAT_BLOCK_OFFSET y \<Longrightarrow> current_nat_addr m x = current_nat_addr m y"
  by (simp add: current_nat_addr_def)

lemma nat_on_disk_write:
  "nat_on_disk (m\<lparr>dsk := (dsk m)\<lparr>blocks := (blocks (dsk m))(current_nat_addr m nid :=
      set_nat_blk_entry (nid mod NAT_ENTRY_PER_BLOCK) e (blocks (dsk m) (current_nat_addr m nid)))\<rparr>\<rparr>) =
   (nat_on_disk m)(nid := e)"
proof (rule ext)
  fix x
  let ?m' = "m\<lparr>dsk := (dsk m)\<lparr>blocks := (blocks (dsk m))(current_nat_addr m nid :=
      set_nat_blk_entry (nid mod NAT_ENTRY_PER_BLOCK) e (blocks (dsk m) (current_nat_addr m nid)))\<rparr>\<rparr>"
  show "nat_on_disk ?m' x = ((nat_on_disk m)(nid := e)) x"
  proof (cases "current_nat_addr m x = current_nat_addr m nid")
    case True
    then have "NAT_BLOCK_OFFSET x = NAT_BLOCK_OFFSET nid" by (rule current_nat_addr_inj)
    then have "x = nid \<longleftrightarrow> nid mod NAT_ENTRY_PER_BLOCK = x mod NAT_ENTRY_PER_BLOCK"
      using nid_eq_iff [of x nid] by auto
    with True show ?thesis by (simp add: nat_on_disk_def nat_blk_entry_set)
  next
    case False
    then have "x \<noteq> nid" by auto
    with False show ?thesis by (simp add: nat_on_disk_def)
  qed
qed

lemma nat_put_eq:
  assumes "nat_wf m" "nid < max_nid m"
  shows "nat_put nid e m = Some (m\<lparr>dsk := (dsk m)\<lparr>blocks := (blocks (dsk m))(current_nat_addr m nid :=
      set_nat_blk_entry (nid mod NAT_ENTRY_PER_BLOCK) e (blocks (dsk m) (current_nat_addr m nid)))\<rparr>\<rparr>)"
  using assms current_nat_addr_range(3) [OF assms]
  by (simp add: nat_put_def rd_blk_Some wr_blk_Some nat_wf_def)

lemma nat_put_ok:
  assumes "nat_wf m" "nid < max_nid m"
  shows "\<exists>m'. nat_put nid e m = Some m' \<and> nat_wf m' \<and> nat_on_disk m' = (nat_on_disk m)(nid := e) \<and>
     max_nid m' = max_nid m \<and> nat_journal m' = nat_journal m"
  using assms by (simp add: nat_put_eq nat_on_disk_write) (simp add: nat_wf_def)

interpretation nat_tab: disk_table nat_on_disk nat_put nat_wf "\<lambda>m nid. nid < max_nid m" "\<lambda>_. True"
proof
  fix m :: mount and nid e
  assume "nat_wf m" "nid < max_nid m"
  then show "\<exists>m'. nat_put nid e m = Some m' \<and> nat_wf m' \<and>
      (\<lambda>k. k < max_nid m') = (\<lambda>k. k < max_nid m) \<and>
      (\<forall>x. x < max_nid m \<longrightarrow> nat_on_disk m' x = ((nat_on_disk m)(nid := e)) x)"
    using nat_put_ok [of m nid e] by auto
qed

lemma below_eqD: "(\<lambda>k::nat. k < a) = (\<lambda>k. k < b) \<Longrightarrow> a = b"
proof -
  assume eq: "(\<lambda>k::nat. k < a) = (\<lambda>k. k < b)"
  have "\<not> a < b" "\<not> b < a" using fun_cong [OF eq, of a] fun_cong [OF eq, of b] by simp_all
  then show "a = b" by simp
qed

lemma get_nat_entry_eq:
  assumes "nat_wf m" "nid < max_nid m"
  shows "get_nat_entry m nid =
    Some (case find_nat_in_journal (nat_journal m) nid 0 (jnl_count (nat_journal m)) of
            Some i \<Rightarrow> nat_in_journal (nat_journal m) i | None \<Rightarrow> nat_on_disk m nid)"
  using current_nat_addr_range(3) [OF assms]
  by (simp add: get_nat_entry_def lookup_nat_in_journal_def rd_blk_Some nat_on_disk_def split: option.splits)

subsection \<open>Updates of the table\<close>

definition nat_journal_ok :: "mount \<Rightarrow> bool" where
  "nat_journal_ok m \<longleftrightarrow>
     (\<forall>i < jnl_count (nat_journal m). nid_in_journal (nat_journal m) i < max_nid m) \<and>
     inj_on (nid_in_journal (nat_journal m)) {0..<jnl_count (nat_journal m)}"

lemma find_nat_in_journal_map_of:
  "map_option (f jnl) (find_nat_in_journal jnl nid i k) =
     map_of (map (\<lambda>j. (nid_in_journal jnl j, f jnl j)) [i..<i + k]) nid"
proof (induction k arbitrary: i)
  case (Suc k)
  have "[i..<i + Suc k] = i # [i + 1..<i + 1 + k]" by (simp add: upt_conv_Cons)
  with Suc [of "i + 1"] show ?case by simp
qed simp

lemma find_nat_in_journal_Some:
  "find_nat_in_journal jnl nid i k = Some j \<Longrightarrow> i \<le> j \<and> j < i + k \<and> nid_in_journal jnl j = nid"
  by (induction k arbitrary: i) (fastforce split: if_splits)+

lemma find_nat_in_journal_None:
  "find_nat_in_journal jnl nid i k = None \<longleftrightarrow> nid \<notin> nid_in_journal jnl ` {i..<i + k}"
proof (induction k arbitrary: i)
  case (Suc k)
  have "{i..<i + Suc k} = insert i {i + 1..<i + 1 + k}" by auto
  with Suc [of "i + 1"] show ?case by auto
qed simp

lemma flush_nat_loop_wr_list:
  "flush_nat_loop m i k =
     nat_tab.wr_list (map (\<lambda>j. (nid_in_journal (nat_journal m) j, nat_in_journal (nat_journal m) j)) [i..<i + k]) m"
proof (induction k arbitrary: m i)
  case (Suc k)
  have up: "[i..<i + Suc k] = i # [i + 1..<i + 1 + k]" by (simp add: upt_conv_Cons)
  have jnl: "nat_journal m' = nat_journal m" if "wr_blk a b m = Some m'" for a b m'
    using that by (auto simp: wr_blk_def)
  let ?nid = "nid_in_journal (nat_journal m) i" and ?e = "nat_in_journal (nat_journal m) i"
  have "flush_nat_loop m i (Suc k) = Option.bind (nat_put ?nid ?e m) (\<lambda>m. flush_nat_loop m (i + 1) k)"
    by (simp add: nat_put_def Let_def)
  also have "\<dots> = Option.bind (nat_put ?nid ?e m) (nat_tab.wr_list
      (map (\<lambda>j. (nid_in_journal (nat_journal m) j, nat_in_journal (nat_journal m) j)) [i + 1..<i + 1 + k]))"
  proof (cases "nat_put ?nid ?e m")
    case (Some m')
    then have "nat_journal m' = nat_journal m" by (auto simp: nat_put_def jnl split: bind_splits)
    with Some Suc [of m' "i + 1"] show ?thesis by simp
  qed simp
  finally show ?case unfolding up by simp
qed simp

lemma nat_journal_upd [simp]:
  "nat_journal (upd_sum_blk CURSEG_HOT_DATA f m) = f (nat_journal m)"
  by (simp add: nat_journal_def upd_sum_blk_def)

lemma nat_on_disk_upd [simp]: "nat_on_disk (upd_sum_blk t f m) = nat_on_disk m"
  by (rule ext) (simp add: nat_on_disk_def upd_sum_blk_def current_nat_addr_def Let_def)

lemma nat_wf_upd [simp]: "nat_wf (upd_sum_blk t f m) = nat_wf m" "max_nid (upd_sum_blk t f m) = max_nid m"
  by (simp_all add: nat_wf_def upd_sum_blk_def)

lemma jnl_count_set: "n < 2 ^ 16 \<Longrightarrow> jnl_count (set_jnl_count n jnl) = n"
  by (simp add: jnl_count_def set_jnl_count_def unat_of_nat)

text \<open>Property C2. Flushing the NAT journal is invisible to lookups: with distinct node numbers
  in the journal it succeeds, empties the journal, and every node number resolves to
  the same entry before and after, whether its entry was in the journal or in the NAT.\<close>

theorem flush_nat_journal_keeps_entries:
  assumes "nat_wf m" "nat_journal_ok m"
  shows "\<exists>m'. flush_nat_journal_entries m = Some (jnl_count (nat_journal m), m') \<and>
     jnl_count (nat_journal m') = 0 \<and> nat_wf m' \<and> max_nid m' = max_nid m \<and>
     (\<forall>nid < max_nid m. get_nat_entry m' nid = get_nat_entry m nid)"
proof -
  let ?jnl = "nat_journal m" and ?n = "jnl_count (nat_journal m)"
  let ?ps = "map (\<lambda>j. (nid_in_journal ?jnl j, nat_in_journal ?jnl j)) [0..<0 + ?n]"
  have range: "fst p < max_nid m \<and> True" if "p \<in> set ?ps" for p
    using that assms(2) by (auto simp: nat_journal_ok_def)
  have dist: "distinct (map fst ?ps)"
    using assms(2) by (simp add: nat_journal_ok_def comp_def distinct_map)
  from nat_tab.wr_list_distinct [OF assms(1) range dist] obtain s where
    s: "nat_tab.wr_list ?ps m = Some s" "nat_wf s" "(\<lambda>k. k < max_nid s) = (\<lambda>k. k < max_nid m)"
      "\<forall>k. k < max_nid m \<longrightarrow> nat_on_disk s k = (case map_of ?ps k of Some e \<Rightarrow> e | None \<Rightarrow> nat_on_disk m k)" by blast
  define m' where "m' = upd_sum_blk CURSEG_HOT_DATA (set_jnl_count 0) s"
  have fl: "flush_nat_journal_entries m = Some (?n, m')"
    by (simp add: flush_nat_journal_entries_def flush_nat_loop_wr_list Let_def m'_def s(1) [simplified])
  have cnt: "jnl_count (nat_journal m') = 0" by (simp add: m'_def jnl_count_set)
  have wf: "nat_wf m'" "max_nid m' = max_nid m"
    using s(2) below_eqD [OF s(3)] by (simp_all add: m'_def)
  have "get_nat_entry m' nid = get_nat_entry m nid" if "nid < max_nid m" for nid
  proof -
    have "nat_on_disk m' nid = (case find_nat_in_journal ?jnl nid 0 ?n of
        Some i \<Rightarrow> nat_in_journal ?jnl i | None \<Rightarrow> nat_on_disk m nid)"
      using find_nat_in_journal_map_of [of nat_in_journal ?jnl nid 0 ?n] s(4) that
      by (auto simp: m'_def split: option.splits)
    with that wf assms(1) cnt show ?thesis by (simp add: get_nat_entry_eq)
  qed
  with fl cnt wf show ?thesis by blast
qed

lemma fsck_entries_sel [simp]:
  "current_nat_addr (m\<lparr>fsck_entries := f\<rparr>) = current_nat_addr m"
  "rd_blk (m\<lparr>fsck_entries := f\<rparr>) = rd_blk m" "nat_journal (m\<lparr>fsck_entries := f\<rparr>) = nat_journal m"
  "nat_on_disk (m\<lparr>fsck_entries := f\<rparr>) = nat_on_disk m" "nat_wf (m\<lparr>fsck_entries := f\<rparr>) = nat_wf m"
  by (auto simp: current_nat_addr_def rd_blk_def nat_journal_def nat_on_disk_def nat_wf_def Let_def fun_eq_iff)

text \<open>Property C7. \<open>update_nat_blkaddr\<close> redirects one node: a later lookup of that node number
  gives the new address (and the new inode number, when one is passed), and every other
  node number resolves as before, for node numbers that have no entry in the journal.\<close>

theorem update_nat_blkaddr_lookup:
  assumes "nat_wf m" "nid < max_nid m"
    and "find_nat_in_journal (nat_journal m) nid 0 (jnl_count (nat_journal m)) = None"
  shows "\<exists>m' e. update_nat_blkaddr m ino nid newaddr = Some m' \<and> nat_wf m' \<and>
     get_nat_entry m nid = Some e \<and>
     get_nat_entry m' nid = Some (e\<lparr>ne_ino := if ino \<noteq> 0 then ino else ne_ino e, ne_block_addr := newaddr\<rparr>) \<and>
     (\<forall>x < max_nid m. x \<noteq> nid \<longrightarrow> get_nat_entry m' x = get_nat_entry m x)"
proof -
  define e where "e = nat_on_disk m nid"
  define e' where "e' = (if ino \<noteq> 0 then e\<lparr>ne_ino := ino\<rparr> else e)\<lparr>ne_block_addr := newaddr\<rparr>"
  define m1 where "m1 = (if func m = FSCK then m\<lparr>fsck_entries := (fsck_entries m)(nid := e')\<rparr> else m)"
  have sel: "nat_wf m1" "max_nid m1 = max_nid m" "nat_journal m1 = nat_journal m"
    "current_nat_addr m1 = current_nat_addr m" "nat_on_disk m1 = nat_on_disk m" "dsk m1 = dsk m"
    using assms(1) by (simp_all add: m1_def)
  have "update_nat_blkaddr m ino nid newaddr = nat_put nid e' m1"
    using current_nat_addr_range(3) [OF assms(1,2)]
    by (simp add: update_nat_blkaddr_def nat_put_def Let_def rd_blk_Some sel m1_def e'_def e_def nat_on_disk_def)
  moreover obtain m' where m': "nat_put nid e' m1 = Some m'" "nat_wf m'" "nat_on_disk m' = (nat_on_disk m1)(nid := e')"
    "max_nid m' = max_nid m1" "nat_journal m' = nat_journal m1"
    using nat_put_ok [of m1 nid e'] sel(1,2) assms(2) by auto
  ultimately show ?thesis using assms sel
    by (intro exI [of _ m'] exI [of _ e])
       (auto simp: get_nat_entry_eq e_def e'_def split: option.splits)
qed

lemma set_nat_in_journal_sel:
  "jnl_count (set_nat_in_journal i e jnl) = jnl_count jnl"
  "nid_in_journal (set_nat_in_journal i e jnl) j = nid_in_journal jnl j"
  "nat_in_journal (set_nat_in_journal i e jnl) j = (if j = i then e else nat_in_journal jnl j)"
proof -
  show "jnl_count (set_nat_in_journal i e jnl) = jnl_count jnl"
    by (simp add: jnl_count_def set_nat_in_journal_def put_nat_ent_def SUM_JOURNAL_OFFSET_def buf_simps)
  have "13 * i + 13 \<le> 13 * j \<or> 13 * j + 13 \<le> 13 * i \<or> i = j" by linarith
  then show "nid_in_journal (set_nat_in_journal i e jnl) j = nid_in_journal jnl j"
    by (elim disjE) (simp_all add: nid_in_journal_def set_nat_in_journal_def put_nat_ent_def
        SUM_JOURNAL_OFFSET_def buf_simps)
  show "nat_in_journal (set_nat_in_journal i e jnl) j = (if j = i then e else nat_in_journal jnl j)"
  proof (cases "j = i")
    case False
    then have "13 * i + 13 \<le> 13 * j \<or> 13 * j + 13 \<le> 13 * i" by linarith
    with False show ?thesis by (auto simp: nat_in_journal_def set_nat_in_journal_def get_put_nat_ent_other)
  qed (simp add: nat_in_journal_def set_nat_in_journal_def)
qed

text \<open>Property C8. \<open>nullify_nat_entry\<close> removes one node number: afterwards it resolves to the null
  entry, wherever its entry was, except that the NAT entries of the node and meta inodes
  get block address 1; every other node number resolves as before.\<close>

theorem nullify_nat_entry_lookup:
  assumes "nat_wf m" "nat_journal_ok m" "nid < max_nid m" "jnl_count (nat_journal m) \<le> NAT_JOURNAL_ENTRIES"
  shows "\<exists>m' e. nullify_nat_entry m nid = Some m' \<and> get_nat_entry m' nid = Some e \<and>
     (e = null_nat_entry \<or> ((nid = F2FS_NODE_INO m \<or> nid = F2FS_META_INO m) \<and> ne_block_addr e = 1)) \<and>
     (\<forall>x < max_nid m. x \<noteq> nid \<longrightarrow> get_nat_entry m' x = get_nat_entry m x)"
proof (cases "find_nat_in_journal (nat_journal m) nid 0 (jnl_count (nat_journal m))")
  case None
  define e where "e = (if nid = F2FS_NODE_INO m \<or> nid = F2FS_META_INO m
    then (nat_on_disk m nid)\<lparr>ne_block_addr := 1\<rparr> else null_nat_entry)"
  have "nullify_nat_entry m nid = nat_put nid e m"
    using None current_nat_addr_range(3) [OF assms(1,3)]
    by (simp add: nullify_nat_entry_def nat_put_def Let_def rd_blk_Some e_def nat_on_disk_def)
  moreover obtain m' where m': "nat_put nid e m = Some m'" "nat_wf m'" "nat_on_disk m' = (nat_on_disk m)(nid := e)"
    "max_nid m' = max_nid m" "nat_journal m' = nat_journal m"
    using nat_put_ok [OF assms(1,3)] by blast
  ultimately show ?thesis using assms(1,3) None
    by (intro exI [of _ m'] exI [of _ e]) (auto simp: get_nat_entry_eq e_def split: option.splits)
next
  case (Some i)
  let ?m' = "upd_sum_blk CURSEG_HOT_DATA (set_nat_in_journal i null_nat_entry) m"
  note jnl = set_nat_in_journal_sel
  have i: "i < jnl_count (nat_journal m)" "nid_in_journal (nat_journal m) i = nid"
    using find_nat_in_journal_Some [OF Some] by auto
  have find: "find_nat_in_journal (set_nat_in_journal i e (nat_journal m)) x a k =
      find_nat_in_journal (nat_journal m) x a k" for x a k e
    by (induction k arbitrary: a) (simp_all add: jnl)
  have other: "j \<noteq> i" if "x \<noteq> nid" "find_nat_in_journal (nat_journal m) x 0 (jnl_count (nat_journal m)) = Some j" for x j
    using find_nat_in_journal_Some [OF that(2)] i that(1) by auto
  show ?thesis using assms(1,3) Some other
    by (intro exI [of _ ?m'] exI [of _ null_nat_entry])
       (auto simp: nullify_nat_entry_def get_nat_entry_eq find jnl split: option.splits)
qed

subsection \<open>The bitmap of node numbers\<close>

lemma nid_bitmap_sel [simp]:
  "current_nat_addr (m\<lparr>nid_bitmap := b\<rparr>) = current_nat_addr m" "rd_blk (m\<lparr>nid_bitmap := b\<rparr>) = rd_blk m"
  "nat_journal (m\<lparr>nid_bitmap := b\<rparr>) = nat_journal m" "nat_on_disk (m\<lparr>nid_bitmap := b\<rparr>) = nat_on_disk m"
  "nat_wf (m\<lparr>nid_bitmap := b\<rparr>) = nat_wf m"
  "IS_VALID_NID (m\<lparr>nid_bitmap := b\<rparr>) = IS_VALID_NID m"
  "IS_VALID_BLK_ADDR (m\<lparr>nid_bitmap := b\<rparr>) = IS_VALID_BLK_ADDR m"
  by (auto simp: current_nat_addr_def rd_blk_def nat_journal_def nat_on_disk_def nat_wf_def
      IS_VALID_NID_def IS_VALID_BLK_ADDR_def Let_def fun_eq_iff)

lemma NAT_BLOCK_OFFSET_Suc:
  assumes "Suc nid mod NAT_ENTRY_PER_BLOCK \<noteq> 0"
  shows "NAT_BLOCK_OFFSET (Suc nid) = NAT_BLOCK_OFFSET nid"
  using assms unfolding NAT_BLOCK_OFFSET_def by (simp add: div_Suc)

lemma late_nid_loop_exact:
  assumes "nat_wf m" "nid + k \<le> max_nid m"
    and "nid mod NAT_ENTRY_PER_BLOCK \<noteq> 0 \<Longrightarrow> b = blocks (dsk m) (current_nat_addr m nid)"
  shows "\<exists>bm. late_nid_loop m nid k b = Some (m\<lparr>nid_bitmap := bm\<rparr>) \<and>
     (\<forall>x. f2fs_test_bit x bm \<longleftrightarrow>
        f2fs_test_bit x (nid_bitmap m) \<or> (nid \<le> x \<and> x < nid + k \<and> ne_block_addr (nat_on_disk m x) \<noteq> 0))"
  using assms
proof (induction k arbitrary: m nid b)
  case 0
  show ?case by (rule exI [of _ "nid_bitmap m"]) auto
next
  case (Suc k)
  let ?blk = "blocks (dsk m) (current_nat_addr m nid)"
  have "current_nat_addr m nid \<le> last_blk (dsk m)"
    using Suc.prems(1,2) by (intro current_nat_addr_range) auto
  then have rd: "(if nid mod NAT_ENTRY_PER_BLOCK = 0 then rd_blk m (current_nat_addr m nid) else Some b) = Some ?blk"
    using Suc.prems(3) by (simp add: rd_blk_Some)
  define bm where "bm = (if ne_block_addr (nat_on_disk m nid) \<noteq> 0
    then snd (f2fs_set_bit nid (nid_bitmap m)) else nid_bitmap m)"
  have "?blk = blocks (dsk m) (current_nat_addr m (Suc nid))" if "Suc nid mod NAT_ENTRY_PER_BLOCK \<noteq> 0"
    using current_nat_addr_same [OF NAT_BLOCK_OFFSET_Suc [OF that]] by simp
  then obtain bm' where bm': "late_nid_loop (m\<lparr>nid_bitmap := bm\<rparr>) (Suc nid) k ?blk = Some (m\<lparr>nid_bitmap := bm'\<rparr>)"
    "\<forall>x. f2fs_test_bit x bm' \<longleftrightarrow> f2fs_test_bit x bm \<or>
       (Suc nid \<le> x \<and> x < Suc nid + k \<and> ne_block_addr (nat_on_disk m x) \<noteq> 0)"
    using Suc.IH [of "m\<lparr>nid_bitmap := bm\<rparr>" "Suc nid" ?blk] Suc.prems by auto
  have "late_nid_loop m nid (Suc k) b = Some (m\<lparr>nid_bitmap := bm'\<rparr>)"
    using bm'(1) unfolding late_nid_loop.simps rd Let_def
    by (simp add: bm_def nat_on_disk_def split: if_splits)
  moreover have "f2fs_test_bit x bm' \<longleftrightarrow> f2fs_test_bit x (nid_bitmap m) \<or>
      (nid \<le> x \<and> x < nid + Suc k \<and> ne_block_addr (nat_on_disk m x) \<noteq> 0)" for x
    using bm'(2) by (cases "x = nid") (auto simp: bm_def f2fs_test_set_bit)
  ultimately show ?case by blast
qed

lemma set_jnl_count_sel [simp]:
  "nid_in_journal (set_jnl_count n jnl) j = nid_in_journal jnl j"
  "nat_in_journal (set_jnl_count n jnl) j = nat_in_journal jnl j"
  "le32_at (set_jnl_count n jnl) (SUM_JOURNAL_OFFSET + 2 + 13 * j) = le32_at jnl (SUM_JOURNAL_OFFSET + 2 + 13 * j)"
  by (simp_all add: nid_in_journal_def nat_in_journal_def set_jnl_count_def get_nat_ent_def
      SUM_JOURNAL_OFFSET_def buf_simps)

text \<open>A journal entry that passed the checks of the scan.\<close>

definition journal_entry_ok :: "mount \<Rightarrow> nat \<Rightarrow> bool" where
  "journal_entry_ok m i \<longleftrightarrow>
     IS_VALID_BLK_ADDR m (ne_block_addr (nat_in_journal (nat_journal m) i)) \<and>
     IS_VALID_NID m (le32_at (nat_journal m) (SUM_JOURNAL_OFFSET + 2 + 13 * i)) \<and>
     (ne_block_addr (nat_in_journal (nat_journal m) i) \<noteq> 0 \<longrightarrow>
        f2fs_test_bit (nid_in_journal (nat_journal m) i) (nid_bitmap m))"

lemma valid_upd [simp]:
  "IS_VALID_NID (upd_sum_blk t f m) = IS_VALID_NID m"
  "IS_VALID_BLK_ADDR (upd_sum_blk t f m) = IS_VALID_BLK_ADDR m"
  "nid_bitmap (upd_sum_blk t f m) = nid_bitmap m"
  "IS_VALID_NID (m\<lparr>m_fix_on := x\<rparr>) = IS_VALID_NID m"
  "IS_VALID_BLK_ADDR (m\<lparr>m_fix_on := x\<rparr>) = IS_VALID_BLK_ADDR m"
  "nat_journal (m\<lparr>m_fix_on := x\<rparr>) = nat_journal m"
  "nid_bitmap (m\<lparr>m_fix_on := x\<rparr>) = nid_bitmap m"
  by (auto simp: IS_VALID_NID_def IS_VALID_BLK_ADDR_def upd_sum_blk_def nat_journal_def fun_eq_iff)

lemma early_nid_loop_ok:
  assumes "i + k = jnl_count (nat_journal m)" "jnl_count (nat_journal m) < 2 ^ 16"
    and "\<And>j. j < i \<Longrightarrow> journal_entry_ok m j"
  shows "let m' = early_nid_loop m i k in
     jnl_count (nat_journal m') \<le> jnl_count (nat_journal m) \<and>
     (\<forall>j < jnl_count (nat_journal m'). journal_entry_ok m' j) \<and>
     (jnl_count (nat_journal m') < jnl_count (nat_journal m) \<longrightarrow> m_fix_on m') \<and>
     (m_fix_on m \<longrightarrow> m_fix_on m')"
  using assms
proof (induction k arbitrary: m i)
  case (Suc k)
  let ?addr = "ne_block_addr (nat_in_journal (nat_journal m) i)"
  let ?nid = "le32_at (nat_journal m) (SUM_JOURNAL_OFFSET + 2 + 13 * i)"
  let ?cut = "(upd_sum_blk CURSEG_HOT_DATA (set_jnl_count i) m)\<lparr>m_fix_on := True\<rparr>"
  show ?case
  proof (cases "IS_VALID_BLK_ADDR m ?addr \<and> IS_VALID_NID m ?nid")
    case False
    then have "early_nid_loop m i (Suc k) = ?cut" by (auto simp: Let_def)
    moreover have "jnl_count (nat_journal ?cut) = i" using Suc.prems by (simp add: jnl_count_set)
    moreover have "journal_entry_ok ?cut j" if "j < i" for j
      using Suc.prems(3) [OF that] unfolding journal_entry_ok_def
      by (simp only: valid_upd nat_journal_upd set_jnl_count_sel simp_thms) blast
    ultimately show ?thesis using Suc.prems(1) by (simp add: Let_def)
  next
    case True
    define m1 where "m1 = (if ?addr \<noteq> 0 then m\<lparr>nid_bitmap := snd (f2fs_set_bit (unat ?nid) (nid_bitmap m))\<rparr> else m)"
    have "journal_entry_ok m1 j" if "j < i + 1" for j
      using that True Suc.prems(3) [of j]
      by (cases "j = i") (auto simp: journal_entry_ok_def m1_def f2fs_test_set_bit nid_in_journal_def)
    moreover have "nat_journal m1 = nat_journal m" "m_fix_on m1 = m_fix_on m" by (simp_all add: m1_def)
    moreover have "early_nid_loop m i (Suc k) = early_nid_loop m1 (i + 1) k"
      using True by (simp add: Let_def m1_def)
    ultimately show ?thesis using Suc.IH [of "i + 1" m1] Suc.prems by (simp add: Let_def)
  qed
qed (simp add: Let_def)

lemma early_nid_loop_valid:
  "IS_VALID_NID (early_nid_loop m i k) = IS_VALID_NID m \<and>
   IS_VALID_BLK_ADDR (early_nid_loop m i k) = IS_VALID_BLK_ADDR m"
  by (induction m i k rule: early_nid_loop.induct) (auto simp: Let_def simp del: One_nat_def)


text \<open>Property C10. The scan of the NAT itself marks exactly the node numbers that have an
  address there, on top of those the journal scan marked, and never fails.\<close>

theorem late_init_nid_bitmap_exact:
  assumes "nat_wf m" "func m = FSCK \<or> func m = SLOAD"
  shows "\<exists>bm. f2fs_late_init_nid_bitmap m = Some (m\<lparr>nid_bitmap := bm\<rparr>) \<and>
     (\<forall>x. f2fs_test_bit x bm \<longleftrightarrow>
        f2fs_test_bit x (nid_bitmap m) \<or> (x < max_nid m \<and> ne_block_addr (nat_on_disk m x) \<noteq> 0))"
  using late_nid_loop_exact [OF assms(1), of 0 "max_nid m" zero_buf] assms(2)
  by (auto simp: f2fs_late_init_nid_bitmap_def)

subsection \<open>Writing and checking the NAT bits\<close>

lemma count_valid_cong: "(\<And>j. j < k \<Longrightarrow> P j = Q j) \<Longrightarrow> count_valid P k = count_valid Q k"
  by (induction k) auto

lemma nat_bits_src_current:
  assumes "nat_blkaddr m = unat (sb_nat_blkaddr (raw_super m))" "i < nat_blocks m" "j < NAT_ENTRY_PER_BLOCK"
  shows "current_nat_addr m (i * NAT_ENTRY_PER_BLOCK + j) = nat_bits_src m i"
  using assms
  by (simp add: current_nat_addr_def nat_bits_src_def NAT_BLOCK_OFFSET_def Let_def BLOCKS_PER_SEG_def
      NAT_ENTRY_PER_BLOCK_def)

text \<open>How many node numbers of NAT block \<open>i\<close> are in use, node number 0 included.\<close>

definition nat_blk_valid :: "mount \<Rightarrow> nat \<Rightarrow> nat" where
  "nat_blk_valid m i = count_valid (\<lambda>j. (i = 0 \<and> j = 0) \<or>
     ne_block_addr (nat_blk_entry (blocks (dsk m) (nat_bits_src m i)) j) \<noteq> 0) NAT_ENTRY_PER_BLOCK"

lemma nat_bits_loop_exact:
  assumes "\<And>x. i \<le> x \<Longrightarrow> x < i + k \<Longrightarrow> nat_bits_src m x \<le> last_blk (dsk m)"
  shows "\<exists>f e. nat_bits_loop m i k fe = Some (f, e) \<and>
     (\<forall>x. test_bit_le x f \<noteq> 0 \<longleftrightarrow> test_bit_le x (fst fe) \<noteq> 0 \<or>
        (i \<le> x \<and> x < i + k \<and> nat_blk_valid m x = NAT_ENTRY_PER_BLOCK)) \<and>
     (\<forall>x. test_bit_le x e \<noteq> 0 \<longleftrightarrow> test_bit_le x (snd fe) \<noteq> 0 \<or>
        (i \<le> x \<and> x < i + k \<and> nat_blk_valid m x = 0))"
  using assms
proof (induction k arbitrary: i fe)
  case 0
  show ?case by (rule exI [of _ "fst fe"], rule exI [of _ "snd fe"]) auto
next
  case (Suc k)
  define fe' where "fe' = (if nat_blk_valid m i = 0 then (fst fe, snd (test_and_set_bit_le i (snd fe)))
     else if nat_blk_valid m i = NAT_ENTRY_PER_BLOCK then (snd (test_and_set_bit_le i (fst fe)), snd fe) else fe)"
  have step: "nat_bits_loop m i (Suc k) fe = nat_bits_loop m (i + 1) k fe'"
    using Suc.prems [of i] by (simp add: rd_blk_Some fe'_def nat_blk_valid_def Let_def)
  from Suc.IH [of "i + 1" fe'] Suc.prems obtain f e where fe:
    "nat_bits_loop m (i + 1) k fe' = Some (f, e)"
    "\<forall>x. test_bit_le x f \<noteq> 0 \<longleftrightarrow> test_bit_le x (fst fe') \<noteq> 0 \<or>
        (i + 1 \<le> x \<and> x < i + 1 + k \<and> nat_blk_valid m x = NAT_ENTRY_PER_BLOCK)"
    "\<forall>x. test_bit_le x e \<noteq> 0 \<longleftrightarrow> test_bit_le x (snd fe') \<noteq> 0 \<or>
        (i + 1 \<le> x \<and> x < i + 1 + k \<and> nat_blk_valid m x = 0)" by auto
  have f': "test_bit_le x (fst fe') \<noteq> 0 \<longleftrightarrow>
      test_bit_le x (fst fe) \<noteq> 0 \<or> (x = i \<and> nat_blk_valid m x = NAT_ENTRY_PER_BLOCK)" for x
    using test_bit_le_set [of x i "fst fe"] by (cases "x = i") (auto simp: fe'_def NAT_ENTRY_PER_BLOCK_def)
  have e': "test_bit_le x (snd fe') \<noteq> 0 \<longleftrightarrow>
      test_bit_le x (snd fe) \<noteq> 0 \<or> (x = i \<and> nat_blk_valid m x = 0)" for x
    using test_bit_le_set [of x i "snd fe"] by (cases "x = i") (auto simp: fe'_def)
  have "test_bit_le x f \<noteq> 0 \<longleftrightarrow> test_bit_le x (fst fe) \<noteq> 0 \<or>
        (i \<le> x \<and> x < i + Suc k \<and> nat_blk_valid m x = NAT_ENTRY_PER_BLOCK)" for x
    unfolding fe(2) [rule_format] f' by auto
  moreover have "test_bit_le x e \<noteq> 0 \<longleftrightarrow> test_bit_le x (snd fe) \<noteq> 0 \<or>
        (i \<le> x \<and> x < i + Suc k \<and> nat_blk_valid m x = 0)" for x
    unfolding fe(3) [rule_format] e' by auto
  ultimately show ?case unfolding step fe(1) by blast
qed

lemma write_blocks_ok:
  assumes "\<not> disk_ro (dsk m)" "blkaddr + i + k \<le> last_blk (dsk m) + 1"
  shows "write_blocks blkaddr b i k m = m\<lparr>dsk := (dsk m)\<lparr>blocks := \<lambda>a.
     if blkaddr + i \<le> a \<and> a < blkaddr + i + k then at_off ((a - blkaddr) * F2FS_BLKSIZE) b else blocks (dsk m) a\<rparr>\<rparr>"
  using assms
proof (induction k arbitrary: i m)
  case (Suc k)
  let ?m1 = "m\<lparr>dsk := (dsk m)\<lparr>blocks := (blocks (dsk m))(blkaddr + i := at_off (i * F2FS_BLKSIZE) b)\<rparr>\<rparr>"
  have "wr_blk (blkaddr + i) (at_off (i * F2FS_BLKSIZE) b) m = Some ?m1"
    using Suc.prems by (simp add: wr_blk_def blk_write_def)
  then have "write_blocks blkaddr b i (Suc k) m = write_blocks blkaddr b (i + 1) k ?m1" by simp
  then show ?case using Suc.IH [of ?m1 "i + 1"] Suc.prems by (auto simp: fun_eq_iff)
next
  case 0
  have "(blkaddr + i \<le> a \<and> a < blkaddr + i + 0) = False" for a by simp
  then show ?case by (simp only: if_False write_blocks.simps) simp
qed

lemma read_blocks_ok:
  assumes "blkaddr + i + k \<le> last_blk (dsk m) + 1"
  shows "read_blocks blkaddr i k m b = (m, \<lambda>x.
     if i * F2FS_BLKSIZE \<le> x \<and> x < (i + k) * F2FS_BLKSIZE
     then blocks (dsk m) (blkaddr + x div F2FS_BLKSIZE) (x mod F2FS_BLKSIZE) else b x)"
  using assms
proof (induction k arbitrary: i b)
  case (Suc k)
  have "rd_blk m (blkaddr + i) = Some (blocks (dsk m) (blkaddr + i))" using Suc.prems by (simp add: rd_blk_Some)
  moreover have "x div F2FS_BLKSIZE = i \<and> x mod F2FS_BLKSIZE = x - i * F2FS_BLKSIZE"
    if "i * F2FS_BLKSIZE \<le> x" "x < F2FS_BLKSIZE + i * F2FS_BLKSIZE" for x
  proof -
    have "x div F2FS_BLKSIZE = i" using that by (intro div_nat_eqI) (auto simp: mult.commute)
    then show ?thesis by (simp add: modulo_nat_def mult.commute)
  qed
  moreover have "x < i * F2FS_BLKSIZE + F2FS_BLKSIZE \<Longrightarrow> x < (Suc (i + k)) * F2FS_BLKSIZE" for x by (simp add: add_mult_distrib)
  ultimately show ?case using Suc.IH [of "i + 1"] Suc.prems
    by (auto simp: fun_eq_iff put_bytes_def add_mult_distrib)
qed (auto simp: fun_eq_iff)

lemma check_nat_bits_loop_ok:
  assumes "\<And>x. i \<le> x \<Longrightarrow> x < i + k \<Longrightarrow>
      (let valid = count_valid (\<lambda>j. f2fs_test_bit (x * NAT_ENTRY_PER_BLOCK + j) (nid_bitmap m)) NAT_ENTRY_PER_BLOCK
       in (test_bit_le x empt \<noteq> 0 \<longleftrightarrow> valid = 0) \<and> (test_bit_le x full \<noteq> 0 \<longleftrightarrow> valid = NAT_ENTRY_PER_BLOCK))"
  shows "check_nat_bits_loop m full empt i k"
  using assms
proof (induction k arbitrary: i)
  case (Suc k)
  from Suc.prems [of i] Suc.prems Suc.IH [of "i + 1"] show ?case
    by (simp add: Let_def NAT_ENTRY_PER_BLOCK_def)
qed simp

lemma write_read_blocks:
  assumes "\<not> disk_ro (dsk m)" "blkaddr + k \<le> last_blk (dsk m) + 1" "m' = write_blocks blkaddr b 0 k m"
  shows "\<exists>d r. m' = m\<lparr>dsk := d\<rparr> \<and> read_blocks blkaddr 0 k m' zero_buf = (m', r) \<and>
     (\<forall>x < k * F2FS_BLKSIZE. r x = b x)"
proof -
  have m': "m' = m\<lparr>dsk := (dsk m)\<lparr>blocks := \<lambda>a. if blkaddr \<le> a \<and> a < blkaddr + k
      then at_off ((a - blkaddr) * F2FS_BLKSIZE) b else blocks (dsk m) a\<rparr>\<rparr>"
    using write_blocks_ok [of m blkaddr 0 k b] assms by simp
  then have r: "read_blocks blkaddr 0 k m' zero_buf = (m', \<lambda>x.
      if 0 * F2FS_BLKSIZE \<le> x \<and> x < (0 + k) * F2FS_BLKSIZE
      then blocks (dsk m') (blkaddr + x div F2FS_BLKSIZE) (x mod F2FS_BLKSIZE) else zero_buf x)"
    using assms(2) by (intro read_blocks_ok) simp
  have "blocks (dsk m') (blkaddr + x div F2FS_BLKSIZE) (x mod F2FS_BLKSIZE) = b x" if "x < k * F2FS_BLKSIZE" for x
    using that by (simp add: m' less_mult_imp_div_less at_off_apply)
  with r m' show ?thesis by auto
qed

text \<open>The block \<open>write_nat_bits\<close> writes, read back.\<close>

lemma nat_bits_layout:
  assumes "\<And>x. x < 8 + 2 * n \<Longrightarrow>
      rb x = put_le64 0 crc (put_bytes (8 + n) n e (put_bytes 8 n f zero_buf)) x"
  shows "le64_at rb 0 = crc"
    and "x < n * 8 \<Longrightarrow> test_bit_le x (at_off 8 rb) = test_bit_le x f"
    and "x < n * 8 \<Longrightarrow> test_bit_le x (at_off (8 + n) rb) = test_bit_le x e"
proof -
  have "le64_at rb 0 = le64_at (put_le64 0 crc (put_bytes (8 + n) n e (put_bytes 8 n f zero_buf))) 0"
    by (rule le64_at_cong) (simp add: assms)
  then show "le64_at rb 0 = crc" by (simp add: buf_simps)
next
  assume "x < n * 8"
  then have "x div 8 < n" by auto
  then show "test_bit_le x (at_off 8 rb) = test_bit_le x f" "test_bit_le x (at_off (8 + n) rb) = test_bit_le x e"
    by (simp_all add: test_bit_le_def at_off_apply assms buf_simps)
qed

lemma nat_blk_valid_bitmap:
  assumes "nat_wf m" "nat_blkaddr m = unat (sb_nat_blkaddr (raw_super m))" "x < nat_blocks m"
    and "\<And>x. x < max_nid m \<Longrightarrow>
      f2fs_test_bit x (nid_bitmap m) \<longleftrightarrow> x = 0 \<or> ne_block_addr (nat_on_disk m x) \<noteq> 0"
  shows "count_valid (\<lambda>j. f2fs_test_bit (x * NAT_ENTRY_PER_BLOCK + j) (nid_bitmap m)) NAT_ENTRY_PER_BLOCK
      = nat_blk_valid m x"
  unfolding nat_blk_valid_def
proof (rule count_valid_cong)
  fix j assume j: "j < NAT_ENTRY_PER_BLOCK"
  have "x * NAT_ENTRY_PER_BLOCK + j < max_nid m"
    using j assms(1,3) by (simp add: nat_wf_def NAT_ENTRY_PER_BLOCK_def)
  from assms(4) [OF this] j nat_bits_src_current [OF assms(2,3) j]
  show "f2fs_test_bit (x * NAT_ENTRY_PER_BLOCK + j) (nid_bitmap m) \<longleftrightarrow>
    (x = 0 \<and> j = 0) \<or> ne_block_addr (nat_blk_entry (blocks (dsk m) (nat_bits_src m x)) j) \<noteq> 0"
    by (simp add: nat_on_disk_def NAT_ENTRY_PER_BLOCK_def)
qed

text \<open>Property C5. What \<open>write_nat_bits\<close> writes passes \<open>check_nat_bits\<close>: when the bitmap
  of node numbers is the one the NAT scan builds and the journal has been flushed, the bits
  written for the current pack are accepted for the same checkpoint block.\<close>

theorem nat_bits_roundtrip:
  assumes "nat_wf m" "nat_blkaddr m = unat (sb_nat_blkaddr (raw_super m))"
    and "nat_blocks m = nat_bits_bytes (raw_super m) * 8" "jnl_count (nat_journal m) = 0"
    and "\<And>x. x < max_nid m \<Longrightarrow>
      f2fs_test_bit x (nid_bitmap m) \<longleftrightarrow> x = 0 \<or> ne_block_addr (nat_on_disk m x) \<noteq> 0"
    and "nat_bits_addr (raw_super m) (cur_cp m) + nat_bits_blocks (raw_super m) \<le> last_blk (dsk m) + 1"
  shows "\<exists>m'. write_nat_bits m cp (cur_cp m) = Some m' \<and> check_nat_bits m' cp = (0, m')"
proof -
  let ?sb = "raw_super m" let ?n = "nat_bits_bytes ?sb" let ?A = "nat_bits_addr ?sb (cur_cp m)"
    and ?N = "nat_bits_blocks ?sb"
  have src: "nat_bits_src m x \<le> last_blk (dsk m)" if "x < ?n * 8" for x
    using current_nat_addr_range(3) [OF assms(1), of "x * NAT_ENTRY_PER_BLOCK"] that assms(1,3)
      nat_bits_src_current [OF assms(2), of x 0] by (simp add: nat_wf_def NAT_ENTRY_PER_BLOCK_def)
  obtain f e where fe: "nat_bits_loop m 0 (?n * 8) (zero_buf, zero_buf) = Some (f, e)"
    "\<forall>x. test_bit_le x f \<noteq> 0 \<longleftrightarrow> x < ?n * 8 \<and> nat_blk_valid m x = NAT_ENTRY_PER_BLOCK"
    "\<forall>x. test_bit_le x e \<noteq> 0 \<longleftrightarrow> x < ?n * 8 \<and> nat_blk_valid m x = 0"
    using nat_bits_loop_exact [of 0 "?n * 8" m "(zero_buf, zero_buf)"] src
    by (auto simp: test_bit_le_def zero_buf_def)
  define nb where "nb = put_le64 0 (get_cp_crc cp) (put_bytes (8 + ?n) ?n e (put_bytes 8 ?n f zero_buf))"
  define m' where "m' = write_blocks ?A nb 0 ?N m"
  have w: "write_nat_bits m cp (cur_cp m) = Some m'"
    by (simp add: write_nat_bits_def fe(1) m'_def nb_def Let_def)
  obtain d rb where m': "m' = m\<lparr>dsk := d\<rparr>" and rd: "read_blocks ?A 0 ?N m' zero_buf = (m', rb)"
    and rb: "\<forall>x < ?N * F2FS_BLKSIZE. rb x = nb x"
    using write_read_blocks [of m ?A ?N m' nb] assms(1,6) by (auto simp: nat_wf_def m'_def)
  have "8 + 2 * ?n \<le> ?N * F2FS_BLKSIZE" by (simp add: nat_bits_blocks_def F2FS_BLKSIZE_def)
  then have "rb x = nb x" if "x < 8 + 2 * ?n" for x using rb that by simp
  note lay = nat_bits_layout [of ?n rb "get_cp_crc cp" e f, OF this [unfolded nb_def]]
  have "check_nat_bits_loop m' (at_off 8 rb) (at_off (8 + ?n) rb) 0 (?n * 8)"
    by (rule check_nat_bits_loop_ok)
       (use lay(2,3) fe(2,3) nat_blk_valid_bitmap [OF assms(1,2) _ assms(5)] assms(3) in \<open>simp add: Let_def m'\<close>)
  then have "check_nat_bits m' cp = (0, m')"
    using assms(4) rd lay(1) by (simp add: check_nat_bits_def Let_def m')
  with w show ?thesis by blast
qed

subsection \<open>The properties on a small image\<close>

lemma demo_nat:
  "nat_wf (demo_mount jnl)" "nat_journal (demo_mount jnl) = jnl" "max_nid (demo_mount jnl) = 232960"
  "nat_journal_ok (demo_mount demo_journal)"
  "ne_block_addr (nat_on_disk (demo_mount jnl) x) = 0"
  by (simp_all add: nat_wf_def demo_mount_def nat_journal_def nat_journal_ok_def demo_journal_sel
      NAT_ENTRY_PER_BLOCK_def BLOCKS_PER_SEG_def nat_on_disk_def nat_blk_entry_def get_nat_ent_def)

lemma f2fs_test_zero: "\<not> f2fs_test_bit x zero_buf"
  by (simp add: f2fs_test_bit_def zero_buf_def Let_def)

lemma demo_inos: "F2FS_NODE_INO (demo_mount jnl) = 1" "F2FS_META_INO (demo_mount jnl) = 2"
  by (simp_all add: F2FS_NODE_INO_def F2FS_META_INO_def demo_mount_def sample_sb)

lemma demo_get_nat_entry:
  "get_nat_entry (demo_mount demo_journal) 7 = Some \<lparr>ne_version = 0, ne_ino = 7, ne_block_addr = 4100\<rparr>"
  by (simp add: get_nat_entry_def lookup_nat_in_journal_def demo_nat demo_journal_sel)

lemma jnl_count_zero: "jnl_count zero_buf = 0"
  by (simp add: jnl_count_def le16_at_def zero_buf_def)

theorem flush_nat_journal_keeps_entries_witness:
  "\<exists>m'. flush_nat_journal_entries (demo_mount demo_journal) = Some (1, m') \<and> jnl_count (nat_journal m') = 0 \<and>
     get_nat_entry m' 7 = Some \<lparr>ne_version = 0, ne_ino = 7, ne_block_addr = 4100\<rparr>"
  using flush_nat_journal_keeps_entries [OF demo_nat(1) demo_nat(4)]
  by (auto simp: demo_nat demo_journal_sel demo_get_nat_entry)

theorem update_nat_blkaddr_lookup_witness:
  "\<exists>m' e. update_nat_blkaddr (demo_mount zero_buf) 0 9 5000 = Some m' \<and> get_nat_entry m' 9 = Some e \<and>
     ne_block_addr e = 5000"
  using update_nat_blkaddr_lookup [OF demo_nat(1) [of zero_buf], of 9 0 5000]
  by (auto simp: demo_nat jnl_count_zero)

theorem nullify_nat_entry_lookup_witness:
  "\<exists>m'. nullify_nat_entry (demo_mount demo_journal) 7 = Some m' \<and> get_nat_entry m' 7 = Some null_nat_entry"
proof -
  have "7 < max_nid (demo_mount demo_journal)" "jnl_count (nat_journal (demo_mount demo_journal)) \<le> NAT_JOURNAL_ENTRIES"
    by (simp_all add: demo_nat demo_journal_sel NAT_JOURNAL_ENTRIES_def)
  from nullify_nat_entry_lookup [OF demo_nat(1,4) this] obtain m' e where
    "nullify_nat_entry (demo_mount demo_journal) 7 = Some m'" "get_nat_entry m' 7 = Some e"
    "e = null_nat_entry \<or> (7 = F2FS_NODE_INO (demo_mount demo_journal) \<or> 7 = F2FS_META_INO (demo_mount demo_journal)) \<and> ne_block_addr e = 1"
    by blast
  then show ?thesis by (simp add: demo_inos)
qed


theorem late_init_nid_bitmap_exact_witness:
  "\<exists>bm. f2fs_late_init_nid_bitmap (demo_mount zero_buf) = Some ((demo_mount zero_buf)\<lparr>nid_bitmap := bm\<rparr>) \<and>
     f2fs_test_bit 0 bm \<and> \<not> f2fs_test_bit 5 bm"
proof -
  have f: "func (demo_mount zero_buf) = FSCK \<or> func (demo_mount zero_buf) = SLOAD" by (simp add: demo_mount_def)
  have b: "f2fs_test_bit x (nid_bitmap (demo_mount zero_buf)) \<longleftrightarrow> x = 0" for x
    by (simp add: demo_mount_def f2fs_test_set_bit f2fs_test_zero)
  obtain bm where "f2fs_late_init_nid_bitmap (demo_mount zero_buf) = Some ((demo_mount zero_buf)\<lparr>nid_bitmap := bm\<rparr>)"
    and "\<forall>x. f2fs_test_bit x bm \<longleftrightarrow> f2fs_test_bit x (nid_bitmap (demo_mount zero_buf)) \<or>
      (x < max_nid (demo_mount zero_buf) \<and> ne_block_addr (nat_on_disk (demo_mount zero_buf) x) \<noteq> 0)"
    using late_init_nid_bitmap_exact [OF demo_nat(1) f] by blast
  then show ?thesis by (intro exI [of _ bm]) (simp only: b demo_nat(5), simp)
qed

theorem nat_bits_roundtrip_witness:
  "\<exists>m'. write_nat_bits (demo_mount zero_buf) zero_buf 1 = Some m' \<and> check_nat_bits m' zero_buf = (0, m')"
proof -
  let ?m = "demo_mount zero_buf"
  have "f2fs_test_bit x (nid_bitmap ?m) \<longleftrightarrow> x = 0 \<or> ne_block_addr (nat_on_disk ?m x) \<noteq> 0" for x
    unfolding demo_nat(5) by (simp add: demo_mount_def f2fs_test_set_bit f2fs_test_zero)
  moreover have "nat_blkaddr ?m = unat (sb_nat_blkaddr (raw_super ?m))"
    "nat_blocks ?m = nat_bits_bytes (raw_super ?m) * 8" "jnl_count (nat_journal ?m) = 0" "cur_cp ?m = 1"
    "nat_bits_addr (raw_super ?m) (cur_cp ?m) + nat_bits_blocks (raw_super ?m) \<le> last_blk (dsk ?m) + 1"
    by (simp_all add: demo_mount_def sample_sb nat_bits_bytes_def nat_bits_addr_def nat_bits_blocks_def
        F2FS_BLKSIZE_def nat_journal_def jnl_count_zero)
  ultimately show ?thesis using nat_bits_roundtrip [OF demo_nat(1) [of zero_buf], of zero_buf] by simp
qed

end
