(* ===== verification/SitMgr.thy ===== *)
theory SitMgr
  imports NatMgr "HOL-Library.Monad_Syntax"
begin

text \<open>
  The segment information table of \<open>fsck/mount.c\<close>: where a SIT block lives
  (\<open>current_sit_addr\<close>), the segment entries in memory and their construction from the table and
  the journal of the cold data segment (\<open>build_sit_entries\<close>), the checks on an entry
  (\<open>check_block_count\<close>), the bitmap of used blocks (\<open>build_sit_area_bitmap\<close>), and the three ways
  entries go back to the table (\<open>rewrite_sit_area_bitmap\<close>, \<open>flush_sit_journal_entries\<close>,
  \<open>flush_sit_entries\<close>).

  The loop that reads the table is a \<open>do\<close>-\<open>while\<close> whose progress depends on what
  \<open>f2fs_ra_meta_pages\<close> returns: a \<open>partial_function\<close>, for which termination is proved. Memory for
  the tables is taken to be available. The zone information of host-managed devices is not
  there in builds without \<open>linux/blkzoned.h\<close>, so every segment is usable.
\<close>

subsection \<open>Location of a SIT block\<close>

datatype meta_type = META_CP | META_NAT | META_SIT | META_SSA | META_MAX | META_POR

definition SIT_BLK_CNT :: "mount \<Rightarrow> nat" where
  "SIT_BLK_CNT m = (main_segments m + SIT_ENTRY_PER_BLOCK - 1) div SIT_ENTRY_PER_BLOCK"

definition start_cp_addr :: "mount \<Rightarrow> nat" where
  "start_cp_addr m = unat (sb_cp_blkaddr (raw_super m)) + (if cur_cp m = 2 then BLOCKS_PER_SEG else 0)"

definition MAX_BLKADDR :: "mount \<Rightarrow> nat" where
  "MAX_BLKADDR m = seg0_blkaddr m + main_segments m * BLOCKS_PER_SEG"

definition f2fs_is_valid_blkaddr :: "mount \<Rightarrow> nat \<Rightarrow> meta_type \<Rightarrow> bool option" where
  "f2fs_is_valid_blkaddr m blkaddr type =
     (case type of
        META_NAT \<Rightarrow> Some True
      | META_SIT \<Rightarrow> Some (\<not> blkaddr \<ge> SIT_BLK_CNT m)
      | META_SSA \<Rightarrow> Some (\<not> (blkaddr \<ge> main_blkaddr m \<or> blkaddr < ssa_blkaddr m))
      | META_CP \<Rightarrow> Some (\<not> (blkaddr \<ge> sit_base_addr m \<or> blkaddr < start_cp_addr m))
      | META_POR \<Rightarrow> Some (\<not> (blkaddr \<ge> MAX_BLKADDR m \<or> blkaddr < main_blkaddr m))
      | META_MAX \<Rightarrow> None)"

definition check_seg_range :: "mount \<Rightarrow> nat \<Rightarrow> bool" where
  "check_seg_range m segno \<longleftrightarrow> segment_count m = 0 \<or> segno \<le> segment_count m - 1"

definition SIT_BLOCK_OFFSET :: "nat \<Rightarrow> nat" where
  "SIT_BLOCK_OFFSET segno = segno div SIT_ENTRY_PER_BLOCK"

definition SIT_ENTRY_OFFSET :: "nat \<Rightarrow> nat" where
  "SIT_ENTRY_OFFSET segno = segno mod SIT_ENTRY_PER_BLOCK"

definition current_sit_addr :: "mount \<Rightarrow> nat \<Rightarrow> nat option" where
  "current_sit_addr m segno =
     (let offset = SIT_BLOCK_OFFSET segno; blk_addr = sit_base_addr m + offset
      in if \<not> check_seg_range m segno then None
         else Some (if f2fs_test_bit offset (sit_bitmap m) then blk_addr + sit_blocks m else blk_addr))"

text \<open>\<open>f2fs_ra_meta_pages\<close> as far as its callers see it: how many blocks it went through. The
  hints it gives to the device change nothing.\<close>

fun ra_meta_loop :: "mount \<Rightarrow> meta_type \<Rightarrow> nat \<Rightarrow> nat \<Rightarrow> nat option" where
  "ra_meta_loop m type blkno 0 = Some blkno"
| "ra_meta_loop m type blkno (Suc nrpages) = do {
     valid \<leftarrow> f2fs_is_valid_blkaddr m blkno type;
     if \<not> valid then Some blkno
     else do {
       blkno \<leftarrow> (case type of
           META_NAT \<Rightarrow> Some (if blkno \<ge> NAT_BLOCK_OFFSET (max_nid m) then 0 else blkno)
         | META_SIT \<Rightarrow> do { _ \<leftarrow> current_sit_addr m (blkno * SIT_ENTRY_PER_BLOCK); Some blkno }
         | META_MAX \<Rightarrow> None
         | _ \<Rightarrow> Some blkno);
       ra_meta_loop m type (blkno + 1) nrpages
     }
   }"

definition f2fs_ra_meta_pages :: "mount \<Rightarrow> nat \<Rightarrow> nat \<Rightarrow> meta_type \<Rightarrow> int option" where
  "f2fs_ra_meta_pages m start nrpages type =
     map_option (\<lambda>blkno. int blkno - int start) (ra_meta_loop m type start nrpages)"

subsection \<open>Pages and entries\<close>

definition get_current_sit_page :: "mount \<Rightarrow> nat \<Rightarrow> buf option" where
  "get_current_sit_page m segno = do {
     blk_addr \<leftarrow> current_sit_addr m segno;
     rd_blk m blk_addr
   }"

definition rewrite_current_sit_page :: "nat \<Rightarrow> buf \<Rightarrow> mount \<Rightarrow> mount option" where
  "rewrite_current_sit_page segno sit_blk m = do {
     blk_addr \<leftarrow> current_sit_addr m segno;
     wr_blk blk_addr sit_blk m
   }"

definition map_weight :: "buf \<Rightarrow> nat" where
  "map_weight vmap = sum_list (map (\<lambda>i. get_bits_in_byte (vmap i)) [0..<SIT_VBLOCK_MAP_SIZE])"

text \<open>The four checks of \<open>check_block_count\<close>, each of which only sets \<open>c.bug_on\<close>.\<close>

definition sit_entry_bad :: "mount \<Rightarrow> nat \<Rightarrow> sit_entry \<Rightarrow> bool" where
  "sit_entry_bad m segno raw_sit \<longleftrightarrow>
     GET_SIT_VBLOCKS raw_sit > BLOCKS_PER_SEG \<or>
     \<not> check_seg_range m segno \<or>
     GET_SIT_VBLOCKS raw_sit \<noteq> map_weight (sit_valid_map raw_sit) \<or>
     GET_SIT_TYPE raw_sit \<ge> NO_CHECK_TYPE"

definition check_block_count :: "nat \<Rightarrow> sit_entry \<Rightarrow> mount \<Rightarrow> mount" where
  "check_block_count segno raw_sit m =
     (if sit_entry_bad m segno raw_sit then m\<lparr>m_bug_on := True\<rparr> else m)"

definition seg_info_from_raw_sit0 :: "sit_entry \<Rightarrow> seg_entry \<Rightarrow> seg_entry" where
  "seg_info_from_raw_sit0 raw_sit se =
     se\<lparr>valid_blocks := GET_SIT_VBLOCKS raw_sit,
        cur_valid_map := put_bytes 0 SIT_VBLOCK_MAP_SIZE (sit_valid_map raw_sit) (cur_valid_map se),
        seg_type := GET_SIT_TYPE raw_sit, orig_type := GET_SIT_TYPE raw_sit, seg_mtime := sit_mtime raw_sit\<rparr>"

definition seg_info_from_raw_sit :: "mount \<Rightarrow> sit_entry \<Rightarrow> seg_entry \<Rightarrow> seg_entry" where
  "seg_info_from_raw_sit m raw_sit se =
     (let se = seg_info_from_raw_sit0 raw_sit se
      in if \<not> need_fsync_data_record m then se
         else se\<lparr>ckpt_valid_blocks := valid_blocks se,
                 ckpt_valid_map := put_bytes 0 SIT_VBLOCK_MAP_SIZE (cur_valid_map se) (ckpt_valid_map se),
                 ckpt_type := seg_type se\<rparr>)"

definition get_seg_entry :: "mount \<Rightarrow> nat \<Rightarrow> seg_entry option" where
  "get_seg_entry m segno = (if segno < main_segments m then Some (sentries m segno) else None)"

definition set_seg_entry :: "nat \<Rightarrow> seg_entry \<Rightarrow> mount \<Rightarrow> mount" where
  "set_seg_entry segno se m = m\<lparr>sentries := (sentries m)(segno := se)\<rparr>"

definition get_seg_vblocks :: "mount \<Rightarrow> seg_entry \<Rightarrow> nat" where
  "get_seg_vblocks m se = (if \<not> need_fsync_data_record m then valid_blocks se else ckpt_valid_blocks se)"

definition get_seg_bitmap :: "mount \<Rightarrow> seg_entry \<Rightarrow> buf" where
  "get_seg_bitmap m se = (if \<not> need_fsync_data_record m then cur_valid_map se else ckpt_valid_map se)"

definition get_seg_type :: "mount \<Rightarrow> seg_entry \<Rightarrow> nat" where
  "get_seg_type m se = (if \<not> need_fsync_data_record m then seg_type se else ckpt_type se)"

subsection \<open>Building the segment entries\<close>

definition zero_seg_entry :: seg_entry where
  "zero_seg_entry = \<lparr>valid_blocks = 0, cur_valid_map = zero_buf, seg_type = 0, orig_type = 0, ckpt_valid_blocks = 0,
     ckpt_valid_map = zero_buf, ckpt_type = 0, seg_mtime = 0, seg_dirty = False\<rparr>"

definition build_sit_info :: "mount \<Rightarrow> mount" where
  "build_sit_info m =
     (let sb = raw_super m; cp = ckpt m; sit_segs = unat (sb_segment_count_sit sb) div 2
      in m\<lparr>sentries := (\<lambda>_. zero_seg_entry),
           sit_bitmap := put_bytes 0 (bitmap_size cp SIT_BITMAP) (at_off (bitmap_ptr sb cp SIT_BITMAP) cp) zero_buf,
           sit_base_addr := unat (sb_sit_blkaddr sb), sit_blocks := sit_segs * BLOCKS_PER_SEG\<rparr>)"

definition sit_journal :: "mount \<Rightarrow> buf" where
  "sit_journal m = sum_blk (cursegs m CURSEG_COLD_DATA)"

definition MAX_RA_BLOCKS :: nat where "MAX_RA_BLOCKS = 64"

text \<open>The inner loop, over the entries \<open>segno\<close>, \<open>segno + 1\<close>, \<open>...\<close> (\<open>k\<close> of them).\<close>

fun sit_scan_loop :: "mount \<Rightarrow> nat \<Rightarrow> nat \<Rightarrow> mount option" where
  "sit_scan_loop m segno 0 = Some m"
| "sit_scan_loop m segno (Suc k) = do {
     sit_blk \<leftarrow> get_current_sit_page m segno;
     let sit = sit_blk_entry sit_blk (SIT_ENTRY_OFFSET segno);
     let m = check_block_count segno sit m;
     let m = set_seg_entry segno (seg_info_from_raw_sit m sit (sentries m segno)) m;
     sit_scan_loop m (segno + 1) k
   }"

partial_function (option) sit_read_loop :: "mount \<Rightarrow> nat \<Rightarrow> mount option" where
  "sit_read_loop m start_blk = do {
     readed \<leftarrow> f2fs_ra_meta_pages m start_blk MAX_RA_BLOCKS META_SIT;
     let segno = start_blk * SIT_ENTRY_PER_BLOCK;
     let end_segno = (start_blk + nat readed) * SIT_ENTRY_PER_BLOCK;
     m \<leftarrow> sit_scan_loop m segno (min end_segno (main_segments m) - segno);
     let start_blk = start_blk + nat readed;
     if start_blk < SIT_BLK_CNT m then sit_read_loop m start_blk else Some m
   }"

text \<open>The loop over the journal. An entry out of range cuts the journal at its index, which also
  ends the loop: its bound is read again.\<close>

fun sit_journal_loop :: "mount \<Rightarrow> nat \<Rightarrow> nat \<Rightarrow> mount" where
  "sit_journal_loop m i 0 = m"
| "sit_journal_loop m i (Suc k) =
     (if \<not> i < jnl_count (sit_journal m) then m
      else let segno = segno_in_journal (sit_journal m) i
           in if segno \<ge> main_segments m
              then sit_journal_loop
                ((upd_sum_blk CURSEG_COLD_DATA (set_jnl_count i) m)\<lparr>m_fix_on := True\<rparr>) (i + 1) k
              else let sit = sit_in_journal (sit_journal m) i;
                       m = check_block_count segno sit m;
                       m = set_seg_entry segno (seg_info_from_raw_sit m sit (sentries m segno)) m
                   in sit_journal_loop m (i + 1) k)"

definition build_sit_entries :: "mount \<Rightarrow> mount option" where
  "build_sit_entries m = do {
     m \<leftarrow> sit_read_loop m 0;
     let m = (if jnl_count (sit_journal m) > SIT_JOURNAL_ENTRIES
              then (upd_sum_blk CURSEG_COLD_DATA (set_jnl_count SIT_JOURNAL_ENTRIES) m)\<lparr>m_fix_on := True\<rparr>
              else m);
     Some (sit_journal_loop m 0 (jnl_count (sit_journal m)))
   }"

definition late_build_segment_manager :: "mount \<Rightarrow> (int \<times> mount) option" where
  "late_build_segment_manager m =
     (if seg_manager_done m then Some (1, m)
      else do {
        m \<leftarrow> build_sit_entries (m\<lparr>seg_manager_done := True\<rparr>);
        Some (0, m)
      })"

subsection \<open>The bitmap of used blocks\<close>

definition is_ckpt_curseg :: "buf \<Rightarrow> nat \<Rightarrow> bool" where
  "is_ckpt_curseg cp segno \<longleftrightarrow>
     unat (cp_cur_node_segno cp 0) = segno \<or> unat (cp_cur_data_segno cp 0) = segno \<or>
     unat (cp_cur_node_segno cp 1) = segno \<or> unat (cp_cur_data_segno cp 1) = segno \<or>
     unat (cp_cur_node_segno cp 2) = segno \<or> unat (cp_cur_data_segno cp 2) = segno"

fun sit_area_loop :: "mount \<Rightarrow> nat \<Rightarrow> nat \<Rightarrow> buf \<times> nat \<times> nat \<Rightarrow> buf \<times> nat \<times> nat" where
  "sit_area_loop m segno 0 acc = acc"
| "sit_area_loop m segno (Suc k) (bm, sum_vblocks, free_segs) =
     (let se = sentries m segno;
          bm = put_bytes (segno * SIT_VBLOCK_MAP_SIZE) SIT_VBLOCK_MAP_SIZE (cur_valid_map se) bm
      in if valid_blocks se = 0
         then if is_ckpt_curseg (ckpt m) segno then sit_area_loop m (segno + 1) k (bm, sum_vblocks, free_segs)
              else sit_area_loop m (segno + 1) k (bm, sum_vblocks, free_segs + 1)
         else sit_area_loop m (segno + 1) k (bm, sum_vblocks + valid_blocks se, free_segs))"

definition build_sit_area_bitmap :: "mount \<Rightarrow> mount" where
  "build_sit_area_bitmap m =
     (let (bm, sum_vblocks, free_segs) = sit_area_loop m 0 (main_segments m) (zero_buf, 0, 0)
      in m\<lparr>sit_area_bitmap := bm, chk := (chk m)\<lparr>sit_valid_blocks := sum_vblocks, sit_free_segs := free_segs\<rparr>\<rparr>)"

subsection \<open>Writing entries back\<close>

fun rewrite_sit_loop :: "mount \<Rightarrow> nat \<Rightarrow> nat \<Rightarrow> mount option" where
  "rewrite_sit_loop m segno 0 = Some m"
| "rewrite_sit_loop m segno (Suc k) = do {
     sit_blk \<leftarrow> get_current_sit_page m segno;
     let ptr = at_off (segno * SIT_VBLOCK_MAP_SIZE) (main_area_bitmap m);
     let sit = sit_blk_entry sit_blk (SIT_ENTRY_OFFSET segno);
     let sit = sit\<lparr>sit_valid_map := put_bytes 0 SIT_VBLOCK_MAP_SIZE ptr (sit_valid_map sit)\<rparr>;
     let vblocks = map_weight (sit_valid_map sit);
     let se = sentries m segno;
     let m = set_seg_entry segno (se\<lparr>cur_valid_map := put_bytes 0 SIT_VBLOCK_MAP_SIZE ptr (cur_valid_map se),
                                     valid_blocks := vblocks\<rparr>) m;
     let (type, m) = (if seg_type se \<ge> NO_CHECK_TYPE then (0, m\<lparr>m_bug_on := True\<rparr>) else (seg_type se, m));
     let sit = sit\<lparr>sit_vblocks := mk_vblocks type vblocks\<rparr>;
     m \<leftarrow> rewrite_current_sit_page segno (set_sit_blk_entry (SIT_ENTRY_OFFSET segno) sit sit_blk) m;
     rewrite_sit_loop m (segno + 1) k
   }"

definition rewrite_sit_area_bitmap :: "mount \<Rightarrow> mount option" where
  "rewrite_sit_area_bitmap m =
     (let m = upd_sum_blk CURSEG_COLD_DATA (set_jnl_count 0) m
      in rewrite_sit_loop m 0 (main_segments m))"

fun flush_sit_journal_loop :: "mount \<Rightarrow> nat \<Rightarrow> nat \<Rightarrow> mount option" where
  "flush_sit_journal_loop m i 0 = Some m"
| "flush_sit_journal_loop m i (Suc k) = do {
     let segno = segno_in_journal (sit_journal m) i;
     se \<leftarrow> get_seg_entry m segno;
     sit_blk \<leftarrow> get_current_sit_page m segno;
     let sit = sit_blk_entry sit_blk (SIT_ENTRY_OFFSET segno);
     let sit = sit\<lparr>sit_valid_map := put_bytes 0 SIT_VBLOCK_MAP_SIZE (cur_valid_map se) (sit_valid_map sit),
                   sit_vblocks := mk_vblocks (seg_type se) (valid_blocks se), sit_mtime := seg_mtime se\<rparr>;
     m \<leftarrow> rewrite_current_sit_page segno (set_sit_blk_entry (SIT_ENTRY_OFFSET segno) sit sit_blk) m;
     flush_sit_journal_loop m (i + 1) k
   }"

definition flush_sit_journal_entries :: "mount \<Rightarrow> (nat \<times> mount) option" where
  "flush_sit_journal_entries m = do {
     let n = jnl_count (sit_journal m);
     m \<leftarrow> flush_sit_journal_loop m 0 n;
     Some (n, upd_sum_blk CURSEG_COLD_DATA (set_jnl_count 0) m)
   }"

fun flush_sit_loop :: "mount \<Rightarrow> nat \<Rightarrow> nat \<Rightarrow> mount option" where
  "flush_sit_loop m segno 0 = Some m"
| "flush_sit_loop m segno (Suc k) =
     (let se = sentries m segno
      in if \<not> seg_dirty se then flush_sit_loop m (segno + 1) k
         else do {
           sit_blk \<leftarrow> get_current_sit_page m segno;
           let sit = sit_blk_entry sit_blk (SIT_ENTRY_OFFSET segno);
           let sit = sit\<lparr>sit_valid_map := put_bytes 0 SIT_VBLOCK_MAP_SIZE (cur_valid_map se) (sit_valid_map sit),
                         sit_vblocks := mk_vblocks (seg_type se) (valid_blocks se)\<rparr>;
           m \<leftarrow> rewrite_current_sit_page segno (set_sit_blk_entry (SIT_ENTRY_OFFSET segno) sit sit_blk) m;
           flush_sit_loop m (segno + 1) k
         })"

definition flush_sit_entries :: "mount \<Rightarrow> mount option" where
  "flush_sit_entries m = flush_sit_loop m 0 (main_segments m)"

definition get_free_segments :: "mount \<Rightarrow> nat" where
  "get_free_segments m = length (filter (\<lambda>i. valid_blocks (sentries m i) = 0 \<and> \<not> IS_CUR_SEGNO m i) [0..<main_segments m])"

subsection \<open>The SIT as a table\<close>

definition sit_addr :: "mount \<Rightarrow> nat \<Rightarrow> nat" where
  "sit_addr m segno = sit_base_addr m + SIT_BLOCK_OFFSET segno +
     (if f2fs_test_bit (SIT_BLOCK_OFFSET segno) (sit_bitmap m) then sit_blocks m else 0)"

definition sit_on_disk :: "mount \<Rightarrow> nat \<Rightarrow> sit_entry" where
  "sit_on_disk m segno = sit_blk_entry (blocks (dsk m) (sit_addr m segno)) (SIT_ENTRY_OFFSET segno)"

definition sit_wf :: "mount \<Rightarrow> bool" where
  "sit_wf m \<longleftrightarrow> \<not> disk_ro (dsk m) \<and> main_segments m \<le> segment_count m \<and>
     main_segments m \<le> SIT_ENTRY_PER_BLOCK * sit_blocks m \<and>
     sit_base_addr m + 2 * sit_blocks m \<le> last_blk (dsk m) + 1"

definition sit_store :: "nat \<Rightarrow> sit_entry \<Rightarrow> mount \<Rightarrow> mount" where
  "sit_store segno e m = m\<lparr>dsk := (dsk m)\<lparr>blocks := (blocks (dsk m))(sit_addr m segno :=
     set_sit_blk_entry (SIT_ENTRY_OFFSET segno) e (blocks (dsk m) (sit_addr m segno)))\<rparr>\<rparr>"

lemma sit_offset_lt: "\<lbrakk>sit_wf m; segno < main_segments m\<rbrakk> \<Longrightarrow> SIT_BLOCK_OFFSET segno < sit_blocks m"
  unfolding SIT_BLOCK_OFFSET_def sit_wf_def
  by (metis less_le_trans less_mult_imp_div_less mult.commute)

lemma sit_page:
  assumes "sit_wf m" "segno < main_segments m"
  shows "current_sit_addr m segno = Some (sit_addr m segno)" "sit_addr m segno \<le> last_blk (dsk m)"
    "get_current_sit_page m segno = Some (blocks (dsk m) (sit_addr m segno))"
proof -
  show a: "current_sit_addr m segno = Some (sit_addr m segno)"
    using assms by (auto simp: current_sit_addr_def sit_addr_def check_seg_range_def sit_wf_def Let_def)
  show "sit_addr m segno \<le> last_blk (dsk m)"
    using assms sit_offset_lt [OF assms] by (auto simp: sit_addr_def sit_wf_def)
  then show "get_current_sit_page m segno = Some (blocks (dsk m) (sit_addr m segno))"
    by (simp add: get_current_sit_page_def a rd_blk_Some)
qed

lemma sit_rewrite:
  assumes "sit_wf m" "segno < main_segments m"
  shows "rewrite_current_sit_page segno
      (set_sit_blk_entry (SIT_ENTRY_OFFSET segno) e (blocks (dsk m) (sit_addr m segno))) m = Some (sit_store segno e m)"
  using assms sit_page [OF assms]
  by (simp add: rewrite_current_sit_page_def wr_blk_def blk_write_def sit_store_def sit_wf_def)

lemma sit_addr_eq_iff:
  assumes "sit_wf m" "a < main_segments m" "b < main_segments m"
  shows "sit_addr m a = sit_addr m b \<longleftrightarrow> SIT_BLOCK_OFFSET a = SIT_BLOCK_OFFSET b"
  using sit_offset_lt [OF assms(1,2)] sit_offset_lt [OF assms(1,3)] by (auto simp: sit_addr_def)

lemma segno_eq_iff: "a = b \<longleftrightarrow> SIT_BLOCK_OFFSET a = SIT_BLOCK_OFFSET b \<and> SIT_ENTRY_OFFSET a = SIT_ENTRY_OFFSET b"
  unfolding SIT_BLOCK_OFFSET_def SIT_ENTRY_OFFSET_def by (metis div_mult_mod_eq)

lemma sit_store_sel [simp]:
  "sentries (sit_store k e m) = sentries m" "main_segments (sit_store k e m) = main_segments m"
  "cursegs (sit_store k e m) = cursegs m" "main_area_bitmap (sit_store k e m) = main_area_bitmap m"
  "m_bug_on (sit_store k e m) = m_bug_on m" "sit_wf (sit_store k e m) = sit_wf m"
  "sit_addr (sit_store k e m) = sit_addr m" "check_seg_range (sit_store k e m) = check_seg_range m"
  "sit_journal (sit_store k e m) = sit_journal m"
  by (auto simp: sit_store_def sit_wf_def sit_addr_def check_seg_range_def sit_journal_def fun_eq_iff)

lemma blocks_sit_store:
  "blocks (dsk (sit_store k e m)) = (blocks (dsk m))(sit_addr m k :=
     set_sit_blk_entry (SIT_ENTRY_OFFSET k) e (blocks (dsk m) (sit_addr m k)))"
  by (simp add: sit_store_def)

lemma sit_on_disk_store:
  assumes "sit_wf m" "k < main_segments m" "sit_ent_ok e" "x < main_segments m"
  shows "sit_on_disk (sit_store k e m) x = (if x = k then e else sit_on_disk m x)"
  using assms sit_addr_eq_iff [OF assms(1,4,2)] segno_eq_iff [of x k]
  by (auto simp: sit_on_disk_def blocks_sit_store sit_blk_entry_set)

lemma sit_on_disk_ok [simp]: "sit_ent_ok (sit_on_disk m x)"
  by (simp add: sit_on_disk_def sit_blk_entry_def)

definition sit_put :: "nat \<Rightarrow> sit_entry \<Rightarrow> mount \<Rightarrow> mount option" where
  "sit_put segno e m = do {
     sit_blk \<leftarrow> get_current_sit_page m segno;
     rewrite_current_sit_page segno (set_sit_blk_entry (SIT_ENTRY_OFFSET segno) e sit_blk) m
   }"

lemma sit_put_eq: "\<lbrakk>sit_wf m; k < main_segments m\<rbrakk> \<Longrightarrow> sit_put k e m = Some (sit_store k e m)"
  by (simp add: sit_put_def sit_page sit_rewrite)

lemma sit_put_ok:
  assumes "sit_wf m" "k < main_segments m" "sit_ent_ok e"
  shows "\<exists>m'. sit_put k e m = Some m' \<and> sit_wf m' \<and>
    (\<lambda>x. x < main_segments m') = (\<lambda>x. x < main_segments m) \<and>
    (\<forall>x. x < main_segments m \<longrightarrow> sit_on_disk m' x = ((sit_on_disk m)(k := e)) x)"
  using assms by (auto simp: sit_put_eq sit_on_disk_store)

interpretation sit_tab: disk_table sit_on_disk sit_put sit_wf "\<lambda>m k. k < main_segments m" sit_ent_ok
  by unfold_locales (rule sit_put_ok)

subsection \<open>Reading the table\<close>

lemma scan_sel [simp]:
  "need_fsync_data_record (m\<lparr>sentries := f\<rparr>) = need_fsync_data_record m"
  "sit_wf (m\<lparr>sentries := f\<rparr>) = sit_wf m"
  "sit_on_disk (m\<lparr>sentries := f\<rparr>) = sit_on_disk m"
  "sit_entry_bad (m\<lparr>sentries := f\<rparr>) = sit_entry_bad m"
  "seg_info_from_raw_sit (m\<lparr>sentries := f\<rparr>) = seg_info_from_raw_sit m"
  "SIT_BLK_CNT (m\<lparr>sentries := f\<rparr>) = SIT_BLK_CNT m"
  "sit_journal (m\<lparr>sentries := f\<rparr>) = sit_journal m"
  "sit_addr (m\<lparr>sentries := f\<rparr>) = sit_addr m"
  "need_fsync_data_record (m\<lparr>m_bug_on := g\<rparr>) = need_fsync_data_record m"
  "sit_wf (m\<lparr>m_bug_on := g\<rparr>) = sit_wf m"
  "sit_on_disk (m\<lparr>m_bug_on := g\<rparr>) = sit_on_disk m"
  "sit_entry_bad (m\<lparr>m_bug_on := g\<rparr>) = sit_entry_bad m"
  "seg_info_from_raw_sit (m\<lparr>m_bug_on := g\<rparr>) = seg_info_from_raw_sit m"
  "SIT_BLK_CNT (m\<lparr>m_bug_on := g\<rparr>) = SIT_BLK_CNT m"
  "sit_journal (m\<lparr>m_bug_on := g\<rparr>) = sit_journal m"
  "sit_addr (m\<lparr>m_bug_on := g\<rparr>) = sit_addr m"
  "need_fsync_data_record (m\<lparr>m_fix_on := g\<rparr>) = need_fsync_data_record m"
  "sit_wf (m\<lparr>m_fix_on := g\<rparr>) = sit_wf m"
  "sit_on_disk (m\<lparr>m_fix_on := g\<rparr>) = sit_on_disk m"
  "sit_entry_bad (m\<lparr>m_fix_on := g\<rparr>) = sit_entry_bad m"
  "seg_info_from_raw_sit (m\<lparr>m_fix_on := g\<rparr>) = seg_info_from_raw_sit m"
  "SIT_BLK_CNT (m\<lparr>m_fix_on := g\<rparr>) = SIT_BLK_CNT m"
  "sit_journal (m\<lparr>m_fix_on := g\<rparr>) = sit_journal m"
  "sit_addr (m\<lparr>m_fix_on := g\<rparr>) = sit_addr m"
  by (auto simp: need_fsync_data_record_def sit_wf_def sit_on_disk_def sit_addr_def sit_entry_bad_def check_seg_range_def
      seg_info_from_raw_sit_def SIT_BLK_CNT_def sit_journal_def fun_eq_iff Let_def)

text \<open>One entry taken over, from the table or the journal.\<close>

lemma take_entry:
  "set_seg_entry k (seg_info_from_raw_sit (check_block_count k e m) e (sentries (check_block_count k e m) k))
     (check_block_count k e m) =
   m\<lparr>sentries := (sentries m)(k := seg_info_from_raw_sit m e (sentries m k)),
     m_bug_on := m_bug_on m \<or> sit_entry_bad m k e\<rparr>"
  by (auto simp: check_block_count_def set_seg_entry_def)

lemma sit_scan_loop_eq:
  assumes "sit_wf m" "segno + k \<le> main_segments m"
  shows "sit_scan_loop m segno k = Some (m\<lparr>
     sentries := \<lambda>x. if segno \<le> x \<and> x < segno + k then seg_info_from_raw_sit m (sit_on_disk m x) (sentries m x)
                    else sentries m x,
     m_bug_on := m_bug_on m \<or> (\<exists>x. segno \<le> x \<and> x < segno + k \<and> sit_entry_bad m x (sit_on_disk m x))\<rparr>)"
  using assms
proof (induction k arbitrary: segno m)
  case 0
  have "(\<exists>x. segno \<le> x \<and> x < segno + 0 \<and> P x) = False" for P by auto
  moreover have "(segno \<le> x \<and> x < segno + 0) = False" for x by auto
  ultimately show ?case by (simp only: if_False sit_scan_loop.simps) simp
next
  case (Suc k)
  let ?e = "sit_on_disk m segno"
  define m1 where "m1 = m\<lparr>sentries := (sentries m)(segno := seg_info_from_raw_sit m ?e (sentries m segno)),
     m_bug_on := m_bug_on m \<or> sit_entry_bad m segno ?e\<rparr>"
  have "sit_scan_loop m segno (Suc k) = sit_scan_loop m1 (segno + 1) k"
    using Suc.prems by (simp add: sit_page Let_def take_entry sit_on_disk_def [symmetric] m1_def)
  also have "\<dots> = Some (m1\<lparr>
     sentries := \<lambda>x. if segno + 1 \<le> x \<and> x < segno + 1 + k then seg_info_from_raw_sit m1 (sit_on_disk m1 x) (sentries m1 x)
                    else sentries m1 x,
     m_bug_on := m_bug_on m1 \<or> (\<exists>x. segno + 1 \<le> x \<and> x < segno + 1 + k \<and> sit_entry_bad m1 x (sit_on_disk m1 x))\<rparr>)"
    using Suc.prems by (intro Suc.IH) (simp_all add: m1_def)
  also have "\<dots> = Some (m\<lparr>
     sentries := \<lambda>x. if segno \<le> x \<and> x < segno + Suc k then seg_info_from_raw_sit m (sit_on_disk m x) (sentries m x)
                    else sentries m x,
     m_bug_on := m_bug_on m \<or> (\<exists>x. segno \<le> x \<and> x < segno + Suc k \<and> sit_entry_bad m x (sit_on_disk m x))\<rparr>)"
  proof -
    have ex: "(\<exists>x. segno \<le> x \<and> x < segno + Suc k \<and> P x) \<longleftrightarrow> P segno \<or> (\<exists>x. segno + 1 \<le> x \<and> x < segno + 1 + k \<and> P x)" for P
      by (metis Suc_eq_plus1 Suc_leD add_Suc_right add_Suc_shift le_eq_less_or_eq less_add_Suc1 not_less_eq_eq less_eq_Suc_le)
    have fn: "(\<lambda>x. if segno + 1 \<le> x \<and> x < segno + 1 + k then seg_info_from_raw_sit m1 (sit_on_disk m1 x) (sentries m1 x)
                    else sentries m1 x) =
      (\<lambda>x. if segno \<le> x \<and> x < segno + Suc k then seg_info_from_raw_sit m (sit_on_disk m x) (sentries m x)
                    else sentries m x)"
      by (auto simp: m1_def fun_eq_iff)
    show ?thesis unfolding fn ex by (simp add: m1_def)
  qed
  finally show ?case .
qed


lemma ra_meta_loop_sit:
  assumes "sit_wf m" "blk \<le> SIT_BLK_CNT m"
  shows "ra_meta_loop m META_SIT blk n = Some (min (blk + n) (SIT_BLK_CNT m))"
  using assms(2)
proof (induction n arbitrary: blk)
  case (Suc n)
  show ?case
  proof (cases "blk = SIT_BLK_CNT m")
    case False
    with Suc.prems have lt: "blk < SIT_BLK_CNT m" by simp
    then have "blk * SIT_ENTRY_PER_BLOCK < main_segments m"
      unfolding SIT_BLK_CNT_def SIT_ENTRY_PER_BLOCK_def by linarith
    then have "current_sit_addr m (blk * SIT_ENTRY_PER_BLOCK) = Some (sit_addr m (blk * SIT_ENTRY_PER_BLOCK))"
      using assms(1) by (rule sit_page(1) [rotated])
    then show ?thesis using Suc.IH [of "blk + 1"] lt by (simp add: f2fs_is_valid_blkaddr_def)
  qed (simp add: f2fs_is_valid_blkaddr_def)
qed simp

lemma sit_scan_loop_append:
  "sit_scan_loop m segno (j + k) = Option.bind (sit_scan_loop m segno j) (\<lambda>m'. sit_scan_loop m' (segno + j) k)"
  by (induction j arbitrary: m segno) (simp_all add: Let_def)

lemma sit_read_loop_eq:
  assumes "sit_wf m" "s \<le> SIT_BLK_CNT m"
  shows "sit_read_loop m s = sit_scan_loop m (s * SIT_ENTRY_PER_BLOCK) (main_segments m - s * SIT_ENTRY_PER_BLOCK)"
  using assms
proof (induction "SIT_BLK_CNT m - s" arbitrary: m s rule: less_induct)
  case less
  let ?E = SIT_ENTRY_PER_BLOCK and ?c = "SIT_BLK_CNT m"
  define t where "t = min (s + MAX_RA_BLOCKS) ?c"
  have st: "s \<le> t" "t \<le> ?c" using less.prems by (auto simp: t_def)
  have last: "main_segments m \<le> ?c * ?E" by (simp add: SIT_BLK_CNT_def SIT_ENTRY_PER_BLOCK_def)
  define j where "j = min (t * ?E) (main_segments m) - s * ?E"
  define m1 where "m1 = the (sit_scan_loop m (s * ?E) j)"
  have sj: "s * ?E + j \<le> main_segments m \<or> j = 0" by (auto simp: j_def)
  have scan: "sit_scan_loop m (s * ?E) j = Some m1"
    using sj sit_scan_loop_eq [OF less.prems(1), of "s * ?E" j] by (auto simp: m1_def)
  have m1: "sit_wf m1" "main_segments m1 = main_segments m" "SIT_BLK_CNT m1 = ?c"
    using sj sit_scan_loop_eq [OF less.prems(1), of "s * ?E" j] scan less.prems(1) by auto
  have ra: "f2fs_ra_meta_pages m s MAX_RA_BLOCKS META_SIT = Some (int t - int s)"
    by (simp add: f2fs_ra_meta_pages_def ra_meta_loop_sit [OF less.prems] t_def)
  have step: "sit_read_loop m s = (if t < ?c then sit_read_loop m1 t else Some m1)"
  proof -
    have "s + nat (int t - int s) = t" using st by simp
    then show ?thesis by (subst sit_read_loop.simps) (simp add: ra Let_def scan [unfolded j_def] m1)
  qed
  show ?case
  proof (cases "t < ?c")
    case True
    then have "s < t" by (auto simp: t_def MAX_RA_BLOCKS_def)
    then have "sit_read_loop m1 t = sit_scan_loop m1 (t * ?E) (main_segments m - t * ?E)"
      using less.hyps [of m1 t] m1 True by simp
    moreover have "t * ?E < main_segments m"
      using True unfolding SIT_BLK_CNT_def SIT_ENTRY_PER_BLOCK_def by linarith
    then have "main_segments m - s * ?E = j + (main_segments m - t * ?E)" "s * ?E + j = t * ?E"
      using st by (auto simp: j_def SIT_ENTRY_PER_BLOCK_def)
    ultimately show ?thesis using True step scan by (simp add: sit_scan_loop_append)
  next
    case False
    with st last have "j = main_segments m - s * ?E" by (simp add: j_def)
    then show ?thesis using False step scan by simp
  qed
qed

subsection \<open>Packed block counts\<close>

lemma and_3ff: "(w :: u16) AND 0x3ff = take_bit 10 w"
  by (simp add: take_bit_eq_mask mask_eq_exp_minus_1)

lemma drop_and_not_mask: "drop_bit k ((w :: u16) AND NOT (mask k)) = drop_bit k w"
  by (intro bit_word_eqI) (auto simp: bit_simps dest: bit_imp_le_length)

lemma drop_and_not_3ff: "drop_bit 10 ((w :: u16) AND NOT 0x3ff) = drop_bit 10 w"
  using drop_and_not_mask [of 10 w] by (simp add: mask_eq_exp_minus_1)

lemma mk_vblocks_get:
  assumes "t < 64" "v < 1024"
  shows "GET_SIT_VBLOCKS (e\<lparr>sit_vblocks := mk_vblocks t v\<rparr>) = v" "GET_SIT_TYPE (e\<lparr>sit_vblocks := mk_vblocks t v\<rparr>) = t"
proof -
  have u: "unat (of_nat v :: u16) = v" "unat (of_nat t :: u16) = t" using assms by (simp_all add: unat_of_nat)
  have v: "take_bit 10 (of_nat v :: u16) = of_nat v" "drop_bit 10 (of_nat v :: u16) = 0"
    using assms(2) by (simp_all only: word_unat_eq_iff unsigned_take_bit_eq unsigned_drop_bit_eq u)
      (simp_all add: take_bit_nat_eq_self drop_bit_eq_div)
  have t: "drop_bit 10 (push_bit 10 (of_nat t :: u16)) = of_nat t"
    using assms(1) by (simp only: word_unat_eq_iff unsigned_drop_bit_eq unsigned_push_bit_eq u)
      (simp add: take_bit_nat_eq_self push_bit_eq_mult drop_bit_eq_div)
  show "GET_SIT_VBLOCKS (e\<lparr>sit_vblocks := mk_vblocks t v\<rparr>) = v"
    using assms(2) by (simp add: GET_SIT_VBLOCKS_def mk_vblocks_def SIT_VBLOCKS_SHIFT_def and_3ff take_bit_or
        take_bit_push_bit v u)
  show "GET_SIT_TYPE (e\<lparr>sit_vblocks := mk_vblocks t v\<rparr>) = t"
  proof -
    have "sit_vblocks (e\<lparr>sit_vblocks := w\<rparr>) = w" for w by simp
    then show ?thesis
      by (simp only: GET_SIT_TYPE_def mk_vblocks_def SIT_VBLOCKS_SHIFT_def drop_and_not_3ff drop_bit_or v t u
          or.right_neutral)
  qed
qed

lemma mk_vblocks_of_get: "mk_vblocks (GET_SIT_TYPE e) (GET_SIT_VBLOCKS e) = sit_vblocks e"
  unfolding mk_vblocks_def GET_SIT_TYPE_def GET_SIT_VBLOCKS_def SIT_VBLOCKS_SHIFT_def drop_and_not_3ff and_3ff
  by (intro bit_word_eqI) (auto simp: bit_simps)

lemma map_weight_card: "map_weight vmap = card {b. b < BLOCKS_PER_SEG \<and> f2fs_test_bit b vmap}"
proof -
  have "map_weight vmap = (\<Sum>k < 64. get_bits_in_byte (vmap k))"
    by (simp add: map_weight_def SIT_VBLOCK_MAP_SIZE_def interv_sum_list_conv_sum_set_nat atLeast0LessThan)
  then show ?thesis by (simp add: ones_by_bytes BLOCKS_PER_SEG_def)
qed

lemma map_weight_le: "map_weight vmap \<le> BLOCKS_PER_SEG"
proof -
  have "card {b. b < BLOCKS_PER_SEG \<and> f2fs_test_bit b vmap} \<le> card {..<BLOCKS_PER_SEG}"
    by (rule card_mono) auto
  then show ?thesis by (simp add: map_weight_card)
qed

lemma map_weight_cong: "(\<And>i. i < 64 \<Longrightarrow> a i = b i) \<Longrightarrow> map_weight a = map_weight b"
  unfolding map_weight_def SIT_VBLOCK_MAP_SIZE_def by (rule arg_cong [where f = sum_list]) auto

subsection \<open>Journal and table together\<close>

definition sit_journal_list :: "mount \<Rightarrow> (nat \<times> sit_entry) list" where
  "sit_journal_list m = map (\<lambda>i. (segno_in_journal (sit_journal m) i, sit_in_journal (sit_journal m) i))
     [0..<jnl_count (sit_journal m)]"

text \<open>The entry of a segment the file system means: the last one of the journal, or the one of
  the table.\<close>

definition sit_current :: "mount \<Rightarrow> nat \<Rightarrow> sit_entry" where
  "sit_current m segno =
     (case map_of (rev (sit_journal_list m)) segno of Some e \<Rightarrow> e | None \<Rightarrow> sit_on_disk m segno)"

definition sit_journal_ok :: "mount \<Rightarrow> bool" where
  "sit_journal_ok m \<longleftrightarrow> jnl_count (sit_journal m) \<le> SIT_JOURNAL_ENTRIES \<and>
     (\<forall>i < jnl_count (sit_journal m). segno_in_journal (sit_journal m) i < main_segments m)"

lemma seg_info_twice [simp]:
  "seg_info_from_raw_sit m e (seg_info_from_raw_sit m e' se) = seg_info_from_raw_sit m e se"
  by (cases se) (simp add: seg_info_from_raw_sit_def seg_info_from_raw_sit0_def Let_def)

lemma sit_journal_loop_eq:
  assumes "\<forall>j < jnl_count (sit_journal m). segno_in_journal (sit_journal m) j < main_segments m"
    "i + k = jnl_count (sit_journal m)"
  shows "\<exists>bug. sit_journal_loop m i k = m\<lparr>sentries := \<lambda>x.
      case map_of (rev (map (\<lambda>j. (segno_in_journal (sit_journal m) j, sit_in_journal (sit_journal m) j)) [i..<i + k])) x of
        Some e \<Rightarrow> seg_info_from_raw_sit m e (sentries m x) | None \<Rightarrow> sentries m x, m_bug_on := bug\<rparr> \<and>
     (bug \<longleftrightarrow> m_bug_on m \<or> (\<exists>j. i \<le> j \<and> j < i + k \<and>
        sit_entry_bad m (segno_in_journal (sit_journal m) j) (sit_in_journal (sit_journal m) j)))"
  using assms
proof (induction k arbitrary: i m)
  case 0
  then show ?case by (intro exI [of _ "m_bug_on m"]) auto
next
  case (Suc k)
  let ?s = "segno_in_journal (sit_journal m)" and ?e = "sit_in_journal (sit_journal m)"
  define m1 where "m1 = m\<lparr>sentries := (sentries m)(?s i := seg_info_from_raw_sit m (?e i) (sentries m (?s i))),
     m_bug_on := m_bug_on m \<or> sit_entry_bad m (?s i) (?e i)\<rparr>"
  have step: "sit_journal_loop m i (Suc k) = sit_journal_loop m1 (i + 1) k"
  proof -
    have "i < jnl_count (sit_journal m)" "\<not> main_segments m \<le> ?s i"
      using Suc.prems(2) Suc.prems(1) [rule_format, of i] by simp_all
    then show ?thesis by (simp add: Let_def take_entry m1_def)
  qed
  have sel: "sit_journal m1 = sit_journal m" "main_segments m1 = main_segments m" by (simp_all add: m1_def)
  obtain bug where bug: "sit_journal_loop m1 (i + 1) k = m1\<lparr>sentries := \<lambda>x.
      case map_of (rev (map (\<lambda>j. (?s j, ?e j)) [i + 1..<i + 1 + k])) x of
        Some e \<Rightarrow> seg_info_from_raw_sit m1 e (sentries m1 x) | None \<Rightarrow> sentries m1 x, m_bug_on := bug\<rparr>"
     "bug \<longleftrightarrow> m_bug_on m1 \<or> (\<exists>j. i + 1 \<le> j \<and> j < i + 1 + k \<and> sit_entry_bad m1 (?s j) (?e j))"
    using Suc.IH [of m1 "i + 1"] Suc.prems by (auto simp: sel)
  have up: "[i..<i + Suc k] = i # [i + 1..<i + 1 + k]" by (simp add: upt_rec)
  have "(\<lambda>x. case map_of (rev (map (\<lambda>j. (?s j, ?e j)) [i + 1..<i + 1 + k])) x of
        Some e \<Rightarrow> seg_info_from_raw_sit m1 e (sentries m1 x) | None \<Rightarrow> sentries m1 x) =
      (\<lambda>x. case map_of (rev (map (\<lambda>j. (?s j, ?e j)) [i..<i + Suc k])) x of
        Some e \<Rightarrow> seg_info_from_raw_sit m e (sentries m x) | None \<Rightarrow> sentries m x)"
    unfolding up by (rule ext) (auto simp: m1_def map_add_def split: option.splits)
  moreover have "bug \<longleftrightarrow> m_bug_on m \<or> (\<exists>j. i \<le> j \<and> j < i + Suc k \<and> sit_entry_bad m (?s j) (?e j))"
  proof -
    have "(\<exists>j. i \<le> j \<and> j < i + Suc k \<and> P j) \<longleftrightarrow> P i \<or> (\<exists>j. i + 1 \<le> j \<and> j < i + 1 + k \<and> P j)" for P
      by (metis Suc_eq_plus1 Suc_leD add_Suc_right add_Suc_shift le_eq_less_or_eq less_add_Suc1 not_less_eq_eq less_eq_Suc_le)
    then show ?thesis using bug(2) by (simp add: m1_def)
  qed
  ultimately show ?case unfolding step bug(1)
    by (intro exI [of _ bug]) (simp add: m1_def)
qed


lemma sit_journal_ok_loop:
  assumes "sit_journal_ok m"
  shows "\<exists>bug. sit_journal_loop m 0 (jnl_count (sit_journal m)) = m\<lparr>sentries := \<lambda>x.
      case map_of (rev (sit_journal_list m)) x of
        Some e \<Rightarrow> seg_info_from_raw_sit m e (sentries m x) | None \<Rightarrow> sentries m x, m_bug_on := bug\<rparr> \<and>
     (bug \<longleftrightarrow> m_bug_on m \<or> (\<exists>(segno, e) \<in> set (sit_journal_list m). sit_entry_bad m segno e))"
proof -
  have "(\<exists>j. 0 \<le> j \<and> j < 0 + jnl_count (sit_journal m) \<and>
        sit_entry_bad m (segno_in_journal (sit_journal m) j) (sit_in_journal (sit_journal m) j)) \<longleftrightarrow>
      (\<exists>(segno, e) \<in> set (sit_journal_list m). sit_entry_bad m segno e)"
    by (auto simp: sit_journal_list_def)
  with sit_journal_loop_eq [of m 0 "jnl_count (sit_journal m)"] assms show ?thesis
    by (simp add: sit_journal_ok_def sit_journal_list_def)
qed

lemma build_sit_entries_eq:
  assumes "sit_wf m" "sit_journal_ok m"
  shows "\<exists>f bug. build_sit_entries m = Some (m\<lparr>sentries := f, m_bug_on := bug\<rparr>) \<and>
     (\<forall>segno < main_segments m. f segno = seg_info_from_raw_sit m (sit_current m segno) (sentries m segno)) \<and>
     (bug \<longleftrightarrow> m_bug_on m \<or> (\<exists>segno < main_segments m. sit_entry_bad m segno (sit_on_disk m segno)) \<or>
        (\<exists>(segno, e) \<in> set (sit_journal_list m). sit_entry_bad m segno e))"
proof -
  define f1 where "f1 = (\<lambda>x. if x < main_segments m then seg_info_from_raw_sit m (sit_on_disk m x) (sentries m x) else sentries m x)"
  define b1 where "b1 \<longleftrightarrow> m_bug_on m \<or> (\<exists>x < main_segments m. sit_entry_bad m x (sit_on_disk m x))"
  define m1 where "m1 = m\<lparr>sentries := f1, m_bug_on := b1\<rparr>"
  have rd: "sit_read_loop m 0 = Some m1"
    using sit_read_loop_eq [OF assms(1), of 0] sit_scan_loop_eq [OF assms(1), of 0 "main_segments m"]
    by (simp add: m1_def f1_def b1_def)
  have sel: "sit_journal m1 = sit_journal m" "sit_journal_ok m1" "sit_journal_list m1 = sit_journal_list m"
    using assms(2) by (simp_all add: m1_def sit_journal_ok_def sit_journal_list_def)
  obtain bug where bug: "sit_journal_loop m1 0 (jnl_count (sit_journal m)) = m1\<lparr>sentries := \<lambda>x.
      case map_of (rev (sit_journal_list m)) x of
        Some e \<Rightarrow> seg_info_from_raw_sit m1 e (sentries m1 x) | None \<Rightarrow> sentries m1 x, m_bug_on := bug\<rparr>"
     "bug \<longleftrightarrow> m_bug_on m1 \<or> (\<exists>(segno, e) \<in> set (sit_journal_list m). sit_entry_bad m1 segno e)"
    using sit_journal_ok_loop [OF sel(2)] unfolding sel by blast
  define f where "f = (\<lambda>x. case map_of (rev (sit_journal_list m)) x of
        Some e \<Rightarrow> seg_info_from_raw_sit m1 e (sentries m1 x) | None \<Rightarrow> sentries m1 x)"
  have "build_sit_entries m = Some (m\<lparr>sentries := f, m_bug_on := bug\<rparr>)"
    using assms(2) by (simp add: build_sit_entries_def rd sel Let_def sit_journal_ok_def bug(1))
      (simp add: m1_def f_def)
  moreover have "f segno = seg_info_from_raw_sit m (sit_current m segno) (sentries m segno)" if "segno < main_segments m" for segno
    using that by (auto simp: f_def m1_def f1_def sit_current_def split: option.splits)
  moreover have "bug \<longleftrightarrow> m_bug_on m \<or> (\<exists>segno < main_segments m. sit_entry_bad m segno (sit_on_disk m segno)) \<or>
        (\<exists>(segno, e) \<in> set (sit_journal_list m). sit_entry_bad m segno e)"
    using bug(2) by (simp add: m1_def b1_def)
  ultimately show ?thesis by blast
qed

text \<open>Property C23. Building the segment entries always ends: whatever the read-ahead returns, the
  loop covers every segment, the entry of a segment is the one of the journal where there is one and
  the one of the table otherwise, and an error is reported exactly when some entry read is
  inconsistent.\<close>

theorem build_sit_entries_complete:
  assumes "sit_wf m" "sit_journal_ok m"
  shows "\<exists>m'. build_sit_entries m = Some m' \<and>
     (\<forall>segno < main_segments m.
        sentries m' segno = seg_info_from_raw_sit m (sit_current m segno) (sentries m segno)) \<and>
     (m_bug_on m' \<longleftrightarrow> m_bug_on m \<or> (\<exists>segno < main_segments m. sit_entry_bad m segno (sit_on_disk m segno)) \<or>
        (\<exists>(segno, e) \<in> set (sit_journal_list m). sit_entry_bad m segno e))"
proof -
  obtain f bug where "build_sit_entries m = Some (m\<lparr>sentries := f, m_bug_on := bug\<rparr>)"
    "\<forall>segno < main_segments m. f segno = seg_info_from_raw_sit m (sit_current m segno) (sentries m segno)"
    "bug \<longleftrightarrow> m_bug_on m \<or> (\<exists>segno < main_segments m. sit_entry_bad m segno (sit_on_disk m segno)) \<or>
        (\<exists>(segno, e) \<in> set (sit_journal_list m). sit_entry_bad m segno e)"
    using build_sit_entries_eq [OF assms] by blast
  then show ?thesis by (intro exI [of _ "m\<lparr>sentries := f, m_bug_on := bug\<rparr>"]) simp
qed

subsection \<open>Flushing the journal\<close>

definition ent_of_seg :: "seg_entry \<Rightarrow> sit_entry" where
  "ent_of_seg se = \<lparr>sit_vblocks = mk_vblocks (seg_type se) (valid_blocks se),
     sit_valid_map = put_bytes 0 SIT_VBLOCK_MAP_SIZE (cur_valid_map se) zero_buf, sit_mtime = seg_mtime se\<rparr>"

lemma ent_of_seg_ok [simp]: "sit_ent_ok (ent_of_seg se)"
  by (simp add: ent_of_seg_def sit_ent_ok_def put_bytes_def zero_buf_def)

lemma put_bytes_sit_map:
  "sit_ent_ok e \<Longrightarrow> put_bytes 0 SIT_VBLOCK_MAP_SIZE src (sit_valid_map e) = put_bytes 0 SIT_VBLOCK_MAP_SIZE src zero_buf"
  by (rule ext) (auto simp: sit_ent_ok_def put_bytes_def zero_buf_def)

lemma ent_of_seg_info:
  assumes "sit_ent_ok e"
  shows "ent_of_seg (seg_info_from_raw_sit m e se) = e"
proof -
  have "put_bytes 0 SIT_VBLOCK_MAP_SIZE (put_bytes 0 SIT_VBLOCK_MAP_SIZE (sit_valid_map e) x) zero_buf = sit_valid_map e" for x
    using assms by (intro ext) (auto simp: sit_ent_ok_def put_bytes_def zero_buf_def)
  then show ?thesis
    by (simp add: ent_of_seg_def seg_info_from_raw_sit_def seg_info_from_raw_sit0_def Let_def mk_vblocks_of_get)
qed

lemma sit_current_ok [simp]: "sit_ent_ok (sit_current m x)"
  by (auto simp: sit_current_def sit_journal_list_def sit_in_journal_def dest!: map_of_SomeD split: option.splits)

lemma flush_sit_journal_loop_wr_list:
  assumes "sit_wf m" "\<forall>j < i + k. segno_in_journal (sit_journal m) j < main_segments m"
  shows "flush_sit_journal_loop m i k = sit_tab.wr_list
     (map (\<lambda>j. (segno_in_journal (sit_journal m) j, ent_of_seg (sentries m (segno_in_journal (sit_journal m) j)))) [i..<i + k]) m"
  using assms
proof (induction k arbitrary: i m)
  case (Suc k)
  let ?s = "segno_in_journal (sit_journal m)"
  define m1 where "m1 = sit_store (?s i) (ent_of_seg (sentries m (?s i))) m"
  have s: "?s i < main_segments m" using Suc.prems(2) by simp
  have up: "[i..<i + Suc k] = i # [i + 1..<i + 1 + k]" by (simp add: upt_rec)
  have "(sit_blk_entry (blocks (dsk m) (sit_addr m (?s i))) (SIT_ENTRY_OFFSET (?s i)))
      \<lparr>sit_valid_map := put_bytes 0 SIT_VBLOCK_MAP_SIZE (cur_valid_map (sentries m (?s i))) (sit_valid_map (sit_on_disk m (?s i))),
       sit_vblocks := mk_vblocks (seg_type (sentries m (?s i))) (valid_blocks (sentries m (?s i))),
       sit_mtime := seg_mtime (sentries m (?s i))\<rparr> = ent_of_seg (sentries m (?s i))"
    by (simp add: ent_of_seg_def put_bytes_sit_map)
  then have "flush_sit_journal_loop m i (Suc k) = flush_sit_journal_loop m1 (i + 1) k"
    using s Suc.prems(1) by (simp add: get_seg_entry_def sit_page Let_def m1_def sit_rewrite sit_on_disk_def)
  also have "\<dots> = sit_tab.wr_list
     (map (\<lambda>j. (?s j, ent_of_seg (sentries m (?s j)))) [i + 1..<i + 1 + k]) m1"
    using Suc.IH [of m1 "i + 1"] Suc.prems by (simp add: m1_def)
  finally show ?case unfolding up using s Suc.prems(1) by (simp add: sit_put_eq m1_def)
qed simp

lemma map_of_rev_key: "map_of (rev (map (\<lambda>j. (f j, g (f j))) xs)) k = (if k \<in> f ` set xs then Some (g k) else None)"
  by (induction xs) (auto simp: map_add_def split: option.splits)

text \<open>Property C24. Flushing the SIT journal loses nothing: after the segment entries have been
  built, writing those of the journal to the table and emptying the journal leaves the entry the file
  system means for each segment as it was.\<close>

theorem flush_sit_journal_keeps_entries:
  assumes "sit_wf m" "sit_journal_ok m" "build_sit_entries m = Some m1"
  shows "\<exists>m2. flush_sit_journal_entries m1 = Some (jnl_count (sit_journal m), m2) \<and>
     jnl_count (sit_journal m2) = 0 \<and>
     (\<forall>segno < main_segments m. sit_current m2 segno = sit_current m segno)"
proof -
  let ?n = "jnl_count (sit_journal m)" and ?s = "segno_in_journal (sit_journal m)"
  obtain f bug where m1: "m1 = m\<lparr>sentries := f, m_bug_on := bug\<rparr>" and
    f: "\<forall>segno < main_segments m. f segno = seg_info_from_raw_sit m (sit_current m segno) (sentries m segno)"
    using build_sit_entries_eq [OF assms(1,2)] assms(3) by auto
  have sel: "sit_wf m1" "sit_journal m1 = sit_journal m" "main_segments m1 = main_segments m" "sit_on_disk m1 = sit_on_disk m"
    using assms(1) by (simp_all add: m1)
  have ent: "ent_of_seg (sentries m1 x) = sit_current m x" if "x < main_segments m" for x
    using f that by (simp add: m1 ent_of_seg_info)
  let ?ps = "map (\<lambda>j. (?s j, ent_of_seg (sentries m1 (?s j)))) [0..<0 + ?n]"
  have jn: "\<forall>j < 0 + ?n. ?s j < main_segments m" using assms(2) by (simp add: sit_journal_ok_def)
  then have rng: "fst p < main_segments m1 \<and> sit_ent_ok (snd p)" if "p \<in> set ?ps" for p
    using that by (auto simp: sel)
  from sit_tab.wr_list_ok [OF sel(1) rng] obtain s where
    s: "sit_tab.wr_list ?ps m1 = Some s" "(\<lambda>k. k < main_segments s) = (\<lambda>k. k < main_segments m1)"
      "\<forall>k. k < main_segments m1 \<longrightarrow> sit_on_disk s k = (case map_of (rev ?ps) k of Some e \<Rightarrow> e | None \<Rightarrow> sit_on_disk m1 k)"
    by blast
  define m2 where "m2 = upd_sum_blk CURSEG_COLD_DATA (set_jnl_count 0) s"
  have fl: "flush_sit_journal_entries m1 = Some (?n, m2)"
    using flush_sit_journal_loop_wr_list [OF sel(1), of 0 ?n] jn s(1)
    by (simp add: flush_sit_journal_entries_def Let_def sel m2_def)
  have cnt: "jnl_count (sit_journal m2) = 0"
    by (simp add: m2_def sit_journal_def upd_sum_blk_def jnl_count_set)
  have "sit_current m2 x = sit_current m x" if "x < main_segments m" for x
  proof -
    have "sit_current m2 x = sit_on_disk s x"
      by (simp add: sit_current_def sit_journal_list_def cnt)
         (simp add: m2_def upd_sum_blk_def sit_on_disk_def sit_addr_def)
    also have "\<dots> = (if x \<in> ?s ` {0..<?n} then sit_current m x else sit_on_disk m x)"
      using s(3) that ent [OF that] map_of_rev_key [of ?s "\<lambda>k. ent_of_seg (sentries m1 k)" "[0..<0 + ?n]" x]
      by (auto simp: sel)
    also have "\<dots> = sit_current m x"
    proof -
      have "map_of (rev (sit_journal_list m)) x = None" if "x \<notin> ?s ` {0..<?n}"
        using that by (auto simp: map_of_eq_None_iff sit_journal_list_def image_image)
      then show ?thesis by (auto simp: sit_current_def)
    qed
    finally show ?thesis .
  qed
  with fl cnt show ?thesis by blast
qed

subsection \<open>Rewriting the table from the bitmap of the check\<close>

definition area_slice :: "buf \<Rightarrow> nat \<Rightarrow> buf" where
  "area_slice bm segno = put_bytes 0 SIT_VBLOCK_MAP_SIZE (at_off (segno * SIT_VBLOCK_MAP_SIZE) bm) zero_buf"

definition rewritten_sit :: "mount \<Rightarrow> nat \<Rightarrow> sit_entry" where
  "rewritten_sit m segno = (sit_on_disk m segno)\<lparr>
     sit_valid_map := area_slice (main_area_bitmap m) segno,
     sit_vblocks := mk_vblocks (if seg_type (sentries m segno) \<ge> NO_CHECK_TYPE then 0 else seg_type (sentries m segno))
       (map_weight (area_slice (main_area_bitmap m) segno))\<rparr>"

lemma rewritten_sit_ok: "sit_ent_ok (rewritten_sit m segno)"
  by (simp add: rewritten_sit_def sit_ent_ok_def area_slice_def put_bytes_def zero_buf_def)

lemma area_slice_test:
  assumes "b < BLOCKS_PER_SEG"
  shows "f2fs_test_bit b (area_slice bm segno) = f2fs_test_bit (segno * BLOCKS_PER_SEG + b) bm"
proof -
  have "b div 8 < 64" "(segno * 512 + b) div 8 = segno * 64 + b div 8" "(segno * 512 + b) mod 8 = b mod 8"
  proof -
    have e: "segno * 512 + b = 8 * (segno * 64) + b" by simp
    show "b div 8 < 64" using assms by (simp add: BLOCKS_PER_SEG_def)
    show "(segno * 512 + b) div 8 = segno * 64 + b div 8" "(segno * 512 + b) mod 8 = b mod 8"
      unfolding e by (rule div_mult_self4, simp, rule mod_mult_self4)
  qed
  then show ?thesis
    by (simp add: f2fs_test_bit_iff area_slice_def put_bytes_def at_off_apply SIT_VBLOCK_MAP_SIZE_def BLOCKS_PER_SEG_def)
qed

lemma rewritten_sit_good:
  assumes "check_seg_range m segno"
  shows "\<not> sit_entry_bad m segno (rewritten_sit m segno)"
    "GET_SIT_VBLOCKS (rewritten_sit m segno) = map_weight (area_slice (main_area_bitmap m) segno)"
proof -
  define t where "t = (if seg_type (sentries m segno) \<ge> NO_CHECK_TYPE then 0 else seg_type (sentries m segno))"
  let ?w = "map_weight (area_slice (main_area_bitmap m) segno)"
  have t: "t < NO_CHECK_TYPE" by (simp add: t_def NO_CHECK_TYPE_def)
  have w: "?w \<le> BLOCKS_PER_SEG" by (rule map_weight_le)
  have e: "rewritten_sit m segno = ((sit_on_disk m segno)\<lparr>sit_valid_map := area_slice (main_area_bitmap m) segno\<rparr>)
      \<lparr>sit_vblocks := mk_vblocks t ?w\<rparr>"
    by (simp add: rewritten_sit_def t_def)
  have "t < 64" "?w < 1024" using t w by (simp_all add: NO_CHECK_TYPE_def BLOCKS_PER_SEG_def)
  note g = mk_vblocks_get [OF this, of "(sit_on_disk m segno)\<lparr>sit_valid_map := area_slice (main_area_bitmap m) segno\<rparr>"]
  show "GET_SIT_VBLOCKS (rewritten_sit m segno) = ?w" by (simp only: e g)
  then show "\<not> sit_entry_bad m segno (rewritten_sit m segno)"
    using assms w t by (simp add: sit_entry_bad_def e g)
qed

lemma rewrite_sit_loop_ok:
  assumes "sit_wf m" "segno + k \<le> main_segments m"
  shows "\<exists>m'. rewrite_sit_loop m segno k = Some m' \<and> main_segments m' = main_segments m \<and>
     check_seg_range m' = check_seg_range m \<and> cursegs m' = cursegs m \<and>
     (\<forall>x < main_segments m. sit_on_disk m' x = (if segno \<le> x \<and> x < segno + k then rewritten_sit m x else sit_on_disk m x)) \<and>
     (\<forall>x. segno \<le> x \<and> x < segno + k \<longrightarrow> valid_blocks (sentries m' x) = map_weight (area_slice (main_area_bitmap m) x)) \<and>
     (\<forall>x. \<not> (segno \<le> x \<and> x < segno + k) \<longrightarrow> sentries m' x = sentries m x)"
  using assms
proof (induction k arbitrary: segno m)
  case 0
  then show ?case by (intro exI [of _ m]) auto
next
  case (Suc k)
  let ?se = "sentries m segno" and ?ptr = "at_off (segno * SIT_VBLOCK_MAP_SIZE) (main_area_bitmap m)"
  define m0 where "m0 = m\<lparr>sentries := (sentries m)(segno := ?se\<lparr>
     cur_valid_map := put_bytes 0 SIT_VBLOCK_MAP_SIZE ?ptr (cur_valid_map ?se),
     valid_blocks := map_weight (area_slice (main_area_bitmap m) segno)\<rparr>),
     m_bug_on := m_bug_on m \<or> seg_type ?se \<ge> NO_CHECK_TYPE\<rparr>"
  define m1 where "m1 = sit_store segno (rewritten_sit m segno) m0"
  have lt: "segno < main_segments m" using Suc.prems(2) by simp
  have page: "get_current_sit_page m segno = Some (blocks (dsk m) (sit_addr m segno))"
    using sit_page(3) [OF Suc.prems(1) lt] .
  have slice: "put_bytes 0 SIT_VBLOCK_MAP_SIZE ?ptr (sit_valid_map (sit_on_disk m segno)) = area_slice (main_area_bitmap m) segno"
    by (simp add: area_slice_def put_bytes_sit_map)
  have m0: "sit_wf m0" "main_segments m0 = main_segments m" "sit_addr m0 = sit_addr m" "dsk m0 = dsk m"
      "sit_on_disk m0 = sit_on_disk m" "check_seg_range m0 = check_seg_range m" "cursegs m0 = cursegs m"
      "main_area_bitmap m0 = main_area_bitmap m"
    using Suc.prems(1) by (simp_all add: m0_def check_seg_range_def fun_eq_iff)
  have "rewrite_current_sit_page segno
      (set_sit_blk_entry (SIT_ENTRY_OFFSET segno) (rewritten_sit m segno) (blocks (dsk m) (sit_addr m segno))) m0 = Some m1"
    using sit_rewrite [of m0 segno "rewritten_sit m segno"] m0 lt by (simp add: m1_def)
  then have step: "rewrite_sit_loop m segno (Suc k) = rewrite_sit_loop m1 (segno + 1) k"
    using slice by (simp add: page Let_def sit_on_disk_def [symmetric] rewritten_sit_def set_seg_entry_def m0_def
        split: if_splits)
  have m1: "sit_wf m1" "main_segments m1 = main_segments m" "check_seg_range m1 = check_seg_range m" "cursegs m1 = cursegs m"
      "main_area_bitmap m1 = main_area_bitmap m" "sentries m1 = sentries m0"
    using m0 by (simp_all add: m1_def)
  have disk: "sit_on_disk m1 x = (if x = segno then rewritten_sit m segno else sit_on_disk m x)" if "x < main_segments m" for x
    using sit_on_disk_store [OF m0(1), of segno "rewritten_sit m segno" x] lt that m0 by (simp add: m1_def rewritten_sit_ok)
  have rw: "rewritten_sit m1 x = rewritten_sit m x" if "segno + 1 \<le> x" "x < segno + 1 + k" for x
    using disk [of x] that Suc.prems(2) m1 by (simp add: rewritten_sit_def) (simp add: m0_def)
  obtain m' where m': "rewrite_sit_loop m1 (segno + 1) k = Some m'" "main_segments m' = main_segments m1"
     "check_seg_range m' = check_seg_range m1" "cursegs m' = cursegs m1"
     "\<forall>x < main_segments m1. sit_on_disk m' x = (if segno + 1 \<le> x \<and> x < segno + 1 + k then rewritten_sit m1 x else sit_on_disk m1 x)"
     "\<forall>x. segno + 1 \<le> x \<and> x < segno + 1 + k \<longrightarrow> valid_blocks (sentries m' x) = map_weight (area_slice (main_area_bitmap m1) x)"
     "\<forall>x. \<not> (segno + 1 \<le> x \<and> x < segno + 1 + k) \<longrightarrow> sentries m' x = sentries m1 x"
    using Suc.IH [of m1 "segno + 1"] m1 Suc.prems(2) by auto
  have "sit_on_disk m' x = (if segno \<le> x \<and> x < segno + Suc k then rewritten_sit m x else sit_on_disk m x)"
    if "x < main_segments m" for x
    using m'(5) disk [OF that] rw [of x] that m1 by auto
  moreover have "valid_blocks (sentries m' x) = map_weight (area_slice (main_area_bitmap m) x)"
    if "segno \<le> x \<and> x < segno + Suc k" for x
    using m'(6,7) that m1 by (cases "x = segno") (auto simp: m0_def)
  moreover have "sentries m' x = sentries m x" if "\<not> (segno \<le> x \<and> x < segno + Suc k)" for x
    using m'(7) that m1 by (auto simp: m0_def)
  ultimately show ?case using step m'(1,2,3,4) m1 by auto
qed

lemma upd_cold_sel [simp]:
  "sit_wf (upd_sum_blk t f m) = sit_wf m" "sit_on_disk (upd_sum_blk t f m) = sit_on_disk m"
  "main_segments (upd_sum_blk t f m) = main_segments m" "sentries (upd_sum_blk t f m) = sentries m"
  "check_seg_range (upd_sum_blk t f m) = check_seg_range m" "main_area_bitmap (upd_sum_blk t f m) = main_area_bitmap m"
  "rewritten_sit (upd_sum_blk t f m) = rewritten_sit m"
  by (auto simp: upd_sum_blk_def sit_wf_def sit_on_disk_def sit_addr_def check_seg_range_def rewritten_sit_def fun_eq_iff)

text \<open>Property C25. The repair of the SIT leaves a table that passes its own checks: every entry
  has the map the check found, a block count that is the number of its bits, and a
  type in range, in memory as on disk, and the journal is empty.\<close>

theorem rewrite_sit_area_bitmap_repairs:
  assumes "sit_wf m"
  shows "\<exists>m'. rewrite_sit_area_bitmap m = Some m' \<and> jnl_count (sit_journal m') = 0 \<and>
     (\<forall>segno < main_segments m. let e = sit_on_disk m' segno in
        \<not> sit_entry_bad m' segno e \<and>
        valid_blocks (sentries m' segno) = GET_SIT_VBLOCKS e \<and>
        GET_SIT_VBLOCKS e = card {b. b < BLOCKS_PER_SEG \<and> f2fs_test_bit (segno * BLOCKS_PER_SEG + b) (main_area_bitmap m)} \<and>
        (\<forall>b < BLOCKS_PER_SEG. f2fs_test_bit b (sit_valid_map e) =
           f2fs_test_bit (segno * BLOCKS_PER_SEG + b) (main_area_bitmap m)))"
proof -
  define m0 where "m0 = upd_sum_blk CURSEG_COLD_DATA (set_jnl_count 0) m"
  have wf0: "sit_wf m0" using assms by (simp add: m0_def)
  obtain m' where m': "rewrite_sit_loop m0 0 (main_segments m) = Some m'" "check_seg_range m' = check_seg_range m"
     "cursegs m' = cursegs m0" "\<forall>x < main_segments m. sit_on_disk m' x = rewritten_sit m x"
     "\<forall>x < main_segments m. valid_blocks (sentries m' x) = map_weight (area_slice (main_area_bitmap m) x)"
    using rewrite_sit_loop_ok [OF wf0, of 0 "main_segments m"] by (auto simp: m0_def)
  have cnt: "jnl_count (sit_journal m') = 0"
    using m'(3) by (simp add: sit_journal_def m0_def upd_sum_blk_def jnl_count_set)
  have rng: "check_seg_range m segno" if "segno < main_segments m" for segno
    using assms that by (auto simp: sit_wf_def check_seg_range_def)
  have "let e = sit_on_disk m' segno in
        \<not> sit_entry_bad m' segno e \<and> valid_blocks (sentries m' segno) = GET_SIT_VBLOCKS e \<and>
        GET_SIT_VBLOCKS e = card {b. b < BLOCKS_PER_SEG \<and> f2fs_test_bit (segno * BLOCKS_PER_SEG + b) (main_area_bitmap m)} \<and>
        (\<forall>b < BLOCKS_PER_SEG. f2fs_test_bit b (sit_valid_map e) = f2fs_test_bit (segno * BLOCKS_PER_SEG + b) (main_area_bitmap m))"
    if lt: "segno < main_segments m" for segno
  proof -
    have bad: "sit_entry_bad m' = sit_entry_bad m" by (simp add: fun_eq_iff sit_entry_bad_def m'(2))
    have "{b. b < BLOCKS_PER_SEG \<and> f2fs_test_bit b (area_slice (main_area_bitmap m) segno)} =
      {b. b < BLOCKS_PER_SEG \<and> f2fs_test_bit (segno * BLOCKS_PER_SEG + b) (main_area_bitmap m)}"
      using area_slice_test by auto
    then show ?thesis
      using m'(4,5) lt rewritten_sit_good [OF rng [OF lt]]
      by (simp add: bad Let_def map_weight_card area_slice_test) (simp add: rewritten_sit_def area_slice_test)
  qed
  moreover have "rewrite_sit_area_bitmap m = Some m'"
    using m'(1) by (simp add: rewrite_sit_area_bitmap_def Let_def m0_def)
  ultimately show ?thesis using cnt by blast
qed

text \<open>\<open>MAX_BLKADDR\<close> counts the segments of the main area from segment 0, so the end of the main
  area is out of the range that roll-forward recovery accepts.\<close>

lemma por_rejects_end_of_main:
  assumes "seg0_blkaddr m < main_blkaddr m" "0 < main_segments m"
  shows "main_blkaddr m \<le> START_BLOCK m (main_segments m) - 1 \<and>
    f2fs_is_valid_blkaddr m (START_BLOCK m (main_segments m) - 1) META_POR = Some False"
  using assms by (auto simp: f2fs_is_valid_blkaddr_def MAX_BLKADDR_def START_BLOCK_def BLOCKS_PER_SEG_def)

subsection \<open>The properties on a small image\<close>

text \<open>A journal for the SIT with one entry: segment 3, two blocks in use.\<close>

definition demo_sit :: sit_entry where
  "demo_sit = \<lparr>sit_vblocks = 2, sit_valid_map = (\<lambda>i. if i = 0 then 0xc0 else 0), sit_mtime = 9\<rparr>"

definition demo_sit_journal :: buf where
  "demo_sit_journal = put_sit_ent (SUM_JOURNAL_OFFSET + 6) demo_sit
     (put_le32 (SUM_JOURNAL_OFFSET + 2) 3 (put_le16 SUM_JOURNAL_OFFSET 1 zero_buf))"

lemma demo_sit_facts:
  "sit_wf (demo_mount jnl)" "main_segments (demo_mount jnl) = 20" "sit_journal (demo_mount jnl) = jnl"
  "jnl_count demo_sit_journal = 1" "segno_in_journal demo_sit_journal 0 = 3" "sit_in_journal demo_sit_journal 0 = demo_sit"
  "sit_journal_ok (demo_mount demo_sit_journal)"
proof -
  have ok: "sit_ent_ok demo_sit" by (simp add: demo_sit_def sit_ent_ok_def SIT_VBLOCK_MAP_SIZE_def)
  show "sit_wf (demo_mount jnl)" "main_segments (demo_mount jnl) = 20" and j: "sit_journal (demo_mount jnl) = jnl" for jnl
    by (simp_all add: demo_mount_def sit_wf_def sit_journal_def SIT_ENTRY_PER_BLOCK_def)
  show c: "jnl_count demo_sit_journal = 1" "segno_in_journal demo_sit_journal 0 = 3"
    by (simp_all add: demo_sit_journal_def jnl_count_def segno_in_journal_def put_sit_ent_def SUM_JOURNAL_OFFSET_def
        SIT_VBLOCK_MAP_SIZE_def buf_simps)
  show "sit_in_journal demo_sit_journal 0 = demo_sit"
    by (simp add: demo_sit_journal_def sit_in_journal_def SUM_JOURNAL_OFFSET_def get_put_sit_ent [OF ok])
  show "sit_journal_ok (demo_mount demo_sit_journal)"
    by (simp add: sit_journal_ok_def j c SIT_JOURNAL_ENTRIES_def) (simp add: demo_mount_def)
qed

lemma demo_sit_current: "sit_current (demo_mount demo_sit_journal) 3 = demo_sit"
  by (simp add: sit_current_def sit_journal_list_def demo_sit_facts)

theorem build_sit_entries_complete_witness:
  "\<exists>m'. build_sit_entries (demo_mount demo_sit_journal) = Some m' \<and> valid_blocks (sentries m' 3) = 2"
proof -
  have "GET_SIT_VBLOCKS demo_sit = 2" by (simp add: GET_SIT_VBLOCKS_def demo_sit_def)
  then show ?thesis
    using build_sit_entries_complete [OF demo_sit_facts(1,7)]
    by (auto simp: demo_sit_facts demo_sit_current seg_info_from_raw_sit_def seg_info_from_raw_sit0_def Let_def)
qed

theorem flush_sit_journal_keeps_entries_witness:
  "\<exists>m1 m2. build_sit_entries (demo_mount demo_sit_journal) = Some m1 \<and>
     flush_sit_journal_entries m1 = Some (1, m2) \<and> sit_current m2 3 = demo_sit"
proof -
  obtain f bug where b: "build_sit_entries (demo_mount demo_sit_journal) = Some ((demo_mount demo_sit_journal)\<lparr>sentries := f, m_bug_on := bug\<rparr>)"
    using build_sit_entries_eq [OF demo_sit_facts(1,7)] by blast
  from flush_sit_journal_keeps_entries [OF demo_sit_facts(1,7) b] b show ?thesis
    by (auto simp: demo_sit_facts demo_sit_current)
qed

theorem rewrite_sit_area_bitmap_repairs_witness:
  "\<exists>m'. rewrite_sit_area_bitmap ((demo_mount zero_buf)\<lparr>main_area_bitmap := \<lambda>i. if i = 64 then 1 else 0\<rparr>) = Some m' \<and>
     f2fs_test_bit 7 (sit_valid_map (sit_on_disk m' 1)) \<and> jnl_count (sit_journal m') = 0"
proof -
  let ?m = "(demo_mount zero_buf)\<lparr>main_area_bitmap := \<lambda>i. if i = 64 then 1 else 0\<rparr>"
  have wf: "sit_wf ?m" using demo_sit_facts(1) [of zero_buf] by (simp add: sit_wf_def)
  have "f2fs_test_bit (1 * BLOCKS_PER_SEG + 7) (main_area_bitmap ?m)"
    by (simp add: f2fs_test_bit_iff BLOCKS_PER_SEG_def)
  moreover have "(7 :: nat) < BLOCKS_PER_SEG" "1 < main_segments ?m"
    by (simp_all add: BLOCKS_PER_SEG_def demo_sit_facts)
  ultimately show ?thesis using rewrite_sit_area_bitmap_repairs [OF wf] unfolding Let_def by blast
qed

end
