(* ===== verification/Segment.thy ===== *)
theory Segment
  imports SitMgr
begin

text \<open>
  Current segments, summaries and allocation: the summary blocks and their entries
  (\<open>get_sum_block\<close>, \<open>get_sum_entry\<close>, \<open>update_sum_entry\<close> of \<open>fsck/mount.c\<close>), reading the current
  segments at mount (\<open>build_curseg\<close> and the summary readers), the search for a free block
  (\<open>find_next_free_block\<close>), moving a current segment, writing the current segments to the
  checkpoint, and \<open>reserve_new_block\<close> of \<open>fsck/segment.c\<close>.
\<close>

subsection \<open>Summary blocks\<close>

definition RO_SB :: "mount \<Rightarrow> bool" where
  "RO_SB m \<longleftrightarrow> sb_feature (raw_super m) AND F2FS_FEATURE_RO \<noteq> 0"

definition SEG_TYPE_DATA :: int where "SEG_TYPE_DATA = 0"
definition SEG_TYPE_CUR_DATA :: int where "SEG_TYPE_CUR_DATA = 1"
definition SEG_TYPE_NODE :: int where "SEG_TYPE_NODE = 2"
definition SEG_TYPE_CUR_NODE :: int where "SEG_TYPE_CUR_NODE = 3"
definition SEG_TYPE_MAX :: int where "SEG_TYPE_MAX = 4"

definition IS_SUM_NODE_SEG :: "buf \<Rightarrow> bool" where
  "IS_SUM_NODE_SEG sm \<longleftrightarrow> sum_footer_type sm = SUM_TYPE_NODE"

definition IS_SUM_DATA_SEG :: "buf \<Rightarrow> bool" where
  "IS_SUM_DATA_SEG sm \<longleftrightarrow> sum_footer_type sm = SUM_TYPE_DATA"

text \<open>The block \<open>get_sum_block\<close> returns is the one of a current segment, which later stores
  change, or a copy read from the SSA.\<close>

datatype sum_src = CurSum nat | SsaSum

fun find_cur_segno :: "(nat \<Rightarrow> u32) \<Rightarrow> nat \<Rightarrow> nat list \<Rightarrow> nat option" where
  "find_cur_segno f segno [] = None"
| "find_cur_segno f segno (t # ts) = (if segno = unat (f t) then Some t else find_cur_segno f segno ts)"

definition get_sum_block :: "mount \<Rightarrow> nat \<Rightarrow> (mount \<times> sum_src \<times> buf \<times> int) option" where
  "get_sum_block m segno =
     (let cp = ckpt m; ssa_blk = GET_SUM_BLKADDR m segno
      in case find_cur_segno (cp_cur_node_segno cp) segno [0..<3] of
           Some type \<Rightarrow>
             let t = CURSEG_HOT_NODE + type; sm = sum_blk (cursegs m t)
             in if \<not> IS_SUM_NODE_SEG sm then Some (m\<lparr>m_bug_on := True\<rparr>, CurSum t, sm, - SEG_TYPE_CUR_NODE)
                else Some (m, CurSum t, sm, SEG_TYPE_CUR_NODE)
         | None \<Rightarrow>
             (case find_cur_segno (cp_cur_data_segno cp) segno [0..<3] of
                Some type \<Rightarrow>
                  let sm = sum_blk (cursegs m type)
                  in if IS_SUM_NODE_SEG sm then Some (m\<lparr>m_bug_on := True\<rparr>, CurSum type, sm, - SEG_TYPE_CUR_DATA)
                     else Some (m, CurSum type, sm, SEG_TYPE_CUR_DATA)
              | None \<Rightarrow> do {
                  sm \<leftarrow> rd_blk m ssa_blk;
                  Some (m, SsaSum, sm, if IS_SUM_NODE_SEG sm then SEG_TYPE_NODE
                                       else if IS_SUM_DATA_SEG sm then SEG_TYPE_DATA else SEG_TYPE_MAX)
                }))"

definition get_sum_entry :: "mount \<Rightarrow> nat \<Rightarrow> (mount \<times> summary \<times> int) option" where
  "get_sum_entry m blk_addr = do {
     segno \<leftarrow> GET_SEGNO m blk_addr;
     offset \<leftarrow> OFFSET_IN_SEG m blk_addr;
     (m, src, sm, type) \<leftarrow> get_sum_block m segno;
     Some (m, get_sum_ent sm offset, type)
   }"

definition store_sum_blk :: "sum_src \<Rightarrow> buf \<Rightarrow> mount \<Rightarrow> mount" where
  "store_sum_blk src sm m = (case src of CurSum t \<Rightarrow> upd_sum_blk t (\<lambda>_. sm) m | SsaSum \<Rightarrow> m)"

definition update_sum_entry :: "mount \<Rightarrow> nat \<Rightarrow> summary \<Rightarrow> mount option" where
  "update_sum_entry m blk_addr s =
     (if RO_SB m then Some m
      else do {
        segno \<leftarrow> GET_SEGNO m blk_addr;
        offset \<leftarrow> OFFSET_IN_SEG m blk_addr;
        se \<leftarrow> get_seg_entry m segno;
        (m, src, sm, type) \<leftarrow> get_sum_block m segno;
        let sm = (put_sum_ent offset s sm)(SUM_FOOTER_OFFSET := if IS_NODESEG (seg_type se) then SUM_TYPE_NODE else SUM_TYPE_DATA);
        wr_blk (GET_SUM_BLKADDR m segno) sm (store_sum_blk src sm m)
      })"

subsection \<open>Current segments at mount\<close>

definition set_seg :: "nat \<Rightarrow> (seg_entry \<Rightarrow> seg_entry) \<Rightarrow> mount \<Rightarrow> mount" where
  "set_seg segno f m = m\<lparr>sentries := (sentries m)(segno := f (sentries m segno))\<rparr>"

definition set_curseg :: "nat \<Rightarrow> (curseg_info \<Rightarrow> curseg_info) \<Rightarrow> mount \<Rightarrow> mount" where
  "set_curseg t f m = m\<lparr>cursegs := (cursegs m)(t := f (cursegs m t))\<rparr>"

definition clear_footer :: "nat \<Rightarrow> buf \<Rightarrow> buf" where
  "clear_footer type sm =
     (put_bytes SUM_FOOTER_OFFSET 5 zero_buf sm)
       (SUM_FOOTER_OFFSET := if IS_NODESEG type then SUM_TYPE_NODE else if IS_DATASEG type then SUM_TYPE_DATA else 0)"

definition reset_curseg :: "nat \<Rightarrow> mount \<Rightarrow> mount option" where
  "reset_curseg type m = do {
     let m = upd_sum_blk type (clear_footer type) m;
     _ \<leftarrow> get_seg_entry m (cs_segno (cursegs m type));
     Some (set_seg (cs_segno (cursegs m type)) (\<lambda>se. se\<lparr>seg_type := type, seg_dirty := True\<rparr>) m)
   }"

definition SUM_JOURNAL_SIZE :: nat where "SUM_JOURNAL_SIZE = 507"
definition SUMMARY_SIZE :: nat where "SUMMARY_SIZE = 7"
definition SUM_FOOTER_SIZE :: nat where "SUM_FOOTER_SIZE = 5"
definition SUM_ENTRIES_SIZE :: nat where "SUM_ENTRIES_SIZE = 3584"
definition ENTRIES_IN_SUM :: nat where "ENTRIES_IN_SUM = 512"
definition CP_COMPACT_SUM_FLAG :: u32 where "CP_COMPACT_SUM_FLAG = 0x4"

definition start_sum_block :: "mount \<Rightarrow> nat" where
  "start_sum_block m = start_cp_addr m + unat (cp_pack_start_sum (ckpt m))"

definition sum_blk_addr :: "mount \<Rightarrow> nat \<Rightarrow> nat \<Rightarrow> nat" where
  "sum_blk_addr m base type =
     unat ((of_nat (start_cp_addr m) :: u32) + cp_pack_total_block_count (ckpt m) - of_nat (base + 1) + of_nat type)"

text \<open>The entries of one data segment: \<open>kaddr\<close> is the block being read, \<open>offset\<close> the place in it,
  \<open>start\<close> the next block.\<close>

fun compact_entries_loop :: "nat \<Rightarrow> nat \<Rightarrow> nat \<Rightarrow> buf \<Rightarrow> nat \<Rightarrow> nat \<Rightarrow> mount \<Rightarrow> (buf \<times> nat \<times> nat \<times> mount) option" where
  "compact_entries_loop type j 0 kaddr offset start m = Some (kaddr, offset, start, m)"
| "compact_entries_loop type j (Suc k) kaddr offset start m = do {
     let m = upd_sum_blk type (put_bytes (SUMMARY_SIZE * j) SUMMARY_SIZE (at_off offset kaddr)) m;
     let offset = offset + SUMMARY_SIZE;
     if offset + SUMMARY_SIZE \<le> F2FS_BLKSIZE - SUM_FOOTER_SIZE
     then compact_entries_loop type (j + 1) k kaddr offset start m
     else do {
       kaddr \<leftarrow> rd_blk m start;
       compact_entries_loop type (j + 1) k kaddr 0 (start + 1) m
     }
   }"

fun compact_segs_loop :: "nat list \<Rightarrow> buf \<Rightarrow> nat \<Rightarrow> nat \<Rightarrow> mount \<Rightarrow> mount option" where
  "compact_segs_loop [] kaddr offset start m = Some m"
| "compact_segs_loop (i # is) kaddr offset start m = do {
     m \<leftarrow> reset_curseg i m;
     let cs = cursegs m i;
     let blk_off = (if alloc_type cs = SSR then BLOCKS_PER_SEG else next_blkoff cs);
     if \<not> blk_off \<le> ENTRIES_IN_SUM then None
     else do {
       (kaddr, offset, start, m) \<leftarrow> compact_entries_loop i 0 blk_off kaddr offset start m;
       compact_segs_loop is kaddr offset start m
     }
   }"

definition read_compacted_summaries :: "mount \<Rightarrow> mount option" where
  "read_compacted_summaries m = do {
     let start = start_sum_block m;
     kaddr \<leftarrow> rd_blk m start;
     let m = upd_sum_blk CURSEG_HOT_DATA (put_bytes SUM_JOURNAL_OFFSET SUM_JOURNAL_SIZE kaddr) m;
     let m = upd_sum_blk CURSEG_COLD_DATA
               (put_bytes SUM_JOURNAL_OFFSET SUM_JOURNAL_SIZE (at_off SUM_JOURNAL_SIZE kaddr)) m;
     compact_segs_loop [0, 1, 2] kaddr (2 * SUM_JOURNAL_SIZE) (start + 1) m
   }"

definition NODE_FOOTER_NID :: nat where "NODE_FOOTER_NID = 4072"

fun restore_node_loop :: "mount \<Rightarrow> nat \<Rightarrow> nat \<Rightarrow> nat \<Rightarrow> buf \<Rightarrow> buf option" where
  "restore_node_loop m addr i 0 sm = Some sm"
| "restore_node_loop m addr i (Suc k) sm = do {
     node_blk \<leftarrow> rd_blk m addr;
     restore_node_loop m (addr + 1) (i + 1) k (put_le32 (SUMMARY_SIZE * i) (le32_at node_blk NODE_FOOTER_NID) sm)
   }"

definition restore_node_summary :: "mount \<Rightarrow> nat \<Rightarrow> buf \<Rightarrow> buf option" where
  "restore_node_summary m segno sm = restore_node_loop m (START_BLOCK m segno) 0 BLOCKS_PER_SEG sm"

definition read_normal_summaries :: "nat \<Rightarrow> mount \<Rightarrow> mount option" where
  "read_normal_summaries type m = do {
     let cp = ckpt m;
     let umount = is_set_ckpt_flags cp CP_UMOUNT_FLAG;
     let (segno, blk_addr) =
       (if IS_DATASEG type
        then (unat (cp_cur_data_segno cp type), if umount then sum_blk_addr m 6 type else sum_blk_addr m 3 type)
        else let segno = unat (cp_cur_node_segno cp (type - CURSEG_HOT_NODE))
             in (segno, if umount then sum_blk_addr m 3 (type - CURSEG_HOT_NODE) else GET_SUM_BLKADDR m segno));
     sm \<leftarrow> rd_blk m blk_addr;
     sm \<leftarrow> (if IS_NODESEG type \<and> \<not> umount then restore_node_summary m segno sm else Some sm);
     reset_curseg type (upd_sum_blk type (\<lambda>_. sm) m)
   }"

fun read_normal_loop :: "nat list \<Rightarrow> mount \<Rightarrow> mount option" where
  "read_normal_loop [] m = Some m"
| "read_normal_loop (t # ts) m = do { m \<leftarrow> read_normal_summaries t m; read_normal_loop ts m }"

definition restore_curseg_summaries :: "mount \<Rightarrow> mount option" where
  "restore_curseg_summaries m =
     (if is_set_ckpt_flags (ckpt m) CP_COMPACT_SUM_FLAG
      then do { m \<leftarrow> read_compacted_summaries m; read_normal_loop [3, 4, 5] m }
      else read_normal_loop [0, 1, 2, 3, 4, 5] m)"

definition cp_alloc_type :: "buf \<Rightarrow> nat \<Rightarrow> u8" where
  "cp_alloc_type cp i = cp (176 + i)"

fun build_curseg_loop :: "nat list \<Rightarrow> mount \<Rightarrow> mount option" where
  "build_curseg_loop [] m = Some m"
| "build_curseg_loop (i # is) m =
     (let cp = ckpt m;
          blk_off = unat (if i \<le> CURSEG_COLD_DATA then cp_cur_data_blkoff cp i else cp_cur_node_blkoff cp (i - CURSEG_HOT_NODE));
          segno = unat (if i \<le> CURSEG_COLD_DATA then cp_cur_data_segno cp i else cp_cur_node_segno cp (i - CURSEG_HOT_NODE))
      in if \<not> segno < main_segments m then None
         else if \<not> blk_off < BLOCKS_PER_SEG then None
         else build_curseg_loop is (set_curseg i (\<lambda>_. \<lparr>sum_blk = zero_buf, alloc_type = cp_alloc_type cp i,
                cs_segno = segno, next_blkoff = blk_off\<rparr>) m))"

definition build_curseg :: "mount \<Rightarrow> mount option" where
  "build_curseg m = do { m \<leftarrow> build_curseg_loop [0..<6] m; restore_curseg_summaries m }"

definition early_build_segment_manager :: "mount \<Rightarrow> mount option" where
  "early_build_segment_manager m =
     (let sb = raw_super m; cp = ckpt m;
          m = m\<lparr>seg0_blkaddr := unat (sb_segment0_blkaddr sb), main_blkaddr := unat (sb_main_blkaddr sb),
                segment_count := unat (sb_segment_count sb), reserved_segments := unat (cp_rsvd_segment_count cp),
                main_segments := unat (sb_segment_count_main sb), ssa_blkaddr := unat (sb_ssa_blkaddr sb)\<rparr>
      in build_curseg (build_sit_info m))"

subsection \<open>Search for a free block\<close>

fun first_clear :: "nat \<Rightarrow> buf \<Rightarrow> nat \<Rightarrow> nat" where
  "first_clear i vmap 0 = i"
| "first_clear i vmap (Suc k) = (if \<not> f2fs_test_bit i vmap then i else first_clear (i + 1) vmap k)"

definition relocate_curseg_offset :: "nat \<Rightarrow> mount \<Rightarrow> (int \<times> mount) option" where
  "relocate_curseg_offset type m = do {
     se \<leftarrow> get_seg_entry m (cs_segno (cursegs m type));
     if zoned_hm m then Some (- EINVAL, m)
     else let i = first_clear 0 (cur_valid_map se) BLOCKS_PER_SEG
          in if i = BLOCKS_PER_SEG then Some (- EINVAL, m)
             else Some (0, set_curseg type (\<lambda>c. c\<lparr>next_blkoff := i, alloc_type := SSR\<rparr>) m)
   }"

fun section_type_loop :: "nat \<Rightarrow> nat \<Rightarrow> nat \<Rightarrow> nat \<Rightarrow> mount \<Rightarrow> mount option" where
  "section_type_loop segno type i 0 m = Some m"
| "section_type_loop segno type i (Suc k) m = do {
     _ \<leftarrow> get_seg_entry m (segno + i);
     section_type_loop segno type (i + 1) k (set_seg (segno + i) (\<lambda>se. se\<lparr>seg_type := type\<rparr>) m)
   }"

definition set_section_type :: "nat \<Rightarrow> nat \<Rightarrow> mount \<Rightarrow> mount option" where
  "set_section_type segno type m =
     (if m_segs_per_sec m = 1 then Some m else section_type_loop segno type 0 (m_segs_per_sec m) m)"

text \<open>The loop over the other segments of a section: whether all are empty.\<close>

fun section_empty_loop :: "mount \<Rightarrow> nat \<Rightarrow> nat \<Rightarrow> nat \<Rightarrow> bool option" where
  "section_empty_loop m segno i 0 = Some True"
| "section_empty_loop m segno i (Suc k) = do {
     se2 \<leftarrow> get_seg_entry m (segno + i);
     if get_seg_vblocks m se2 \<noteq> 0 then Some False else section_empty_loop m segno (i + 1) k
   }"

definition end_main_blkaddr :: "mount \<Rightarrow> nat" where
  "end_main_blkaddr m = unat (push_bit 9 (sb_segment_count_main (raw_super m)) + sb_main_blkaddr (raw_super m))"

lemma start_block_bounds:
  assumes "int (main_blkaddr m) \<le> to"
  shows "int (START_BLOCK m (nat (to - int (main_blkaddr m)) div BLOCKS_PER_SEG)) \<le> to"
    "to < int (START_BLOCK m (nat (to - int (main_blkaddr m)) div BLOCKS_PER_SEG + 1))"
proof -
  define d where "d = nat (to - int (main_blkaddr m))"
  have to: "to = int (main_blkaddr m + d)" using assms by (simp add: d_def)
  have "main_blkaddr m + d div 512 * 512 \<le> main_blkaddr m + d" "main_blkaddr m + d < main_blkaddr m + (d div 512 + 1) * 512"
    using div_mult_mod_eq [of d 512] by simp_all
  then show "int (START_BLOCK m (nat (to - int (main_blkaddr m)) div BLOCKS_PER_SEG)) \<le> to"
    "to < int (START_BLOCK m (nat (to - int (main_blkaddr m)) div BLOCKS_PER_SEG + 1))"
    unfolding START_BLOCK_def BLOCKS_PER_SEG_def d_def [symmetric] by (simp_all only: to of_nat_le_iff of_nat_less_iff)
qed

text \<open>The loop of \<open>find_next_free_block\<close>. Addresses are integers, so that stepping left from
  address 0 leaves the range, as the wrapped address does.\<close>

function find_free_loop :: "mount \<Rightarrow> bool \<Rightarrow> nat \<Rightarrow> bool \<Rightarrow> bool \<Rightarrow> int \<Rightarrow> (int \<times> int \<times> mount) option" where
  "find_free_loop m left want_type new_sec not_enough to =
     (if \<not> (int (main_blkaddr m) \<le> to \<and> to < int (end_main_blkaddr m)) then Some (-1, to, m)
      else
        let segno = nat (to - int (main_blkaddr m)) div BLOCKS_PER_SEG;
            offset = nat (to - int (main_blkaddr m)) mod BLOCKS_PER_SEG;
            next_segment = (if left then int (START_BLOCK m segno) - 1 else int (START_BLOCK m (segno + 1)))
        in case get_seg_entry m segno of None \<Rightarrow> None
           | Some se \<Rightarrow>
        let vblocks = get_seg_vblocks m se; bitmap = get_seg_bitmap m se; type = get_seg_type m se
        in if vblocks = BLOCKS_PER_SEG then find_free_loop m left want_type new_sec not_enough next_segment
           else if \<not> RO_SB m \<and> IS_CUR_SEGNO m segno then find_free_loop m left want_type new_sec not_enough next_segment
           else if vblocks = 0 \<and> not_enough then find_free_loop m left want_type new_sec not_enough next_segment
           else case (if vblocks = 0
                      then if m_segs_per_sec m = 0 then None
                           else if segno mod m_segs_per_sec m = 0
                           then section_empty_loop m segno 1 (m_segs_per_sec m - 1) else Some False
                      else Some False) of
                  None \<Rightarrow> None
                | Some True \<Rightarrow> map_option (\<lambda>m. (0, to, m)) (set_section_type segno want_type m)
                | Some False \<Rightarrow>
                    if type = want_type \<and> \<not> new_sec \<and> \<not> f2fs_test_bit offset bitmap then Some (0, to, m)
                    else find_free_loop m left want_type new_sec not_enough (if left then to - 1 else to + 1))"
  by pat_completeness auto

termination
proof (relation "measure (\<lambda>(m, left, want_type, new_sec, not_enough, to).
      nat (if left then to - int (main_blkaddr m) + 1 else int (end_main_blkaddr m) - to))", goal_cases)
  case (2 m left want_type new_sec not_enough to x xa xb x2 xc xd xe)
  then show ?case using start_block_bounds [of m to] by auto
next
  case (3 m left want_type new_sec not_enough to x xa xb x2 xc xd xe)
  then show ?case using start_block_bounds [of m to] by auto
next
  case (4 m left want_type new_sec not_enough to x xa xb x2 xc xd xe)
  then show ?case using start_block_bounds [of m to] by auto
next
  case (5 m left want_type new_sec not_enough to x xa xb x2 xc xd xe x2a)
  then show ?case by auto
qed simp

declare find_free_loop.simps [simp del]

definition find_next_free_block :: "mount \<Rightarrow> nat \<Rightarrow> bool \<Rightarrow> nat \<Rightarrow> bool \<Rightarrow> (int \<times> int \<times> mount) option" where
  "find_next_free_block m to left want_type new_sec =
     (let to = (if to > 0 then int to - (if left then 1 else 0) else int to);
          not_enough = (get_free_segments m \<le> reserved_segments m + 1)
      in find_free_loop m left want_type new_sec not_enough to)"

subsection \<open>Moving and writing the current segments\<close>

definition move_one_curseg_info :: "nat \<Rightarrow> bool \<Rightarrow> nat \<Rightarrow> mount \<Rightarrow> mount option" where
  "move_one_curseg_info from left i m =
     (if RO_SB m \<and> i \<noteq> CURSEG_HOT_DATA \<and> i \<noteq> CURSEG_HOT_NODE then Some m
      else do {
        m \<leftarrow> (if RO_SB m then Some m
              else wr_blk (GET_SUM_BLKADDR m (cs_segno (cursegs m i))) (sum_blk (cursegs m i)) m);
        (ret, to, m) \<leftarrow> find_next_free_block m from left i (zoned_hm m);
        if ret \<noteq> 0 then None
        else do {
          segno \<leftarrow> GET_SEGNO m (nat to);
          offset \<leftarrow> OFFSET_IN_SEG m (nat to);
          let m = set_curseg i (\<lambda>c. c\<lparr>cs_segno := segno, next_blkoff := offset,
                                      alloc_type := if zoned_hm m then LFS else SSR\<rparr>) m;
          b \<leftarrow> rd_blk m (GET_SUM_BLKADDR m segno);
          let m = upd_sum_blk i (put_bytes 0 SUM_ENTRIES_SIZE b) m;
          reset_curseg i m
        }
      })"

fun move_curseg_loop :: "nat \<Rightarrow> bool \<Rightarrow> nat list \<Rightarrow> mount \<Rightarrow> mount option" where
  "move_curseg_loop from left [] m = Some m"
| "move_curseg_loop from left (i # is) m = do {
     m \<leftarrow> move_one_curseg_info from left i m;
     move_curseg_loop from left is m
   }"

definition move_curseg_info :: "nat \<Rightarrow> bool \<Rightarrow> mount \<Rightarrow> mount option" where
  "move_curseg_info from left m = move_curseg_loop from left [0..<NO_CHECK_TYPE] m"

definition update_curseg_info :: "nat \<Rightarrow> mount \<Rightarrow> mount option" where
  "update_curseg_info type m = do {
     (ret, m) \<leftarrow> relocate_curseg_offset type m;
     if ret = 0 then Some m else move_one_curseg_info (main_blkaddr m) False type m
   }"

definition zero_journal_entries :: "mount \<Rightarrow> mount" where
  "zero_journal_entries m = fold (\<lambda>i. upd_sum_blk i (set_jnl_count 0)) [0..<NO_CHECK_TYPE] m"

definition write_one_curseg :: "mount \<Rightarrow> nat \<Rightarrow> buf \<Rightarrow> buf" where
  "write_one_curseg m i cp =
     (let c = cursegs m i;
          cp = cp(176 + i := alloc_type c)
      in if i < CURSEG_HOT_NODE
         then put_le16 (116 + 2 * i) (of_nat (next_blkoff c)) (put_le32 (84 + 4 * i) (of_nat (cs_segno c)) cp)
         else let n = i - CURSEG_HOT_NODE
              in put_le16 (68 + 2 * n) (of_nat (next_blkoff c)) (put_le32 (36 + 4 * n) (of_nat (cs_segno c)) cp))"

definition write_curseg_info :: "mount \<Rightarrow> mount" where
  "write_curseg_info m = m\<lparr>ckpt := fold (write_one_curseg m) [0..<NO_CHECK_TYPE] (ckpt m)\<rparr>"

subsection \<open>Reserving a block\<close>

definition f2fs_set_main_bitmap :: "mount \<Rightarrow> nat \<Rightarrow> nat \<Rightarrow> (u8 \<times> mount) option" where
  "f2fs_set_main_bitmap m blk type = do {
     segno \<leftarrow> GET_SEGNO m blk;
     se \<leftarrow> get_seg_entry m segno;
     let fixit = (seg_type se \<ge> NO_CHECK_TYPE \<or> IS_DATASEG (seg_type se) \<noteq> IS_DATASEG type);
     let m = (if fixit then set_seg segno (\<lambda>se. se\<lparr>seg_type := type\<rparr>) m else m);
     off \<leftarrow> BLKOFF_FROM_MAIN m blk;
     let (old, bm) = f2fs_set_bit off (main_area_bitmap m);
     Some (old, m\<lparr>main_area_bitmap := bm\<rparr>)
   }"

definition f2fs_set_sit_bitmap :: "mount \<Rightarrow> nat \<Rightarrow> (u8 \<times> mount) option" where
  "f2fs_set_sit_bitmap m blk = do {
     off \<leftarrow> BLKOFF_FROM_MAIN m blk;
     let (old, bm) = f2fs_set_bit off (sit_area_bitmap m);
     Some (old, m\<lparr>sit_area_bitmap := bm\<rparr>)
   }"

definition ENOSPC :: int where "ENOSPC = 28"

definition no_space :: "mount \<Rightarrow> bool \<Rightarrow> bool" where
  "no_space m is_node \<longleftrightarrow>
     (if func m = FSCK
      then valid_blk_cnt (chk m) \<ge> user_block_count m \<or>
           (is_node \<and> valid_node_cnt (chk m) \<ge> total_valid_node_count m)
      else total_valid_block_count m \<ge> user_block_count m \<or>
           (is_node \<and> total_valid_node_count m \<ge> total_node_count m))"

definition count_new_block :: "bool \<Rightarrow> bool \<Rightarrow> mount \<Rightarrow> mount" where
  "count_new_block is_node is_inode m =
     (let n = (if is_node then 1 else 0); i = (if is_node \<and> is_inode then 1 else 0);
          m = m\<lparr>total_valid_block_count := total_valid_block_count m + 1,
                total_valid_node_count := total_valid_node_count m + n,
                total_valid_inode_count := total_valid_inode_count m + i\<rparr>
      in if func m = FSCK
         then m\<lparr>chk := (chk m)\<lparr>valid_blk_cnt := valid_blk_cnt (chk m) + 1,
                               valid_node_cnt := valid_node_cnt (chk m) + n,
                               valid_inode_cnt := valid_inode_cnt (chk m) + i\<rparr>\<rparr>
         else m)"

definition reserve_seg :: "mount \<Rightarrow> nat \<Rightarrow> nat \<Rightarrow> seg_entry \<Rightarrow> seg_entry" where
  "reserve_seg m type offset se =
     (let se = se\<lparr>seg_type := type, valid_blocks := valid_blocks se + 1,
                  cur_valid_map := snd (f2fs_set_bit offset (cur_valid_map se))\<rparr>
      in if need_fsync_data_record m
         then se\<lparr>ckpt_type := type, ckpt_valid_blocks := ckpt_valid_blocks se + 1,
                 ckpt_valid_map := snd (f2fs_set_bit offset (ckpt_valid_map se))\<rparr>
         else se)"

definition mark_area_bitmaps :: "nat \<Rightarrow> nat \<Rightarrow> mount \<Rightarrow> mount option" where
  "mark_area_bitmaps type blkaddr m =
     (if func m = FSCK
      then do { (_, m) \<leftarrow> f2fs_set_main_bitmap m blkaddr type; (_, m) \<leftarrow> f2fs_set_sit_bitmap m blkaddr; Some m }
      else Some m)"

text \<open>From the address found to the counters: everything but the summary.\<close>

definition mark_reserved :: "nat \<Rightarrow> nat \<Rightarrow> bool \<Rightarrow> nat \<Rightarrow> mount \<Rightarrow> mount option" where
  "mark_reserved old_blkaddr type is_inode blkaddr m = do {
     segno \<leftarrow> GET_SEGNO m blkaddr;
     offset \<leftarrow> OFFSET_IN_SEG m blkaddr;
     _ \<leftarrow> get_seg_entry m segno;
     let m = set_seg segno (reserve_seg m type offset) m;
     m \<leftarrow> mark_area_bitmaps type blkaddr m;
     let m = (if old_blkaddr = 0 then count_new_block (IS_NODESEG type) is_inode m else m);
     Some (set_seg segno (\<lambda>se. se\<lparr>seg_dirty := True\<rparr>) m)
   }"

definition reserve_new_block :: "mount \<Rightarrow> nat \<Rightarrow> summary \<Rightarrow> nat \<Rightarrow> bool \<Rightarrow> (int \<times> nat \<times> mount) option" where
  "reserve_new_block m old_blkaddr s type is_inode =
     (if old_blkaddr = 0 \<and> no_space m (IS_NODESEG type) then Some (- ENOSPC, old_blkaddr, m)
      else do {
        (ret, to, m) \<leftarrow> find_next_free_block m (main_blkaddr m) False type False;
        if ret \<noteq> 0 then None
        else do {
          let blkaddr = nat to;
          m \<leftarrow> mark_reserved old_blkaddr type is_inode blkaddr m;
          m \<leftarrow> update_sum_entry m blkaddr s;
          Some (0, blkaddr, m)
        }
      })"

subsection \<open>The search returns the first block in reach\<close>

definition seg_of :: "mount \<Rightarrow> int \<Rightarrow> nat" where
  "seg_of m x = nat (x - int (main_blkaddr m)) div BLOCKS_PER_SEG"

definition off_of :: "mount \<Rightarrow> int \<Rightarrow> nat" where
  "off_of m x = nat (x - int (main_blkaddr m)) mod BLOCKS_PER_SEG"

text \<open>The geometry the super block checks establish.\<close>

definition seg_geom :: "mount \<Rightarrow> bool" where
  "seg_geom m \<longleftrightarrow> 0 < m_segs_per_sec m \<and> main_segments m mod m_segs_per_sec m = 0 \<and>
     end_main_blkaddr m = main_blkaddr m + main_segments m * BLOCKS_PER_SEG"

definition section_free :: "mount \<Rightarrow> nat \<Rightarrow> bool" where
  "section_free m segno \<longleftrightarrow> segno mod m_segs_per_sec m = 0 \<and>
     (\<forall>i < m_segs_per_sec m. get_seg_vblocks m (sentries m (segno + i)) = 0)"

text \<open>A block \<open>find_next_free_block\<close> may return.\<close>

definition free_candidate :: "mount \<Rightarrow> nat \<Rightarrow> bool \<Rightarrow> bool \<Rightarrow> int \<Rightarrow> bool" where
  "free_candidate m want_type new_sec not_enough x \<longleftrightarrow>
     (let segno = seg_of m x; se = sentries m segno; vblocks = get_seg_vblocks m se
      in vblocks \<noteq> BLOCKS_PER_SEG \<and> (RO_SB m \<or> \<not> IS_CUR_SEGNO m segno) \<and> \<not> (vblocks = 0 \<and> not_enough) \<and>
         (section_free m segno \<or>
          (get_seg_type m se = want_type \<and> \<not> new_sec \<and> \<not> f2fs_test_bit (off_of m x) (get_seg_bitmap m se))))"

definition in_main :: "mount \<Rightarrow> int \<Rightarrow> bool" where
  "in_main m x \<longleftrightarrow> int (main_blkaddr m) \<le> x \<and> x < int (end_main_blkaddr m)"

lemma seg_of_lt: "\<lbrakk>seg_geom m; in_main m x\<rbrakk> \<Longrightarrow> seg_of m x < main_segments m"
proof -
  assume g: "seg_geom m" and x: "in_main m x"
  define d where "d = nat (x - int (main_blkaddr m))"
  have "d < main_segments m * BLOCKS_PER_SEG"
    using g x unfolding seg_geom_def in_main_def d_def by (simp add: nat_less_iff algebra_simps flip: of_nat_mult)
  then show ?thesis by (simp add: seg_of_def d_def less_mult_imp_div_less)
qed

lemma seg_of_between:
  assumes "int (START_BLOCK m segno) \<le> x" "x < int (START_BLOCK m (segno + 1))"
  shows "seg_of m x = segno"
proof -
  obtain d where "x = int d" "START_BLOCK m segno \<le> d" "d < START_BLOCK m (segno + 1)"
    using assms by (metis nat_int nonneg_int_cases of_nat_0_le_iff of_nat_le_iff of_nat_less_iff order_trans)
  moreover from this have "d - main_blkaddr m = segno * 512 + (d - START_BLOCK m segno)" "d - START_BLOCK m segno < 512"
    by (auto simp: START_BLOCK_def BLOCKS_PER_SEG_def)
  ultimately show ?thesis by (simp add: seg_of_def BLOCKS_PER_SEG_def nat_minus_as_int)
qed

lemma section_empty_loop_eq:
  "segno + i + k \<le> main_segments m \<Longrightarrow> section_empty_loop m segno i k =
     Some (\<forall>j. i \<le> j \<and> j < i + k \<longrightarrow> get_seg_vblocks m (sentries m (segno + j)) = 0)"
proof (induction k arbitrary: i)
  case (Suc k)
  have "(\<forall>j. i \<le> j \<and> j < i + Suc k \<longrightarrow> P j) \<longleftrightarrow> P i \<and> (\<forall>j. i + 1 \<le> j \<and> j < i + 1 + k \<longrightarrow> P j)" for P
    by (metis Suc_eq_plus1 Suc_leD add_Suc_right add_Suc_shift le_eq_less_or_eq less_add_Suc1 not_less_eq_eq less_eq_Suc_le)
  with Suc show ?case by (simp add: get_seg_entry_def)
qed auto

lemma section_type_loop_eq:
  "segno + i + k \<le> main_segments m \<Longrightarrow> section_type_loop segno type i k m =
     Some (m\<lparr>sentries := \<lambda>x. if segno + i \<le> x \<and> x < segno + i + k then (sentries m x)\<lparr>seg_type := type\<rparr> else sentries m x\<rparr>)"
proof (induction k arbitrary: i m)
  case 0
  have "(segno + i \<le> x \<and> x < segno + i + 0) = False" for x by auto
  then show ?case by (simp only: if_False section_type_loop.simps) simp
next
  case (Suc k)
  then show ?case by (auto simp: get_seg_entry_def set_seg_def fun_eq_iff)
qed

lemma section_in_range:
  assumes "seg_geom m" "segno < main_segments m" "segno mod m_segs_per_sec m = 0"
  shows "segno + m_segs_per_sec m \<le> main_segments m"
proof -
  let ?s = "m_segs_per_sec m"
  obtain a b where ab: "segno = ?s * a" "main_segments m = ?s * b"
    using assms by (metis mult_div_mod_eq add_0_right seg_geom_def)
  with assms(2) have "a < b" by simp
  then have "?s * (a + 1) \<le> ?s * b" by (intro mult_le_mono) auto
  with ab show ?thesis by simp
qed

lemma section_check:
  assumes "seg_geom m" "segno < main_segments m"
  shows "(if get_seg_vblocks m (sentries m segno) = 0
          then if m_segs_per_sec m = 0 then None
               else if segno mod m_segs_per_sec m = 0
               then section_empty_loop m segno 1 (m_segs_per_sec m - 1) else Some False
          else Some False) = Some (section_free m segno)"
proof (cases "get_seg_vblocks m (sentries m segno) = 0 \<and> segno mod m_segs_per_sec m = 0")
  case True
  have s: "0 < m_segs_per_sec m" using assms(1) by (simp add: seg_geom_def)
  have "segno + 1 + (m_segs_per_sec m - 1) \<le> main_segments m"
    using section_in_range [OF assms] True s by simp
  from section_empty_loop_eq [OF this] True s show ?thesis
    unfolding section_free_def by (auto simp: Suc_le_eq) (metis gr0I add.right_neutral)
next
  case False
  then show ?thesis using assms(1) by (auto simp: section_free_def seg_geom_def)
qed

text \<open>What the search may change: the types of the segments of an empty section.\<close>

definition retyped :: "mount \<Rightarrow> nat \<Rightarrow> nat \<Rightarrow> mount \<Rightarrow> bool" where
  "retyped m segno type m' \<longleftrightarrow> (\<exists>f. m' = m\<lparr>sentries := f\<rparr> \<and>
     (\<forall>x. f x = sentries m x \<or>
        (f x = (sentries m x)\<lparr>seg_type := type\<rparr> \<and> get_seg_vblocks m (sentries m x) = 0)))"

lemma set_section_type_ok:
  assumes "seg_geom m" "segno < main_segments m" "section_free m segno"
  shows "\<exists>m'. set_section_type segno type m = Some m' \<and> retyped m segno type m'"
proof (cases "m_segs_per_sec m = 1")
  case True
  then show ?thesis by (auto simp: set_section_type_def retyped_def intro!: exI [of _ "sentries m"])
next
  case False
  have "segno + 0 + m_segs_per_sec m \<le> main_segments m"
    using section_in_range [OF assms(1,2)] assms(3) by (simp add: section_free_def)
  from section_type_loop_eq [OF this, of type] False assms(3) show ?thesis
    unfolding set_section_type_def retyped_def section_free_def
    by (auto intro!: exI [of _ "\<lambda>x. if segno + 0 \<le> x \<and> x < segno + 0 + m_segs_per_sec m
        then (sentries m x)\<lparr>seg_type := type\<rparr> else sentries m x"])
       (metis add_diff_inverse_nat nat_add_left_cancel_less not_le)
qed

definition toward :: "bool \<Rightarrow> int \<Rightarrow> int \<Rightarrow> bool" where
  "toward left x y \<longleftrightarrow> (if left then y \<le> x else x \<le> y)"

text \<open>The outcome of the search from \<open>to\<close>.\<close>

definition first_free :: "mount \<Rightarrow> bool \<Rightarrow> nat \<Rightarrow> (int \<Rightarrow> bool) \<Rightarrow> int \<Rightarrow> (int \<times> int \<times> mount) option \<Rightarrow> bool" where
  "first_free m left w cand to r \<longleftrightarrow>
     (\<exists>to' m'. r = Some (0, to', m') \<and> in_main m to' \<and> cand to' \<and> toward left to to' \<and>
        (\<forall>x. toward left to x \<and> toward left x to' \<and> x \<noteq> to' \<and> in_main m x \<longrightarrow> \<not> cand x) \<and>
        retyped m (seg_of m to') w m') \<or>
     (\<exists>to'. r = Some (-1, to', m) \<and> (\<forall>x. toward left to x \<and> in_main m x \<longrightarrow> \<not> cand x))"

lemma first_free_step:
  assumes "first_free m left w cand to1 r" "toward left to to1"
    and "\<And>x. toward left to x \<Longrightarrow> toward left x to1 \<Longrightarrow> x \<noteq> to1 \<Longrightarrow> in_main m x \<Longrightarrow> \<not> cand x"
  shows "first_free m left w cand to r"
proof -
  have tr: "toward left to x" if "toward left to1 x" for x using assms(2) that by (auto simp: toward_def split: if_splits)
  have cs: "toward left to1 x \<or> (toward left x to1 \<and> x \<noteq> to1)" for x by (auto simp: toward_def)
  from assms(1) [unfolded first_free_def] show ?thesis
  proof (elim disjE exE conjE)
    fix to' m'
    assume h: "r = Some (0, to', m')" "in_main m to'" "cand to'" "toward left to1 to'"
      "\<forall>x. toward left to1 x \<and> toward left x to' \<and> x \<noteq> to' \<and> in_main m x \<longrightarrow> \<not> cand x" "retyped m (seg_of m to') w m'"
    have "\<not> cand x" if "toward left to x" "toward left x to'" "x \<noteq> to'" "in_main m x" for x
      using cs [of x] h(5) assms(3) [of x] that by blast
    with h tr [of to'] show ?thesis unfolding first_free_def by blast
  next
    fix to'
    assume h: "r = Some (-1, to', m)" "\<forall>x. toward left to1 x \<and> in_main m x \<longrightarrow> \<not> cand x"
    have "\<not> cand x" if "toward left to x" "in_main m x" for x
      using cs [of x] h(2) assms(3) [of x] that by blast
    with h show ?thesis unfolding first_free_def by blast
  qed
qed

lemma find_free_loop_first:
  assumes g: "seg_geom m" and H: "in_main m to \<or> (\<forall>x. toward left to x \<longrightarrow> \<not> in_main m x)"
  shows "first_free m left w (free_candidate m w ns ne) to (find_free_loop m left w ns ne to)"
  using H
proof (induction "nat (if left then to - int (main_blkaddr m) + 1 else int (end_main_blkaddr m) - to)"
    arbitrary: to rule: less_induct)
  case less
  note fold = find_free_loop.simps [of m left w ns ne to]
  let ?cand = "free_candidate m w ns ne" and ?segno = "seg_of m to"
  let ?next = "if left then int (START_BLOCK m ?segno) - 1 else int (START_BLOCK m (?segno + 1))"
  let ?se = "sentries m ?segno"
  let ?step = "if left then to - 1 else to + 1"
  show ?case
  proof (cases "in_main m to")
    case False
    then show ?thesis using less.prems fold by (auto simp: first_free_def in_main_def)
  next
    case True
    then have lo: "int (main_blkaddr m) \<le> to" and hi: "to < int (end_main_blkaddr m)" by (auto simp: in_main_def)
    note sb = start_block_bounds [OF lo, folded seg_of_def]
    have lt: "?segno < main_segments m" by (rule seg_of_lt [OF g True])
    then have se: "get_seg_entry m ?segno = Some ?se" by (simp add: get_seg_entry_def)
    have cont: "in_main m y \<or> (\<forall>x. toward left y x \<longrightarrow> \<not> in_main m x)" if "toward left to y" for y
      using True that by (auto simp: in_main_def toward_def split: if_splits)
    have nxt: "first_free m left w ?cand to (find_free_loop m left w ns ne ?next)"
      if skip: "get_seg_vblocks m ?se = BLOCKS_PER_SEG \<or> (\<not> RO_SB m \<and> IS_CUR_SEGNO m ?segno) \<or> (get_seg_vblocks m ?se = 0 \<and> ne)"
    proof (rule first_free_step)
      have t: "toward left to ?next" using sb by (auto simp: toward_def)
      show "first_free m left w ?cand ?next (find_free_loop m left w ns ne ?next)"
        using sb lo hi by (intro less.hyps cont t) auto
      show "toward left to ?next" by (rule t)
      fix x assume x: "toward left to x" "toward left x ?next" "x \<noteq> ?next" "in_main m x"
      have "seg_of m x = ?segno" using x sb by (intro seg_of_between) (auto simp: toward_def split: if_splits)
      then show "\<not> ?cand x" using skip by (auto simp: free_candidate_def Let_def)
    qed
    have one: "first_free m left w ?cand to (find_free_loop m left w ns ne ?step)" if "\<not> ?cand to"
    proof (rule first_free_step)
      show t: "toward left to ?step" by (auto simp: toward_def)
      show "first_free m left w ?cand ?step (find_free_loop m left w ns ne ?step)"
        using lo hi by (intro less.hyps cont t) auto
      fix x assume "toward left to x" "toward left x ?step" "x \<noteq> ?step" "in_main m x"
      then have "x = to" by (auto simp: toward_def split: if_splits)
      then show "\<not> ?cand x" using that by simp
    qed
    show ?thesis
    proof (cases "get_seg_vblocks m ?se = BLOCKS_PER_SEG \<or> (\<not> RO_SB m \<and> IS_CUR_SEGNO m ?segno) \<or> (get_seg_vblocks m ?se = 0 \<and> ne)")
      case skip: True
      from nxt [OF skip] skip show ?thesis
        using lo hi se by (subst fold) (auto simp: Let_def seg_of_def [symmetric])
    next
      case keep: False
      have body: "find_free_loop m left w ns ne to =
          (case (if get_seg_vblocks m ?se = 0
                 then if m_segs_per_sec m = 0 then None
                      else if ?segno mod m_segs_per_sec m = 0
                      then section_empty_loop m ?segno 1 (m_segs_per_sec m - 1) else Some False
                 else Some False) of
             None \<Rightarrow> None
           | Some True \<Rightarrow> map_option (\<lambda>m. (0, to, m)) (set_section_type ?segno w m)
           | Some False \<Rightarrow>
               if get_seg_type m ?se = w \<and> \<not> ns \<and> \<not> f2fs_test_bit (off_of m to) (get_seg_bitmap m ?se) then Some (0, to, m)
               else find_free_loop m left w ns ne ?step)"
      proof -
        have k: "(get_seg_vblocks m ?se = BLOCKS_PER_SEG) = False" "(\<not> RO_SB m \<and> IS_CUR_SEGNO m ?segno) = False"
          "(get_seg_vblocks m ?se = 0 \<and> ne) = False" using keep by auto
        have r: "(int (main_blkaddr m) \<le> to \<and> to < int (end_main_blkaddr m)) = True" using lo hi by simp
        show ?thesis
          by (subst fold) (simp only: Let_def seg_of_def [symmetric] off_of_def [symmetric] se option.case k r if_False not_True_eq_False)
      qed
      have sec: "(if get_seg_vblocks m ?se = 0
          then if m_segs_per_sec m = 0 then None
               else if ?segno mod m_segs_per_sec m = 0
               then section_empty_loop m ?segno 1 (m_segs_per_sec m - 1) else Some False
          else Some False) = Some (section_free m ?segno)"
        by (rule section_check [OF g lt])
      show ?thesis
      proof (cases "section_free m ?segno")
        case sf: True
        from set_section_type_ok [OF g lt sf] obtain m' where m': "set_section_type ?segno w m = Some m'" "retyped m ?segno w m'"
          by blast
        have "find_free_loop m left w ns ne to = Some (0, to, m')"
          using sf unfolding body sec by (simp add: m')
        moreover have "?cand to" using keep sf by (auto simp: free_candidate_def Let_def)
        ultimately show ?thesis using True m'(2) by (auto simp: first_free_def toward_def split: if_splits)
      next
        case sf: False
        let ?hit = "get_seg_type m ?se = w \<and> \<not> ns \<and> \<not> f2fs_test_bit (off_of m to) (get_seg_bitmap m ?se)"
        have eq: "find_free_loop m left w ns ne to = (if ?hit then Some (0, to, m) else find_free_loop m left w ns ne ?step)"
          using sf unfolding body sec by simp
        have cand: "?cand to \<longleftrightarrow> ?hit" using keep sf by (auto simp: free_candidate_def Let_def)
        show ?thesis
        proof (cases ?hit)
          case True
          with eq cand \<open>in_main m to\<close> show ?thesis
            by (auto simp: first_free_def toward_def retyped_def intro!: exI [of _ "sentries m"] split: if_splits)
        next
          case False
          with eq cand one show ?thesis by simp
        qed
      qed
    qed
  qed
qed


text \<open>Property C26. The search for a free block always ends, with the first block in the
  direction of the search that is in an empty section, or free in a segment of the wanted type, in a
  segment that is not full and (on a writable file system) not current, or with \<open>-1\<close> when there
  is none.\<close>

theorem find_next_free_block_first:
  assumes "seg_geom m" "in_main m (int to)" "left \<Longrightarrow> in_main m (int to - 1)"
  shows "let start = int to - (if left \<and> to > 0 then 1 else 0);
             cand = free_candidate m want_type new_sec (get_free_segments m \<le> reserved_segments m + 1);
             r = find_next_free_block m to left want_type new_sec
         in (\<exists>to' m'. r = Some (0, to', m') \<and> in_main m to' \<and> cand to' \<and> toward left start to' \<and>
              (\<forall>x. toward left start x \<and> toward left x to' \<and> x \<noteq> to' \<and> in_main m x \<longrightarrow> \<not> cand x)) \<or>
            (\<exists>to'. r = Some (-1, to', m) \<and> (\<forall>x. toward left start x \<and> in_main m x \<longrightarrow> \<not> cand x))"
proof -
  let ?start = "int to - (if left \<and> to > 0 then 1 else 0)"
  let ?ne = "get_free_segments m \<le> reserved_segments m + 1"
  have "find_next_free_block m to left want_type new_sec = find_free_loop m left want_type new_sec ?ne ?start"
    by (auto simp: find_next_free_block_def Let_def)
  moreover have "in_main m ?start" using assms(2,3) by auto
  ultimately show ?thesis
    using find_free_loop_first [OF assms(1), of ?start left want_type new_sec ?ne]
    unfolding first_free_def Let_def by auto
qed

subsection \<open>Summary entries\<close>

definition sum_src_of :: "mount \<Rightarrow> nat \<Rightarrow> sum_src" where
  "sum_src_of m segno =
     (case find_cur_segno (cp_cur_node_segno (ckpt m)) segno [0..<3] of Some t \<Rightarrow> CurSum (CURSEG_HOT_NODE + t)
      | None \<Rightarrow> (case find_cur_segno (cp_cur_data_segno (ckpt m)) segno [0..<3] of Some t \<Rightarrow> CurSum t | None \<Rightarrow> SsaSum))"

definition sum_buf :: "mount \<Rightarrow> nat \<Rightarrow> buf" where
  "sum_buf m segno =
     (case sum_src_of m segno of CurSum t \<Rightarrow> sum_blk (cursegs m t) | SsaSum \<Rightarrow> blocks (dsk m) (GET_SUM_BLKADDR m segno))"

definition ssa_wf :: "mount \<Rightarrow> bool" where
  "ssa_wf m \<longleftrightarrow> \<not> disk_ro (dsk m) \<and> ssa_blkaddr m + main_segments m \<le> last_blk (dsk m) + 1"

lemma find_cur_segno_Some: "find_cur_segno f segno ts = Some t \<Longrightarrow> t \<in> set ts \<and> segno = unat (f t)"
  by (induction ts) (auto split: if_splits)

lemma sum_src_of_inj: "\<lbrakk>sum_src_of m a = CurSum t; sum_src_of m b = CurSum t\<rbrakk> \<Longrightarrow> a = b"
  by (auto simp: sum_src_of_def CURSEG_HOT_NODE_def dest!: find_cur_segno_Some split: option.splits)

lemma get_sum_block_eq:
  assumes "ssa_wf m" "segno < main_segments m"
  shows "\<exists>g t. get_sum_block m segno = Some (m\<lparr>m_bug_on := g\<rparr>, sum_src_of m segno, sum_buf m segno, t)"
proof -
  have "rd_blk m (GET_SUM_BLKADDR m segno) = Some (blocks (dsk m) (GET_SUM_BLKADDR m segno))"
    using assms by (intro rd_blk_Some) (simp add: ssa_wf_def GET_SUM_BLKADDR_def)
  moreover have "\<exists>g. m = m\<lparr>m_bug_on := g\<rparr>" by (rule exI [of _ "m_bug_on m"]) simp
  ultimately show ?thesis
    unfolding get_sum_block_def sum_src_of_def sum_buf_def Let_def
    by (auto split: option.splits)
qed

lemma blkaddr_parts:
  assumes "main_blkaddr m \<le> blk"
  shows "GET_SEGNO m blk = Some (seg_of m (int blk))" "OFFSET_IN_SEG m blk = Some (off_of m (int blk))"
    "BLKOFF_FROM_MAIN m blk = Some (blk - main_blkaddr m)"
  using assms by (simp_all add: GET_SEGNO_def OFFSET_IN_SEG_def BLKOFF_FROM_MAIN_def seg_of_def off_of_def nat_minus_as_int)

definition new_sum :: "mount \<Rightarrow> nat \<Rightarrow> summary \<Rightarrow> buf" where
  "new_sum m blk s = (put_sum_ent (off_of m (int blk)) s (sum_buf m (seg_of m (int blk))))
     (SUM_FOOTER_OFFSET := if IS_NODESEG (seg_type (sentries m (seg_of m (int blk)))) then SUM_TYPE_NODE else SUM_TYPE_DATA)"

lemma update_sum_entry_ok:
  assumes "ssa_wf m" "\<not> RO_SB m" "main_blkaddr m \<le> blk" "seg_of m (int blk) < main_segments m"
  shows "\<exists>m'. update_sum_entry m blk s = Some m' \<and>
     (\<forall>x < main_segments m. sum_buf m' x = (if x = seg_of m (int blk) then new_sum m blk s else sum_buf m x)) \<and>
     (\<exists>cs d g. m' = m\<lparr>cursegs := cs, dsk := d, m_bug_on := g\<rparr> \<and> last_blk d = last_blk (dsk m) \<and> disk_ro d = disk_ro (dsk m) \<and>
        (\<forall>t. cs t = cursegs m t \<or> (\<exists>b. cs t = (cursegs m t)\<lparr>sum_blk := b\<rparr>)) \<and>
        (\<forall>a. a \<noteq> GET_SUM_BLKADDR m (seg_of m (int blk)) \<longrightarrow> blocks d a = blocks (dsk m) a))"
proof -
  let ?s = "seg_of m (int blk)" let ?src = "sum_src_of m ?s" and ?a = "GET_SUM_BLKADDR m ?s"
  obtain g t where g: "get_sum_block m ?s = Some (m\<lparr>m_bug_on := g\<rparr>, ?src, sum_buf m ?s, t)"
    using get_sum_block_eq [OF assms(1,4)] by blast
  define cs where "cs = (case ?src of CurSum t \<Rightarrow> (cursegs m)(t := (cursegs m t)\<lparr>sum_blk := new_sum m blk s\<rparr>) | SsaSum \<Rightarrow> cursegs m)"
  define d where "d = (dsk m)\<lparr>blocks := (blocks (dsk m))(?a := new_sum m blk s)\<rparr>"
  define m' where "m' = m\<lparr>cursegs := cs, dsk := d, m_bug_on := g\<rparr>"
  have a: "?a \<le> last_blk (dsk m)" "\<not> disk_ro (dsk m)" using assms(1,4) by (simp_all add: ssa_wf_def GET_SUM_BLKADDR_def)
  have "store_sum_blk ?src (new_sum m blk s) (m\<lparr>m_bug_on := g\<rparr>) = m\<lparr>cursegs := cs, m_bug_on := g\<rparr>"
    by (simp add: store_sum_blk_def cs_def upd_sum_blk_def split: sum_src.split)
  moreover have "GET_SUM_BLKADDR (m\<lparr>m_bug_on := g\<rparr>) ?s = ?a" by (simp add: GET_SUM_BLKADDR_def)
  ultimately have "update_sum_entry m blk s = wr_blk ?a (new_sum m blk s) (m\<lparr>cursegs := cs, m_bug_on := g\<rparr>)"
    using assms(2,4) by (simp add: update_sum_entry_def blkaddr_parts [OF assms(3)] get_seg_entry_def g new_sum_def Let_def)
  then have upd: "update_sum_entry m blk s = Some m'"
    using a by (simp add: wr_blk_def blk_write_def m'_def d_def)
  have ck: "ckpt m' = ckpt m" by (simp add: m'_def)
  have src: "sum_src_of m' = sum_src_of m" unfolding sum_src_of_def [abs_def] ck ..
  have ga: "GET_SUM_BLKADDR m' x = GET_SUM_BLKADDR m x" "GET_SUM_BLKADDR m x = ?a \<longleftrightarrow> x = ?s" for x
    by (auto simp: m'_def GET_SUM_BLKADDR_def)
  have "sum_buf m' x = (if x = ?s then new_sum m blk s else sum_buf m x)" if "x < main_segments m" for x
  proof (cases "x = ?s")
    case True
    then show ?thesis unfolding sum_buf_def src
      by (cases ?src) (simp_all add: m'_def cs_def d_def GET_SUM_BLKADDR_def)
  next
    case False
    show ?thesis
    proof (cases "sum_src_of m x")
      case (CurSum u)
      then have "?src \<noteq> CurSum u" using False sum_src_of_inj by blast
      then have "cs u = cursegs m u" by (auto simp: cs_def split: sum_src.splits)
      with CurSum False show ?thesis unfolding sum_buf_def src by (simp add: m'_def)
    next
      case SsaSum
      with False show ?thesis unfolding sum_buf_def src by (simp add: ga) (simp add: m'_def d_def ga)
    qed
  qed
  moreover have "\<exists>cs d g. m' = m\<lparr>cursegs := cs, dsk := d, m_bug_on := g\<rparr> \<and> last_blk d = last_blk (dsk m) \<and> disk_ro d = disk_ro (dsk m) \<and>
        (\<forall>t. cs t = cursegs m t \<or> (\<exists>b. cs t = (cursegs m t)\<lparr>sum_blk := b\<rparr>)) \<and>
        (\<forall>a. a \<noteq> ?a \<longrightarrow> blocks d a = blocks (dsk m) a)"
    by (intro exI [of _ cs] exI [of _ d] exI [of _ g]) (auto simp: m'_def d_def cs_def split: sum_src.splits)
  ultimately show ?thesis using upd by blast
qed

definition sum_entry :: "mount \<Rightarrow> nat \<Rightarrow> summary" where
  "sum_entry m blk = get_sum_ent (sum_buf m (seg_of m (int blk))) (off_of m (int blk))"

lemma get_sum_entry_eq:
  assumes "ssa_wf m" "main_blkaddr m \<le> blk" "seg_of m (int blk) < main_segments m"
  shows "\<exists>m' t. get_sum_entry m blk = Some (m', sum_entry m blk, t)"
  using get_sum_block_eq [OF assms(1,3)] by (auto simp: get_sum_entry_def blkaddr_parts [OF assms(2)] sum_entry_def)

lemma off_of_lt: "off_of m x < 512"
  by (simp add: off_of_def BLOCKS_PER_SEG_def)

lemma get_sum_ent_footer: "i < 512 \<Longrightarrow> get_sum_ent (b(SUM_FOOTER_OFFSET := v)) i = get_sum_ent b i"
  by (simp add: get_sum_ent_def SUM_FOOTER_OFFSET_def buf_simps)

lemma sum_entry_new:
  assumes "main_blkaddr m \<le> blk" "main_blkaddr m \<le> b" "seg_of m (int b) = seg_of m (int blk)"
  shows "get_sum_ent (new_sum m blk s) (off_of m (int b)) = (if b = blk then s else sum_entry m b)"
proof -
  have "off_of m (int b) = off_of m (int blk) \<longleftrightarrow> b = blk"
  proof
    assume "off_of m (int b) = off_of m (int blk)"
    with assms(3) have "nat (int b - int (main_blkaddr m)) = nat (int blk - int (main_blkaddr m))"
      unfolding seg_of_def off_of_def by (metis div_mult_mod_eq)
    with assms(1,2) show "b = blk" by simp
  qed simp
  then show ?thesis
    using assms(3) by (auto simp: new_sum_def get_sum_ent_footer off_of_lt get_put_sum_ent_other sum_entry_def)
qed

text \<open>Property C27. Summary entries can be relied on: after \<open>update_sum_entry\<close> a lookup of that block
  gives the entry stored, and a lookup of every other block of the main area the entry it
  had, whether the segment is current or its summary is in the SSA.\<close>

theorem sum_entry_update_lookup:
  assumes "seg_geom m" "ssa_wf m" "\<not> RO_SB m" "in_main m (int blk)"
  shows "\<exists>m'. update_sum_entry m blk s = Some m' \<and>
     (\<forall>b. in_main m (int b) \<longrightarrow> (\<exists>m1 t1 m2 t2 e. get_sum_entry m b = Some (m1, e, t1) \<and>
        get_sum_entry m' b = Some (m2, if b = blk then s else e, t2)))"
proof -
  have blk: "main_blkaddr m \<le> blk" "seg_of m (int blk) < main_segments m"
    using assms(4) seg_of_lt [OF assms(1,4)] by (auto simp: in_main_def)
  from update_sum_entry_ok [OF assms(2,3) blk, of s] obtain m' cs d g where m': "update_sum_entry m blk s = Some m'"
    "\<forall>x < main_segments m. sum_buf m' x = (if x = seg_of m (int blk) then new_sum m blk s else sum_buf m x)"
    "m' = m\<lparr>cursegs := cs, dsk := d, m_bug_on := g\<rparr>" "last_blk d = last_blk (dsk m)" "disk_ro d = disk_ro (dsk m)"
    by blast
  have sel: "ssa_wf m'" "main_blkaddr m' = main_blkaddr m" "main_segments m' = main_segments m" "seg_of m' = seg_of m" "off_of m' = off_of m"
    using assms(2) m'(3-5) by (auto simp: ssa_wf_def seg_of_def off_of_def fun_eq_iff)
  have "\<exists>m1 t1 m2 t2 e. get_sum_entry m b = Some (m1, e, t1) \<and> get_sum_entry m' b = Some (m2, if b = blk then s else e, t2)"
    if "in_main m (int b)" for b
  proof -
    have b: "main_blkaddr m \<le> b" "seg_of m (int b) < main_segments m"
      using that seg_of_lt [OF assms(1) that] by (auto simp: in_main_def)
    have "sum_entry m' b = (if b = blk then s else sum_entry m b)"
      using m'(2) b blk sum_entry_new [OF blk(1) b(1), of s] by (auto simp: sum_entry_def sel)
    moreover obtain m1 t1 where "get_sum_entry m b = Some (m1, sum_entry m b, t1)"
      using get_sum_entry_eq [OF assms(2) b] by blast
    moreover obtain m2 t2 where "get_sum_entry m' b = Some (m2, sum_entry m' b, t2)"
      using get_sum_entry_eq [OF sel(1), of b] b by (auto simp: sel)
    ultimately show ?thesis
      by (intro exI [of _ m1] exI [of _ t1] exI [of _ m2] exI [of _ t2] exI [of _ "sum_entry m b"]) simp
  qed
  with m'(1) show ?thesis by blast
qed

subsection \<open>Reserving a block\<close>

text \<open>The segment entries agree with their maps, and a block in use now is in the map
  that the next checkpoint writes.\<close>

definition seg_consistent :: "mount \<Rightarrow> bool" where
  "seg_consistent m \<longleftrightarrow> (\<forall>segno < main_segments m. let se = sentries m segno in
     valid_blocks se = map_weight (cur_valid_map se) \<and>
     (need_fsync_data_record m \<longrightarrow> ckpt_valid_blocks se = map_weight (ckpt_valid_map se) \<and>
        (\<forall>b < BLOCKS_PER_SEG. f2fs_test_bit b (cur_valid_map se) \<longrightarrow> f2fs_test_bit b (ckpt_valid_map se))))"

definition used :: "mount \<Rightarrow> int \<Rightarrow> bool" where
  "used m x \<longleftrightarrow> f2fs_test_bit (off_of m x) (cur_valid_map (sentries m (seg_of m x)))"

lemma map_weight_0: "map_weight vmap = 0 \<Longrightarrow> b < BLOCKS_PER_SEG \<Longrightarrow> \<not> f2fs_test_bit b vmap"
proof -
  assume "map_weight vmap = 0" "b < BLOCKS_PER_SEG"
  moreover have "finite {b. b < BLOCKS_PER_SEG \<and> f2fs_test_bit b vmap}" by simp
  ultimately show ?thesis unfolding map_weight_card by (auto simp: card_eq_0_iff)
qed

lemma map_weight_set:
  assumes "b < BLOCKS_PER_SEG" "\<not> f2fs_test_bit b vmap"
  shows "map_weight (snd (f2fs_set_bit b vmap)) = map_weight vmap + 1"
proof -
  have "{x. x < BLOCKS_PER_SEG \<and> f2fs_test_bit x (snd (f2fs_set_bit b vmap))} =
      insert b {x. x < BLOCKS_PER_SEG \<and> f2fs_test_bit x vmap}"
    using assms(1) by (auto simp: f2fs_test_set_bit)
  then show ?thesis using assms(2) by (simp add: map_weight_card)
qed

lemma off_of_lt_seg: "off_of m x < BLOCKS_PER_SEG"
  using off_of_lt by (simp add: BLOCKS_PER_SEG_def)

lemma candidate_free:
  assumes "seg_geom m" "seg_consistent m" "in_main m x" "free_candidate m w ns ne x"
  shows "\<not> f2fs_test_bit (off_of m x) (get_seg_bitmap m (sentries m (seg_of m x)))" "\<not> used m x"
proof -
  let ?se = "sentries m (seg_of m x)"
  have c: "valid_blocks ?se = map_weight (cur_valid_map ?se)"
    "need_fsync_data_record m \<Longrightarrow> ckpt_valid_blocks ?se = map_weight (ckpt_valid_map ?se)"
    "need_fsync_data_record m \<Longrightarrow> f2fs_test_bit (off_of m x) (cur_valid_map ?se) \<Longrightarrow> f2fs_test_bit (off_of m x) (ckpt_valid_map ?se)"
    using assms(2) seg_of_lt [OF assms(1,3)] off_of_lt_seg [of m x] by (auto simp: seg_consistent_def Let_def)
  have "get_seg_vblocks m ?se = 0" if "section_free m (seg_of m x)"
    using that assms(1) by (auto simp: section_free_def seg_geom_def dest!: spec [of _ 0])
  then show b: "\<not> f2fs_test_bit (off_of m x) (get_seg_bitmap m ?se)"
    using assms(4) c(1,2) map_weight_0 [OF _ off_of_lt_seg [of m x]]
    by (auto simp: free_candidate_def Let_def get_seg_vblocks_def get_seg_bitmap_def split: if_splits)
  then show "\<not> used m x" using c(3) by (auto simp: used_def get_seg_bitmap_def split: if_splits)
qed

lemma sentries_sel [simp]:
  "seg_of (m\<lparr>sentries := f\<rparr>) = seg_of m" "off_of (m\<lparr>sentries := f\<rparr>) = off_of m"
  "in_main (m\<lparr>sentries := f\<rparr>) = in_main m" "ssa_wf (m\<lparr>sentries := f\<rparr>) = ssa_wf m"
  "seg_geom (m\<lparr>sentries := f\<rparr>) = seg_geom m" "RO_SB (m\<lparr>sentries := f\<rparr>) = RO_SB m"
  by (auto simp: seg_of_def off_of_def in_main_def end_main_blkaddr_def ssa_wf_def seg_geom_def RO_SB_def fun_eq_iff)

text \<open>The state between the search and the update of the summary.\<close>

definition marked :: "mount \<Rightarrow> nat \<Rightarrow> (nat \<Rightarrow> seg_entry) \<Rightarrow> bool" where
  "marked m blk f \<longleftrightarrow> (\<forall>x. let hit = (x = seg_of m (int blk)); se = sentries m x in
     cur_valid_map (f x) = (if hit then snd (f2fs_set_bit (off_of m (int blk)) (cur_valid_map se)) else cur_valid_map se) \<and>
     valid_blocks (f x) = (if hit then valid_blocks se + 1 else valid_blocks se) \<and>
     (need_fsync_data_record m \<longrightarrow>
        ckpt_valid_map (f x) = (if hit then snd (f2fs_set_bit (off_of m (int blk)) (ckpt_valid_map se)) else ckpt_valid_map se) \<and>
        ckpt_valid_blocks (f x) = (if hit then ckpt_valid_blocks se + 1 else ckpt_valid_blocks se)))"

definition reserve_mid :: "mount \<Rightarrow> nat \<Rightarrow> nat \<Rightarrow> nat \<Rightarrow> mount \<Rightarrow> bool" where
  "reserve_mid m old blk type m' \<longleftrightarrow>
     (\<exists>f a b c n i. m' = m\<lparr>sentries := f, main_area_bitmap := a, sit_area_bitmap := b, chk := c,
        total_valid_block_count := total_valid_block_count m + (if old = 0 then 1 else 0),
        total_valid_node_count := n, total_valid_inode_count := i\<rparr> \<and>
      marked m blk f \<and> seg_type (f (seg_of m (int blk))) = type \<and> seg_dirty (f (seg_of m (int blk))) \<and>
      (func m = FSCK \<longrightarrow> f2fs_test_bit (blk - main_blkaddr m) a \<and> f2fs_test_bit (blk - main_blkaddr m) b))"

lemma marked_consistent:
  assumes f: "sentries m' = f" "seg_of m' = seg_of m" "off_of m' = off_of m" "main_segments m' = main_segments m"
      "need_fsync_data_record m' = need_fsync_data_record m"
    and mk: "marked m blk f" and c: "seg_consistent m" and main: "in_main m (int blk)"
    and free: "\<not> f2fs_test_bit (off_of m (int blk)) (get_seg_bitmap m (sentries m (seg_of m (int blk))))" "\<not> used m (int blk)"
  shows "seg_consistent m'" "\<forall>x. in_main m x \<longrightarrow> (used m' x \<longleftrightarrow> used m x \<or> x = int blk)"
proof -
  let ?s = "seg_of m (int blk)" and ?o = "off_of m (int blk)"
  note fx = mk [unfolded marked_def Let_def]
  have cur: "\<not> f2fs_test_bit ?o (cur_valid_map (sentries m ?s))" using free(2) by (simp add: used_def)
  have ck: "need_fsync_data_record m \<Longrightarrow> \<not> f2fs_test_bit ?o (ckpt_valid_map (sentries m ?s))"
    using free(1) by (simp add: get_seg_bitmap_def)
  show "seg_consistent m'" unfolding seg_consistent_def Let_def f
  proof (intro allI impI)
    fix x assume x: "x < main_segments m"
    note cx = c [unfolded seg_consistent_def Let_def, rule_format, OF x]
    show "valid_blocks (f x) = map_weight (cur_valid_map (f x)) \<and>
      (need_fsync_data_record m \<longrightarrow> ckpt_valid_blocks (f x) = map_weight (ckpt_valid_map (f x)) \<and>
        (\<forall>b < BLOCKS_PER_SEG. f2fs_test_bit b (cur_valid_map (f x)) \<longrightarrow> f2fs_test_bit b (ckpt_valid_map (f x))))"
    proof (cases "x = ?s")
      case True
      show ?thesis using cx fx cur ck map_weight_set [OF off_of_lt_seg [of m "int blk"]] True
        by (auto simp: f2fs_test_set_bit)
    next
      case False
      then show ?thesis using cx fx by simp
    qed
  qed
  show "\<forall>x. in_main m x \<longrightarrow> (used m' x \<longleftrightarrow> used m x \<or> x = int blk)"
  proof (intro allI impI)
    fix x assume x: "in_main m x"
    have "x = int blk \<longleftrightarrow> seg_of m x = ?s \<and> off_of m x = ?o"
    proof
      assume "seg_of m x = ?s \<and> off_of m x = ?o"
      then have "nat (x - int (main_blkaddr m)) = nat (int blk - int (main_blkaddr m))"
        unfolding seg_of_def off_of_def by (metis div_mult_mod_eq)
      with x main show "x = int blk" by (auto simp: in_main_def)
    qed simp
    then show "used m' x \<longleftrightarrow> used m x \<or> x = int blk"
      using fx by (auto simp: used_def f f2fs_test_set_bit)
  qed
qed

lemma retyped_sel:
  assumes "retyped m segno type m1"
  shows "seg_of m1 = seg_of m" "off_of m1 = off_of m" "main_segments m1 = main_segments m" "main_blkaddr m1 = main_blkaddr m"
    "need_fsync_data_record m1 = need_fsync_data_record m" "func m1 = func m"
    "valid_blocks (sentries m1 x) = valid_blocks (sentries m x)" "cur_valid_map (sentries m1 x) = cur_valid_map (sentries m x)"
    "ckpt_valid_blocks (sentries m1 x) = ckpt_valid_blocks (sentries m x)" "ckpt_valid_map (sentries m1 x) = ckpt_valid_map (sentries m x)"
proof -
  obtain f where m1: "m1 = m\<lparr>sentries := f\<rparr>" and
    f: "\<forall>x. f x = sentries m x \<or> (f x = (sentries m x)\<lparr>seg_type := type\<rparr> \<and> get_seg_vblocks m (sentries m x) = 0)"
    using assms by (auto simp: retyped_def)
  have "f x = sentries m x \<or> f x = (sentries m x)\<lparr>seg_type := type\<rparr>" using f by blast
  then show "valid_blocks (sentries m1 x) = valid_blocks (sentries m x)" "cur_valid_map (sentries m1 x) = cur_valid_map (sentries m x)"
    "ckpt_valid_blocks (sentries m1 x) = ckpt_valid_blocks (sentries m x)" "ckpt_valid_map (sentries m1 x) = ckpt_valid_map (sentries m x)"
    by (auto simp: m1)
qed (use assms in \<open>auto simp: retyped_def\<close>)

lemma marked_reserve_seg:
  assumes "retyped m segno type m1"
  shows "marked m blk ((sentries m1)(seg_of m (int blk) :=
    (reserve_seg m1 type (off_of m (int blk)) (sentries m1 (seg_of m (int blk))))\<lparr>seg_dirty := True\<rparr>))"
  by (simp add: marked_def Let_def reserve_seg_def retyped_sel [OF assms])

lemma mark_reserved_mid:
  assumes r: "retyped m sg type m1" and lo: "main_blkaddr m \<le> blk" and s: "seg_of m (int blk) < main_segments m"
    and t: "type < NO_CHECK_TYPE"
  shows "\<exists>m2. mark_reserved old type is_inode blk m1 = Some m2 \<and> reserve_mid m old blk type m2"
proof -
  let ?s = "seg_of m (int blk)" and ?o = "off_of m (int blk)"
  note sel = retyped_sel [OF r]
  obtain f0 where m1: "m1 = m\<lparr>sentries := f0\<rparr>" using r by (auto simp: retyped_def)
  define f where "f = (sentries m1)(?s := (reserve_seg m1 type ?o (sentries m1 ?s))\<lparr>seg_dirty := True\<rparr>)"
  have lo1: "main_blkaddr m1 \<le> blk" using lo by (simp add: sel)
  note parts = blkaddr_parts [OF lo1, unfolded sel]
  define m2 where "m2 = set_seg ?s (reserve_seg m1 type ?o) m1"
  have st: "seg_type (sentries m2 ?s) = type" by (simp add: m2_def set_seg_def reserve_seg_def Let_def)
  have se: "get_seg_entry m1 ?s = Some (sentries m1 ?s)" "get_seg_entry m2 ?s = Some (sentries m2 ?s)"
    using s by (simp_all add: get_seg_entry_def sel m2_def set_seg_def)
  have lo2: "main_blkaddr m2 \<le> blk" using lo by (simp add: m2_def set_seg_def sel)
  have sel2: "seg_of m2 = seg_of m" "func m2 = func m" "main_blkaddr m2 = main_blkaddr m"
    by (simp_all add: m2_def set_seg_def sel seg_of_def fun_eq_iff)
  note parts2 = blkaddr_parts [OF lo2, unfolded sel2]
  define m3 where "m3 = (if func m = FSCK then m2\<lparr>main_area_bitmap := snd (f2fs_set_bit (blk - main_blkaddr m) (main_area_bitmap m2)),
      sit_area_bitmap := snd (f2fs_set_bit (blk - main_blkaddr m) (sit_area_bitmap m2))\<rparr> else m2)"
  have "mark_area_bitmaps type blk m2 = Some m3"
    using t lo2 by (simp add: mark_area_bitmaps_def f2fs_set_main_bitmap_def f2fs_set_sit_bitmap_def parts2 se st sel2 m3_def Let_def
        BLKOFF_FROM_MAIN_def case_prod_unfold)
  then have eq: "mark_reserved old type is_inode blk m1 =
      Some (set_seg ?s (\<lambda>se. se\<lparr>seg_dirty := True\<rparr>) (if old = 0 then count_new_block (IS_NODESEG type) is_inode m3 else m3))"
    by (simp add: mark_reserved_def parts se m2_def [symmetric] Let_def)
  have "reserve_mid m old blk type
      (set_seg ?s (\<lambda>se. se\<lparr>seg_dirty := True\<rparr>) (if old = 0 then count_new_block (IS_NODESEG type) is_inode m3 else m3))"
    (is "reserve_mid m old blk type ?m'") unfolding reserve_mid_def
  proof (intro exI conjI)
    show "?m' = m\<lparr>sentries := f, main_area_bitmap := main_area_bitmap m3, sit_area_bitmap := sit_area_bitmap m3, chk := chk ?m',
        total_valid_block_count := total_valid_block_count m + (if old = 0 then 1 else 0),
        total_valid_node_count := total_valid_node_count ?m', total_valid_inode_count := total_valid_inode_count ?m'\<rparr>"
      by (rule mount.equality) (simp_all add: count_new_block_def set_seg_def m3_def m2_def m1 f_def Let_def)
    show "marked m blk f" unfolding f_def by (rule marked_reserve_seg [OF r])
    show "seg_type (f ?s) = type" "seg_dirty (f ?s)" by (simp_all add: f_def reserve_seg_def Let_def)
    show "func m = FSCK \<longrightarrow> f2fs_test_bit (blk - main_blkaddr m) (main_area_bitmap m3) \<and>
        f2fs_test_bit (blk - main_blkaddr m) (sit_area_bitmap m3)"
      by (simp add: m3_def f2fs_test_set_bit)
  qed
  with eq show ?thesis by blast
qed


lemma reserve_mid_sel:
  assumes "reserve_mid m old blk type m2"
  shows "seg_of m2 = seg_of m" "off_of m2 = off_of m" "main_segments m2 = main_segments m" "main_blkaddr m2 = main_blkaddr m"
    "need_fsync_data_record m2 = need_fsync_data_record m" "ssa_wf m2 = ssa_wf m" "RO_SB m2 = RO_SB m"
    "marked m blk (sentries m2)" "total_valid_block_count m2 = total_valid_block_count m + (if old = 0 then 1 else 0)"
    "func m = FSCK \<Longrightarrow> f2fs_test_bit (blk - main_blkaddr m) (main_area_bitmap m2)"
    "seg_dirty (sentries m2 (seg_of m (int blk)))"
  using assms unfolding reserve_mid_def
  by (auto simp: seg_of_def off_of_def need_fsync_data_record_def ssa_wf_def RO_SB_def)

text \<open>Property C22. Allocation is sound and makes progress: when the counters leave room and the search
  can find a block, \<open>reserve_new_block\<close> returns a block of the main area that was free, marks that
  block and no other as used, keeps the counts of every segment equal to the bits of its maps, and
  records the given owner in the summary.\<close>

theorem reserve_new_block_allocates:
  assumes g: "seg_geom m" and w: "ssa_wf m" and c: "seg_consistent m" and t: "type < NO_CHECK_TYPE"
    and room: "old \<noteq> 0 \<or> \<not> no_space m (IS_NODESEG type)"
    and ex: "in_main m y" "free_candidate m type False (get_free_segments m \<le> reserved_segments m + 1) y"
  shows "\<exists>blk m'. reserve_new_block m old s type is_inode = Some (0, blk, m') \<and> in_main m (int blk) \<and>
     \<not> used m (int blk) \<and> seg_consistent m' \<and> (\<forall>x. in_main m x \<longrightarrow> (used m' x \<longleftrightarrow> used m x \<or> x = int blk)) \<and>
     (\<not> RO_SB m \<longrightarrow> (\<exists>m2 t2. get_sum_entry m' blk = Some (m2, s, t2))) \<and>
     total_valid_block_count m' = total_valid_block_count m + (if old = 0 then 1 else 0)"
proof -
  let ?ne = "get_free_segments m \<le> reserved_segments m + 1" and ?main = "int (main_blkaddr m)"
  have start: "in_main m ?main" "toward False ?main y" using ex(1) by (auto simp: in_main_def toward_def)
  have fnb: "find_next_free_block m (main_blkaddr m) False type False = find_free_loop m False type False ?ne ?main"
    by (simp add: find_next_free_block_def Let_def)
  have "first_free m False type (free_candidate m type False ?ne) ?main (find_free_loop m False type False ?ne ?main)"
    using start by (intro find_free_loop_first [OF g]) simp
  then obtain to m1 where f: "find_free_loop m False type False ?ne ?main = Some (0, to, m1)" "in_main m to"
      "free_candidate m type False ?ne to" "retyped m (seg_of m to) type m1"
    unfolding first_free_def using ex start by blast
  obtain blk where to: "to = int blk" using f(2) by (metis in_main_def nonneg_int_cases of_nat_0_le_iff order_trans)
  note f = f [unfolded to]
  have blk: "main_blkaddr m \<le> blk" "seg_of m (int blk) < main_segments m"
    using f(2) seg_of_lt [OF g f(2)] by (auto simp: in_main_def)
  from mark_reserved_mid [OF f(4) blk t, of old is_inode] obtain m2 where
    m2: "mark_reserved old type is_inode blk m1 = Some m2" "reserve_mid m old blk type m2" by blast
  note sel = reserve_mid_sel [OF m2(2)]
  have inv: "seg_consistent m2" "\<forall>x. in_main m x \<longrightarrow> (used m2 x \<longleftrightarrow> used m x \<or> x = int blk)"
    using marked_consistent [OF refl sel(1,2,3,5) sel(8) c f(2) candidate_free [OF g c f(2,3)]] by auto
  have res: "reserve_new_block m old s type is_inode = map_option (\<lambda>m. (0, blk, m)) (update_sum_entry m2 blk s)"
    using room by (cases "update_sum_entry m2 blk s") (auto simp: reserve_new_block_def trans [OF fnb f(1)] m2(1) Let_def)
  show ?thesis
  proof (cases "RO_SB m")
    case True
    then have "update_sum_entry m2 blk s = Some m2" by (simp add: update_sum_entry_def sel)
    then show ?thesis using res inv f(2) candidate_free(2) [OF g c f(2,3)] True sel(9) by auto
  next
    case False
    from update_sum_entry_ok [of m2 blk s] w False blk obtain m' cs d gg where m': "update_sum_entry m2 blk s = Some m'"
      "sum_buf m' (seg_of m (int blk)) = new_sum m2 blk s" "m' = m2\<lparr>cursegs := cs, dsk := d, m_bug_on := gg\<rparr>"
      "last_blk d = last_blk (dsk m2)" "disk_ro d = disk_ro (dsk m2)"
      unfolding sel by auto
    have s': "seg_of m' = seg_of m" "off_of m' = off_of m" "sentries m' = sentries m2" "main_segments m' = main_segments m"
      "ssa_wf m'" "main_blkaddr m' = main_blkaddr m" "need_fsync_data_record m' = need_fsync_data_record m"
      "total_valid_block_count m' = total_valid_block_count m2"
      using m'(3-5) sel w by (auto simp: seg_of_def off_of_def ssa_wf_def need_fsync_data_record_def fun_eq_iff)
    have "sum_entry m' blk = s"
      using sum_entry_new [of m2 blk blk s] blk m'(2) by (simp add: sum_entry_def s' sel)
    then have ge: "\<exists>ma ta. get_sum_entry m' blk = Some (ma, s, ta)"
      using get_sum_entry_eq [OF s'(5), of blk] blk by (simp add: s')
    have "seg_consistent m'" "\<forall>x. in_main m x \<longrightarrow> (used m' x \<longleftrightarrow> used m x \<or> x = int blk)"
      using inv by (simp_all add: seg_consistent_def used_def s' sel)
    then show ?thesis using res m'(1) f(2) candidate_free(2) [OF g c f(2,3)] ge s'(8) sel(9) by auto
  qed
qed

subsection \<open>Moving a current segment\<close>

lemma first_clear_spec:
  "first_clear i vmap k = i + k \<and> (\<forall>b. i \<le> b \<and> b < i + k \<longrightarrow> f2fs_test_bit b vmap) \<or>
   (i \<le> first_clear i vmap k \<and> first_clear i vmap k < i + k \<and> \<not> f2fs_test_bit (first_clear i vmap k) vmap \<and>
    (\<forall>b. i \<le> b \<and> b < first_clear i vmap k \<longrightarrow> f2fs_test_bit b vmap))"
proof (induction k arbitrary: i)
  case (Suc k)
  show ?case
  proof (cases "f2fs_test_bit i vmap")
    case True
    have "b = i \<or> i + 1 \<le> b" if "i \<le> b" for b using that by auto
    with Suc.IH [of "i + 1"] True show ?thesis by (auto; metis Suc_leI le_neq_implies_less)
  qed (auto simp del: One_nat_def)
qed auto

lemma dsk_sel [simp]:
  "seg_of (m\<lparr>dsk := d\<rparr>) = seg_of m" "off_of (m\<lparr>dsk := d\<rparr>) = off_of m" "in_main (m\<lparr>dsk := d\<rparr>) = in_main m"
  "seg_geom (m\<lparr>dsk := d\<rparr>) = seg_geom m" "RO_SB (m\<lparr>dsk := d\<rparr>) = RO_SB m" "seg_consistent (m\<lparr>dsk := d\<rparr>) = seg_consistent m"
  "used (m\<lparr>dsk := d\<rparr>) = used m"
  by (auto simp: seg_of_def off_of_def in_main_def end_main_blkaddr_def seg_geom_def RO_SB_def seg_consistent_def
      need_fsync_data_record_def used_def fun_eq_iff Let_def)

lemma find_next_free_block_Some:
  assumes "seg_geom m" "find_next_free_block m (main_blkaddr m) False w ns = Some (0, to, m')"
  shows "in_main m to" "free_candidate m w ns (get_free_segments m \<le> reserved_segments m + 1) to" "retyped m (seg_of m to) w m'"
proof -
  let ?main = "int (main_blkaddr m)" and ?ne = "get_free_segments m \<le> reserved_segments m + 1"
  have "in_main m ?main \<or> (\<forall>x. toward False ?main x \<longrightarrow> \<not> in_main m x)"
    by (auto simp: in_main_def toward_def)
  from find_free_loop_first [OF assms(1) this, of w ns ?ne] assms(2)
  have "first_free m False w (free_candidate m w ns ?ne) ?main (Some (0, to, m'))"
    by (simp add: find_next_free_block_def Let_def split: if_splits)
  then show "in_main m to" "free_candidate m w ns ?ne to" "retyped m (seg_of m to) w m'"
    by (auto simp: first_free_def)
qed

lemma move_one_curseg_free:
  assumes g: "seg_geom m" and c: "seg_consistent m" and mv: "move_one_curseg_info (main_blkaddr m) False i m = Some m'"
    and nz: "\<not> zoned_hm m" and wr: "RO_SB m \<longrightarrow> i = CURSEG_HOT_DATA \<or> i = CURSEG_HOT_NODE"
  shows "next_blkoff (cursegs m' i) < BLOCKS_PER_SEG \<and> cs_segno (cursegs m' i) < main_segments m \<and>
     \<not> f2fs_test_bit (next_blkoff (cursegs m' i)) (cur_valid_map (sentries m' (cs_segno (cursegs m' i))))"
proof -
  let ?wr = "wr_blk (GET_SUM_BLKADDR m (cs_segno (cursegs m i))) (sum_blk (cursegs m i)) m"
  have "\<exists>d. (if RO_SB m then Some m else wr_blk (GET_SUM_BLKADDR m (cs_segno (cursegs m i))) (sum_blk (cursegs m i)) m) = Some (m\<lparr>dsk := d\<rparr>)"
  proof (cases "RO_SB m")
    case False
    then obtain z where "?wr = Some z" using mv by (auto simp: move_one_curseg_info_def split: bind_splits)
    then show ?thesis using False by (auto simp: wr_blk_def)
  qed (auto intro: exI [of _ "dsk m"])
  then obtain d where d: "(if RO_SB m then Some m else wr_blk (GET_SUM_BLKADDR m (cs_segno (cursegs m i))) (sum_blk (cursegs m i)) m) = Some (m\<lparr>dsk := d\<rparr>)" ..
  define m1 where "m1 = m\<lparr>dsk := d\<rparr>"
  have m1: "seg_geom m1" "seg_consistent m1" "main_blkaddr m1 = main_blkaddr m" "zoned_hm m1 = zoned_hm m" "main_segments m1 = main_segments m"
    using g c by (simp_all add: m1_def)
  note body = mv [unfolded move_one_curseg_info_def d m1_def [symmetric]]
  from body wr obtain ret to m2 where f: "find_next_free_block m1 (main_blkaddr m) False i False = Some (ret, to, m2)"
    using nz m1(4) by (auto split: if_splits bind_splits)
  from body wr f nz m1(4) have r: "ret = 0" by (auto split: if_splits)
  note ff = find_next_free_block_Some [OF m1(1), unfolded m1(3), OF f [unfolded r]]
  note sel = retyped_sel [OF ff(3)]
  obtain blk where to: "to = int blk" "main_blkaddr m1 \<le> blk" using ff(1) by (metis in_main_def nonneg_int_cases of_nat_0_le_iff of_nat_le_iff order_trans)
  have p: "GET_SEGNO m2 blk = Some (seg_of m1 to)" "OFFSET_IN_SEG m2 blk = Some (off_of m1 to)"
    using blkaddr_parts [of m2 blk] to sel by simp_all
  let ?m3 = "set_curseg i (\<lambda>c. c\<lparr>cs_segno := seg_of m1 to, next_blkoff := off_of m1 to, alloc_type := if zoned_hm m2 then LFS else SSR\<rparr>) m2"
  from body wr f nz m1(4) r p to obtain b where fin: "reset_curseg i (upd_sum_blk i (put_bytes 0 SUM_ENTRIES_SIZE b) ?m3) = Some m'"
    by (auto simp: Let_def split: if_splits bind_splits)
  have "cs_segno (cursegs m' i) = seg_of m1 to" "next_blkoff (cursegs m' i) = off_of m1 to"
    "cur_valid_map (sentries m' x) = cur_valid_map (sentries m2 x)" for x
    using fin by (auto simp: reset_curseg_def set_seg_def upd_sum_blk_def set_curseg_def Let_def split: bind_splits)
  then show ?thesis
    using candidate_free(2) [OF m1(1,2) ff(1,2)] off_of_lt_seg [of m1 to] seg_of_lt [OF m1(1) ff(1)] sel(8)
    by (simp add: used_def m1(5))
qed

text \<open>Property C28. After \<open>update_curseg_info\<close> the block the current segment points to is free: the
  first free one of its segment, or, when the segment is full, one found by the search.\<close>

theorem update_curseg_info_next_free:
  assumes g: "seg_geom m" and c: "seg_consistent m" and i: "i < NO_CHECK_TYPE"
    and cs: "cs_segno (cursegs m i) < main_segments m" and up: "update_curseg_info i m = Some m'"
    and nz: "\<not> zoned_hm m" and wr: "RO_SB m \<longrightarrow> i = CURSEG_HOT_DATA \<or> i = CURSEG_HOT_NODE"
  shows "next_blkoff (cursegs m' i) < BLOCKS_PER_SEG \<and> cs_segno (cursegs m' i) < main_segments m \<and>
     \<not> f2fs_test_bit (next_blkoff (cursegs m' i)) (cur_valid_map (sentries m' (cs_segno (cursegs m' i))))"
proof -
  let ?seg = "cs_segno (cursegs m i)" let ?vm = "cur_valid_map (sentries m ?seg)"
  let ?o = "first_clear 0 ?vm BLOCKS_PER_SEG"
  have fc: "?o = BLOCKS_PER_SEG \<or> ?o < BLOCKS_PER_SEG \<and> \<not> f2fs_test_bit ?o ?vm"
    using first_clear_spec [of 0 ?vm BLOCKS_PER_SEG] by auto
  show ?thesis
  proof (cases "?o = BLOCKS_PER_SEG")
    case False
    then have "m' = set_curseg i (\<lambda>c. c\<lparr>next_blkoff := ?o, alloc_type := SSR\<rparr>) m"
      using up cs nz by (simp add: update_curseg_info_def relocate_curseg_offset_def get_seg_entry_def Let_def)
    then show ?thesis using False fc cs by (simp add: set_curseg_def)
  next
    case True
    then have mv: "move_one_curseg_info (main_blkaddr m) False i m = Some m'"
      using up cs nz by (simp add: update_curseg_info_def relocate_curseg_offset_def get_seg_entry_def Let_def EINVAL_def)
    show ?thesis using move_one_curseg_free [OF g c mv nz wr] .
  qed
qed


subsection \<open>Current segments in the checkpoint\<close>

lemma le_at_upd [buf_simps]:
  "k < off \<or> off + 2 \<le> k \<Longrightarrow> le16_at (b(k := v)) off = le16_at b off"
  "k < off \<or> off + 4 \<le> k \<Longrightarrow> le32_at (b(k := v)) off = le32_at b off"
  by (auto intro: le16_at_cong le32_at_cong)

lemma write_curseg_info_fields:
  fixes m defines "cp \<equiv> ckpt (write_curseg_info m)"
  shows "i < 3 \<Longrightarrow> cp_cur_data_segno cp i = of_nat (cs_segno (cursegs m i))"
    "i < 3 \<Longrightarrow> cp_cur_data_blkoff cp i = of_nat (next_blkoff (cursegs m i))"
    "i < 3 \<Longrightarrow> cp_cur_node_segno cp i = of_nat (cs_segno (cursegs m (3 + i)))"
    "i < 3 \<Longrightarrow> cp_cur_node_blkoff cp i = of_nat (next_blkoff (cursegs m (3 + i)))"
    "i < 6 \<Longrightarrow> cp_alloc_type cp i = alloc_type (cursegs m i)"
proof -
  have l: "[0..<NO_CHECK_TYPE] = [0, 1, 2, 3, 4, 5]" by (simp add: NO_CHECK_TYPE_def upt_rec)
  have i3: "i < 3 \<Longrightarrow> i = 0 \<or> i = 1 \<or> i = 2" by auto
  have i6: "i < 6 \<Longrightarrow> i = 0 \<or> i = 1 \<or> i = 2 \<or> i = 3 \<or> i = 4 \<or> i = 5" by auto
  note defs = cp_def write_curseg_info_def l write_one_curseg_def cp_fields cp_alloc_type_def CURSEG_HOT_NODE_def
  show "i < 3 \<Longrightarrow> cp_cur_data_segno cp i = of_nat (cs_segno (cursegs m i))"
    by (drule i3) (elim disjE; simp add: defs Let_def buf_simps)
  show "i < 3 \<Longrightarrow> cp_cur_data_blkoff cp i = of_nat (next_blkoff (cursegs m i))"
    by (drule i3) (elim disjE; simp add: defs Let_def buf_simps)
  show "i < 3 \<Longrightarrow> cp_cur_node_segno cp i = of_nat (cs_segno (cursegs m (3 + i)))"
    by (drule i3) (elim disjE; simp add: defs Let_def buf_simps)
  show "i < 3 \<Longrightarrow> cp_cur_node_blkoff cp i = of_nat (next_blkoff (cursegs m (3 + i)))"
    by (drule i3) (elim disjE; simp add: defs Let_def buf_simps)
  show "i < 6 \<Longrightarrow> cp_alloc_type cp i = alloc_type (cursegs m i)"
    by (drule i6) (elim disjE; simp add: defs Let_def buf_simps)
qed

lemma build_curseg_loop_sets:
  assumes "distinct is" "\<forall>i \<in> set is. i < 6"
    "\<And>i. i < 6 \<Longrightarrow> seg i = unat (if i \<le> CURSEG_COLD_DATA then cp_cur_data_segno (ckpt m) i else cp_cur_node_segno (ckpt m) (i - CURSEG_HOT_NODE))"
    "\<And>i. i < 6 \<Longrightarrow> off i = unat (if i \<le> CURSEG_COLD_DATA then cp_cur_data_blkoff (ckpt m) i else cp_cur_node_blkoff (ckpt m) (i - CURSEG_HOT_NODE))"
    "\<And>i. i < 6 \<Longrightarrow> seg i < main_segments m \<and> off i < BLOCKS_PER_SEG"
  shows "\<exists>m'. build_curseg_loop is m = Some m' \<and>
     (\<forall>i. cursegs m' i = (if i \<in> set is then \<lparr>sum_blk = zero_buf, alloc_type = cp_alloc_type (ckpt m) i, cs_segno = seg i, next_blkoff = off i\<rparr>
        else cursegs m i))"
  using assms
proof (induction "is" arbitrary: m)
  case (Cons i "is")
  let ?m = "set_curseg i (\<lambda>_. \<lparr>sum_blk = zero_buf, alloc_type = cp_alloc_type (ckpt m) i, cs_segno = seg i, next_blkoff = off i\<rparr>) m"
  have i: "i < 6" using Cons.prems(2) by simp
  have s: "ckpt ?m = ckpt m" "main_segments ?m = main_segments m" by (simp_all add: set_curseg_def)
  have "build_curseg_loop (i # is) m = build_curseg_loop is ?m"
    using Cons.prems(3-5) [OF i] by (simp add: Let_def)
  with Cons.IH [of ?m, unfolded s] Cons.prems obtain m' where
    "build_curseg_loop (i # is) m = Some m'"
    "\<forall>j. cursegs m' j = (if j \<in> set is then \<lparr>sum_blk = zero_buf, alloc_type = cp_alloc_type (ckpt m) j, cs_segno = seg j, next_blkoff = off j\<rparr>
        else cursegs ?m j)" by auto
  then show ?case by (auto simp: set_curseg_def)
qed simp

text \<open>Property C29. The current segments that \<open>write_curseg_info\<close> stores in the checkpoint are the ones
  the loop of \<open>build_curseg\<close> reads back at the next mount: same segment, next offset and allocation
  type for each of the six.\<close>

theorem write_curseg_info_roundtrip:
  assumes "\<forall>i < 6. cs_segno (cursegs m i) < main_segments m \<and> next_blkoff (cursegs m i) < BLOCKS_PER_SEG"
    and "main_segments m < 2 ^ 32"
  shows "\<exists>m'. build_curseg_loop [0..<6] (write_curseg_info m) = Some m' \<and>
     (\<forall>i < 6. alloc_type (cursegs m' i) = alloc_type (cursegs m i) \<and> cs_segno (cursegs m' i) = cs_segno (cursegs m i) \<and>
              next_blkoff (cursegs m' i) = next_blkoff (cursegs m i))"
proof -
  let ?w = "write_curseg_info m"
  let ?seg = "\<lambda>i. cs_segno (cursegs m i)" and ?off = "\<lambda>i. next_blkoff (cursegs m i)"
  have lt: "?seg i < 2 ^ 32" "?off i < 2 ^ 16" if "i < 6" for i
    using assms that by (auto simp: BLOCKS_PER_SEG_def intro: less_trans)
  have w: "main_segments ?w = main_segments m" "cursegs ?w = cursegs m" by (simp_all add: write_curseg_info_def)
  have seg: "?seg i = unat (if i \<le> CURSEG_COLD_DATA then cp_cur_data_segno (ckpt ?w) i else cp_cur_node_segno (ckpt ?w) (i - CURSEG_HOT_NODE))"
    and off: "?off i = unat (if i \<le> CURSEG_COLD_DATA then cp_cur_data_blkoff (ckpt ?w) i else cp_cur_node_blkoff (ckpt ?w) (i - CURSEG_HOT_NODE))"
    if "i < 6" for i
    using lt [OF that] that
    by (auto simp: write_curseg_info_fields CURSEG_COLD_DATA_def CURSEG_HOT_NODE_def unat_of_nat)
  from build_curseg_loop_sets [of "[0..<6]" ?seg ?w ?off, OF _ _ seg off] assms(1) obtain m' where
    "build_curseg_loop [0..<6] ?w = Some m'"
    "\<forall>i. cursegs m' i = (if i \<in> set [0..<6] then \<lparr>sum_blk = zero_buf, alloc_type = cp_alloc_type (ckpt ?w) i, cs_segno = ?seg i, next_blkoff = ?off i\<rparr>
        else cursegs ?w i)"
    by (auto simp: w simp del: upt_Suc)
  then show ?thesis by (intro exI [of _ m']) (auto simp: write_curseg_info_fields(5))
qed


subsection \<open>The statements on a small volume\<close>

lemma demo_seg_facts:
  "seg_geom (demo_mount jnl)" "ssa_wf (demo_mount jnl)" "\<not> RO_SB (demo_mount jnl)" "seg_consistent (demo_mount jnl)"
  "in_main (demo_mount jnl) x \<longleftrightarrow> 4096 \<le> x \<and> x < 14336" "seg_of (demo_mount jnl) x = nat (x - 4096) div 512"
  "off_of (demo_mount jnl) x = nat (x - 4096) mod 512"
  "IS_CUR_SEGNO (demo_mount jnl) seg \<longleftrightarrow> seg < 6" "get_free_segments (demo_mount jnl) = 14"
proof -
  let ?m = "demo_mount jnl"
  have e: "end_main_blkaddr ?m = 14336" "RO_SB ?m = False"
    by (simp_all add: end_main_blkaddr_def RO_SB_def demo_mount_def sample_sb
        push_bit_eq_mult)
  have w: "map_weight zero_buf = 0" unfolding map_weight_card by (simp add: f2fs_test_bit_iff zero_buf_def)
  have z: "\<not> f2fs_test_bit b zero_buf" for b by (simp add: f2fs_test_bit_iff zero_buf_def)
  have sg: "sentries ?m seg = demo_seg" for seg by (simp add: demo_mount_def)
  show "seg_geom ?m" "\<not> RO_SB ?m" "in_main ?m x \<longleftrightarrow> 4096 \<le> x \<and> x < 14336"
    by (simp_all add: seg_geom_def in_main_def e) (simp_all add: demo_mount_def BLOCKS_PER_SEG_def)
  show "ssa_wf ?m" by (simp add: ssa_wf_def demo_mount_def)
  show "seg_consistent ?m"
    by (simp add: seg_consistent_def Let_def sg demo_seg_def w z)
  show "seg_of ?m x = nat (x - 4096) div 512" "off_of ?m x = nat (x - 4096) mod 512"
    by (simp_all add: seg_of_def off_of_def BLOCKS_PER_SEG_def demo_mount_def)
  show c: "IS_CUR_SEGNO ?m seg \<longleftrightarrow> seg < 6" for seg by (auto simp: IS_CUR_SEGNO_def demo_mount_def NO_CHECK_TYPE_def)
  have "[0..<20] = [0..<6] @ [6..<20::nat]" by (simp add: upt_add_eq_append [of 0 6 14, simplified])
  moreover have "filter (\<lambda>i. \<not> i < (6::nat)) [0..<6] = []" "filter (\<lambda>i. \<not> i < (6::nat)) [6..<20] = [6..<20]"
    by (auto simp: filter_empty_conv filter_id_conv)
  ultimately show "get_free_segments ?m = 14"
    unfolding get_free_segments_def c by (simp add: demo_mount_def demo_seg_def del: upt_Suc)
qed

lemma demo_candidate:
  "free_candidate (demo_mount jnl) w ns (get_free_segments (demo_mount jnl) \<le> reserved_segments (demo_mount jnl) + 1) x
     \<longleftrightarrow> \<not> nat (x - 4096) div 512 < 6"
  by (simp add: free_candidate_def demo_seg_facts section_free_def get_seg_vblocks_def Let_def)
     (simp add: demo_mount_def demo_seg_def BLOCKS_PER_SEG_def)

theorem find_next_free_block_first_witness:
  "\<exists>m'. find_next_free_block (demo_mount zero_buf) 5000 False 3 False = Some (0, 7168, m')"
proof -
  have "in_main (demo_mount zero_buf) (int 5000)" by (simp add: demo_seg_facts)
  from find_next_free_block_first [OF demo_seg_facts(1) this, of False 3 False]
  consider to' m' where "find_next_free_block (demo_mount zero_buf) 5000 False 3 False = Some (0, to', m')"
      "5000 \<le> to'" "\<not> nat (to' - 4096) div 512 < 6"
      "\<forall>x. 5000 \<le> x \<and> x \<le> to' \<and> x \<noteq> to' \<and> 4096 \<le> x \<and> x < 14336 \<longrightarrow> nat (x - 4096) div 512 < 6" "to' < 14336"
    | "\<forall>x. 5000 \<le> x \<and> 4096 \<le> x \<and> x < 14336 \<longrightarrow> nat (x - 4096) div 512 < 6"
    unfolding Let_def demo_candidate by (auto simp: demo_seg_facts toward_def)
  then show ?thesis
  proof cases
    case 1
    have "7168 \<le> to'" using 1(2,3) by (auto simp: div_less_iff_less_mult)
    moreover have "\<not> 7168 < to'" using 1(4) [rule_format, of 7168] by auto
    ultimately have "to' = 7168" by simp
    then show ?thesis using 1(1) by blast
  qed (drule spec [of _ 7168], simp)
qed

theorem sum_entry_update_lookup_witness:
  "\<exists>m' m2 t2. update_sum_entry (demo_mount zero_buf) 7168 \<lparr>sum_nid = 9, sum_version = 1, sum_ofs_in_node = 3\<rparr> = Some m' \<and>
     get_sum_entry m' 7168 = Some (m2, \<lparr>sum_nid = 9, sum_version = 1, sum_ofs_in_node = 3\<rparr>, t2)"
proof -
  have "in_main (demo_mount zero_buf) (int 7168)" by (simp add: demo_seg_facts)
  with sum_entry_update_lookup [OF demo_seg_facts(1-3) this, of "\<lparr>sum_nid = 9, sum_version = 1, sum_ofs_in_node = 3\<rparr>"]
  show ?thesis by fastforce
qed

theorem reserve_new_block_allocates_witness:
  "\<exists>blk m'. reserve_new_block (demo_mount zero_buf) 0 \<lparr>sum_nid = 9, sum_version = 1, sum_ofs_in_node = 3\<rparr> 3 False = Some (0, blk, m') \<and>
     in_main (demo_mount zero_buf) (int blk) \<and> used m' (int blk) \<and> total_valid_block_count m' = 11"
proof -
  let ?m = "demo_mount zero_buf"
  have ns: "\<not> no_space ?m (IS_NODESEG 3)" by (simp add: no_space_def demo_mount_def)
  have y: "in_main ?m 7168" "free_candidate ?m 3 False (get_free_segments ?m \<le> reserved_segments ?m + 1) 7168"
    unfolding demo_candidate by (simp_all add: demo_seg_facts)
  have t: "3 < NO_CHECK_TYPE" "total_valid_block_count ?m = 10" by (simp_all add: NO_CHECK_TYPE_def demo_mount_def)
  from reserve_new_block_allocates [OF demo_seg_facts(1,2,4) t(1) _ y, of 0 "\<lparr>sum_nid = 9, sum_version = 1, sum_ofs_in_node = 3\<rparr>" False] ns
  obtain blk m' where "reserve_new_block ?m 0 \<lparr>sum_nid = 9, sum_version = 1, sum_ofs_in_node = 3\<rparr> 3 False = Some (0, blk, m')"
      "in_main ?m (int blk)" "\<forall>x. in_main ?m x \<longrightarrow> (used m' x \<longleftrightarrow> used ?m x \<or> x = int blk)" "total_valid_block_count m' = 11"
    by (auto simp: t(2))
  then show ?thesis by blast
qed

theorem update_curseg_info_next_free_witness:
  "\<exists>m'. update_curseg_info 2 (demo_mount zero_buf) = Some m' \<and> next_blkoff (cursegs m' 2) < BLOCKS_PER_SEG"
proof -
  let ?m = "demo_mount zero_buf"
  have z: "\<not> f2fs_test_bit 0 (cur_valid_map (sentries ?m 2))" by (simp add: f2fs_test_bit_iff demo_mount_def demo_seg_def zero_buf_def)
  have fc: "first_clear 0 (cur_valid_map (sentries ?m 2)) BLOCKS_PER_SEG = 0"
    using z by (simp add: BLOCKS_PER_SEG_def numeral_eq_Suc)
  have c: "cs_segno (cursegs ?m 2) = 2" "\<not> zoned_hm ?m" by (simp_all add: demo_mount_def)
  obtain m' where u: "update_curseg_info 2 ?m = Some m'"
    using fc by (simp add: update_curseg_info_def relocate_curseg_offset_def get_seg_entry_def c demo_sit_facts BLOCKS_PER_SEG_def)
  from update_curseg_info_next_free [OF demo_seg_facts(1,4) _ _ u c(2)] u show ?thesis
    by (auto simp: c demo_sit_facts demo_seg_facts(3) NO_CHECK_TYPE_def)
qed

theorem write_curseg_info_roundtrip_witness:
  "\<exists>m'. build_curseg_loop [0..<6] (write_curseg_info (demo_mount zero_buf)) = Some m' \<and> cs_segno (cursegs m' 4) = 4"
proof -
  let ?m = "demo_mount zero_buf"
  have s: "\<And>i. cs_segno (cursegs ?m i) = i" "\<And>i. next_blkoff (cursegs ?m i) = 0" "main_segments ?m = 20"
    by (simp_all add: demo_mount_def)
  from write_curseg_info_roundtrip [of ?m] show ?thesis by (auto simp: s BLOCKS_PER_SEG_def simp del: upt_Suc)
qed

end
