(* ===== verification/Node.thy ===== *)
theory Node
  imports Segment
begin

text \<open>
  Node blocks and file contents: the fields of \<open>struct f2fs_inode\<close> and \<open>struct node_footer\<close>
  (\<open>include/f2fs_fs.h\<close>), \<open>fsck/node.h\<close> and \<open>fsck/node.c\<close> (node numbers, the path from an inode to
  a data block, allocation of node blocks) and the reading and writing of files of
  \<open>fsck/segment.c\<close>.

  Node blocks are buffers of 4096 bytes. A pointer to a node block is a \<open>node_ref\<close>, so that the
  case in which \<open>node_blk\<close> and \<open>inode_blk\<close> are the same object stays visible.
\<close>

subsection \<open>Fields\<close>

definition i_mode :: "buf \<Rightarrow> u16" where "i_mode b = le16_at b 0"
definition i_inline :: "buf \<Rightarrow> u8" where "i_inline b = b 3"
definition i_links :: "buf \<Rightarrow> u32" where "i_links b = le32_at b 12"
definition i_size :: "buf \<Rightarrow> u64" where "i_size b = le64_at b 16"
definition i_blocks :: "buf \<Rightarrow> u64" where "i_blocks b = le64_at b 24"
definition i_xattr_nid :: "buf \<Rightarrow> u32" where "i_xattr_nid b = le32_at b 76"
definition i_flags :: "buf \<Rightarrow> u32" where "i_flags b = le32_at b 80"
definition i_extra_isize :: "buf \<Rightarrow> u16" where "i_extra_isize b = le16_at b 360"
definition i_inline_xattr_size :: "buf \<Rightarrow> u16" where "i_inline_xattr_size b = le16_at b 362"
definition i_log_cluster_size :: "buf \<Rightarrow> u8" where "i_log_cluster_size b = b 393"

definition set_i_size :: "u64 \<Rightarrow> buf \<Rightarrow> buf" where "set_i_size v b = put_le64 16 v b"
definition set_i_blocks :: "u64 \<Rightarrow> buf \<Rightarrow> buf" where "set_i_blocks v b = put_le64 24 v b"

definition footer_nid :: "buf \<Rightarrow> u32" where "footer_nid b = le32_at b 4072"
definition footer_ino :: "buf \<Rightarrow> u32" where "footer_ino b = le32_at b 4076"
definition footer_flag :: "buf \<Rightarrow> u32" where "footer_flag b = le32_at b 4080"
definition footer_cp_ver :: "buf \<Rightarrow> u64" where "footer_cp_ver b = le64_at b 4084"
definition footer_next_blkaddr :: "buf \<Rightarrow> u32" where "footer_next_blkaddr b = le32_at b 4092"

definition set_footer_nid :: "u32 \<Rightarrow> buf \<Rightarrow> buf" where "set_footer_nid v b = put_le32 4072 v b"
definition set_footer_ino :: "u32 \<Rightarrow> buf \<Rightarrow> buf" where "set_footer_ino v b = put_le32 4076 v b"
definition set_footer_flag :: "u32 \<Rightarrow> buf \<Rightarrow> buf" where "set_footer_flag v b = put_le32 4080 v b"
definition set_footer_cp_ver :: "u64 \<Rightarrow> buf \<Rightarrow> buf" where "set_footer_cp_ver v b = put_le64 4084 v b"

lemmas node_fields = i_mode_def i_inline_def i_links_def i_size_def i_blocks_def i_xattr_nid_def i_flags_def
  i_extra_isize_def i_inline_xattr_size_def i_log_cluster_size_def set_i_size_def set_i_blocks_def
  footer_nid_def footer_ino_def footer_flag_def footer_cp_ver_def footer_next_blkaddr_def
  set_footer_nid_def set_footer_ino_def set_footer_flag_def set_footer_cp_ver_def

definition S_ISREG :: "u16 \<Rightarrow> bool" where "S_ISREG mode \<longleftrightarrow> mode AND 0xF000 = 0x8000"
definition S_ISDIR :: "u16 \<Rightarrow> bool" where "S_ISDIR mode \<longleftrightarrow> mode AND 0xF000 = 0x4000"
definition S_ISLNK :: "u16 \<Rightarrow> bool" where "S_ISLNK mode \<longleftrightarrow> mode AND 0xF000 = 0xA000"

definition F2FS_INLINE_XATTR :: u8 where "F2FS_INLINE_XATTR = 0x01"
definition F2FS_INLINE_DATA :: u8 where "F2FS_INLINE_DATA = 0x02"
definition F2FS_INLINE_DENTRY :: u8 where "F2FS_INLINE_DENTRY = 0x04"
definition F2FS_EXTRA_ATTR :: u8 where "F2FS_EXTRA_ATTR = 0x20"
definition F2FS_COMPR_FL :: u32 where "F2FS_COMPR_FL = 0x4"
definition F2FS_FEATURE_FLEXIBLE_INLINE_XATTR :: u32 where "F2FS_FEATURE_FLEXIBLE_INLINE_XATTR = 0x40"
definition F2FS_FEATURE_INODE_CHKSUM :: u32 where "F2FS_FEATURE_INODE_CHKSUM = 0x20"
definition DEFAULT_INLINE_XATTR_ADDRS :: nat where "DEFAULT_INLINE_XATTR_ADDRS = 50"
definition DEF_ADDRS_PER_INODE :: nat where "DEF_ADDRS_PER_INODE = 923"
definition DEF_ADDRS_PER_BLOCK :: nat where "DEF_ADDRS_PER_BLOCK = 1018"
definition NIDS_PER_BLOCK :: nat where "NIDS_PER_BLOCK = 1018"
definition NODE_DIR1_BLOCK :: nat where "NODE_DIR1_BLOCK = DEF_ADDRS_PER_INODE + 1"
definition NODE_DIR2_BLOCK :: nat where "NODE_DIR2_BLOCK = DEF_ADDRS_PER_INODE + 2"
definition NODE_IND1_BLOCK :: nat where "NODE_IND1_BLOCK = DEF_ADDRS_PER_INODE + 3"
definition NODE_IND2_BLOCK :: nat where "NODE_IND2_BLOCK = DEF_ADDRS_PER_INODE + 4"
definition NODE_DIND_BLOCK :: nat where "NODE_DIND_BLOCK = DEF_ADDRS_PER_INODE + 5"
definition NULL_ADDR :: u32 where "NULL_ADDR = 0"
definition NEW_ADDR :: u32 where "NEW_ADDR = 0xFFFFFFFF"
definition COMPRESS_ADDR :: u32 where "COMPRESS_ADDR = 0xFFFFFFFE"
definition XATTR_NODE_OFFSET :: u32 where "XATTR_NODE_OFFSET = 0x1FFFFFFF"
definition CURSEG_WARM_DATA :: nat where "CURSEG_WARM_DATA = 1"
definition CURSEG_WARM_NODE :: nat where "CURSEG_WARM_NODE = 4"
definition CURSEG_COLD_NODE :: nat where "CURSEG_COLD_NODE = 5"

definition f2fs_has_extra_isize :: "buf \<Rightarrow> bool" where
  "f2fs_has_extra_isize b \<longleftrightarrow> i_inline b AND F2FS_EXTRA_ATTR \<noteq> 0"

definition get_extra_isize :: "buf \<Rightarrow> nat" where
  "get_extra_isize b = (if f2fs_has_extra_isize b then unat (i_extra_isize b) div 4 else 0)"

definition get_inline_xattr_addrs :: "u32 \<Rightarrow> buf \<Rightarrow> nat" where
  "get_inline_xattr_addrs feature b =
     (if feature AND F2FS_FEATURE_FLEXIBLE_INLINE_XATTR \<noteq> 0 then unat (i_inline_xattr_size b)
      else if i_inline b AND F2FS_INLINE_XATTR \<noteq> 0 \<or> i_inline b AND F2FS_INLINE_DENTRY \<noteq> 0
      then DEFAULT_INLINE_XATTR_ADDRS else 0)"

definition CUR_ADDRS_PER_INODE :: "buf \<Rightarrow> u32" where
  "CUR_ADDRS_PER_INODE b = of_nat DEF_ADDRS_PER_INODE - of_nat (get_extra_isize b)"

text \<open>Compressed files round to whole clusters. A cluster size whose shift leaves the width is
  undefined in C; here it gives 0.\<close>

definition is_compressed :: "buf \<Rightarrow> bool" where
  "is_compressed b \<longleftrightarrow> S_ISREG (i_mode b) \<and> i_flags b AND F2FS_COMPR_FL \<noteq> 0"

definition ALIGN_DOWN :: "nat \<Rightarrow> nat \<Rightarrow> nat" where
  "ALIGN_DOWN addrs sz = addrs div sz * sz"

definition cluster_size :: "buf \<Rightarrow> nat" where
  "cluster_size b = unat (push_bit (unat (i_log_cluster_size b)) 1 :: u32)"

definition addrs_per_inode :: "u32 \<Rightarrow> buf \<Rightarrow> nat" where
  "addrs_per_inode feature b =
     (let addrs = unat (CUR_ADDRS_PER_INODE b - of_nat (get_inline_xattr_addrs feature b))
      in if \<not> is_compressed b then addrs else ALIGN_DOWN addrs (cluster_size b))"

definition addrs_per_block :: "buf \<Rightarrow> nat" where
  "addrs_per_block b = (if \<not> is_compressed b then DEF_ADDRS_PER_BLOCK else ALIGN_DOWN DEF_ADDRS_PER_BLOCK (cluster_size b))"

text \<open>The result is an \<open>unsigned int\<close>: the upper half of the size is lost.\<close>

definition f2fs_max_file_offset :: "buf \<Rightarrow> u32" where
  "f2fs_max_file_offset b =
     (if \<not> is_compressed b then ucast (i_size b)
      else ucast ((i_size b + of_nat (cluster_size b) - 1) div of_nat (cluster_size b) * of_nat (cluster_size b)))"

definition write_inode :: "buf \<Rightarrow> nat \<Rightarrow> mount \<Rightarrow> mount option" where
  "write_inode inode blkaddr m =
     wr_blk blkaddr
       (if m_feature m AND F2FS_FEATURE_INODE_CHKSUM \<noteq> 0 then put_le32 368 (f2fs_inode_chksum (m_chksum_seed m) inode) inode
        else inode) m"

definition IS_INODE :: "buf \<Rightarrow> bool" where
  "IS_INODE b \<longleftrightarrow> footer_nid b = footer_ino b"

text \<open>\<open>ADDRS_PER_PAGE\<close>: without an inode block it reads the inode of the node.\<close>

definition ADDRS_PER_PAGE :: "mount \<Rightarrow> buf \<Rightarrow> buf option \<Rightarrow> nat option" where
  "ADDRS_PER_PAGE m node_blk inode_blk =
     (if IS_INODE node_blk then Some (addrs_per_inode (m_feature m) node_blk)
      else case inode_blk of
        Some ib \<Rightarrow> Some (addrs_per_block ib)
      | None \<Rightarrow> do {
          ni \<leftarrow> get_node_info m (unat (footer_ino node_blk));
          ib \<leftarrow> rd_blk m (unat (ni_blk_addr ni));
          Some (addrs_per_block ib)
        })"

definition blkaddr_in_inode :: "buf \<Rightarrow> nat" where
  "blkaddr_in_inode b = 360 + 4 * get_extra_isize b"

definition blkaddr_in_node :: "buf \<Rightarrow> nat" where
  "blkaddr_in_node b = (if IS_INODE b then blkaddr_in_inode b else 0)"

text \<open>An index past the block is a read or write outside the buffer.\<close>

definition datablock_addr :: "buf \<Rightarrow> nat \<Rightarrow> u32 option" where
  "datablock_addr b offset =
     (let p = blkaddr_in_node b + 4 * offset in if p + 4 \<le> F2FS_BLKSIZE then Some (le32_at b p) else None)"

definition store_addr :: "nat \<Rightarrow> u32 \<Rightarrow> buf \<Rightarrow> buf option" where
  "store_addr offset v b =
     (let p = blkaddr_in_node b + 4 * offset in if p + 4 \<le> F2FS_BLKSIZE then Some (put_le32 p v b) else None)"

definition set_nid :: "nat \<Rightarrow> u32 \<Rightarrow> bool \<Rightarrow> buf \<Rightarrow> buf" where
  "set_nid off nid i rn = (if i then put_le32 (4052 + 4 * (off - NODE_DIR1_BLOCK)) nid rn else put_le32 (4 * off) nid rn)"

definition get_nid :: "buf \<Rightarrow> nat \<Rightarrow> bool \<Rightarrow> nat" where
  "get_nid rn off i = unat (if i then le32_at rn (4052 + 4 * (off - NODE_DIR1_BLOCK)) else le32_at rn (4 * off))"

definition ofs_of_node :: "buf \<Rightarrow> u32" where
  "ofs_of_node b = drop_bit 3 (footer_flag b)"

definition IS_DNODE :: "buf \<Rightarrow> bool" where
  "IS_DNODE b =
     (let ofs = unat (ofs_of_node b)
      in if ofs = 3 \<or> ofs = 4 + NIDS_PER_BLOCK \<or> ofs = 5 + 2 * NIDS_PER_BLOCK then False
         else if ofs \<ge> 6 + 2 * NIDS_PER_BLOCK \<and> (ofs - (6 + 2 * NIDS_PER_BLOCK)) mod (NIDS_PER_BLOCK + 1) = 0 then False
         else True)"

definition set_cold_node :: "bool \<Rightarrow> buf \<Rightarrow> buf" where
  "set_cold_node is_dir b =
     set_footer_flag (if is_dir then footer_flag b AND NOT 1 else footer_flag b OR 1) b"

definition set_summary :: "nat \<Rightarrow> nat \<Rightarrow> u8 \<Rightarrow> summary" where
  "set_summary nid ofs_in_node version = \<lparr>sum_nid = of_nat nid, sum_version = version, sum_ofs_in_node = of_nat ofs_in_node\<rparr>"

definition is_valid_data_blkaddr :: "u32 \<Rightarrow> bool" where
  "is_valid_data_blkaddr a \<longleftrightarrow> \<not> (a = NEW_ADDR \<or> a = NULL_ADDR \<or> a = COMPRESS_ADDR)"

subsection \<open>Node numbers\<close>

fun find_free_nid :: "buf \<Rightarrow> nat \<Rightarrow> nat \<Rightarrow> nat" where
  "find_free_nid bm i 0 = i"
| "find_free_nid bm i (Suc k) = (if \<not> f2fs_test_bit i bm then i else find_free_nid bm (i + 1) k)"

definition f2fs_alloc_nid :: "mount \<Rightarrow> (nat \<times> mount) option" where
  "f2fs_alloc_nid m =
     (let i = find_free_nid (nid_bitmap m) 0 (max_nid m)
      in if \<not> i < max_nid m then None
         else Some (i, m\<lparr>nid_bitmap := snd (f2fs_set_bit i (nid_bitmap m))\<rparr>))"

definition f2fs_release_nid :: "nat \<Rightarrow> mount \<Rightarrow> mount option" where
  "f2fs_release_nid nid m =
     (if \<not> nid < max_nid m then None
      else if \<not> f2fs_test_bit nid (nid_bitmap m) then None
      else Some (m\<lparr>nid_bitmap := snd (f2fs_clear_bit nid (nid_bitmap m))\<rparr>))"

subsection \<open>The path to a data block\<close>

definition get_node_path :: "u32 \<Rightarrow> buf \<Rightarrow> nat \<Rightarrow> (nat \<times> nat list \<times> nat list) option" where
  "get_node_path feature node block =
     (let direct_index = addrs_per_inode feature node;
          direct_blks = addrs_per_block node;
          dptrs_per_blk = NIDS_PER_BLOCK;
          indirect_blks = direct_blks * NIDS_PER_BLOCK;
          dindirect_blks = indirect_blks * NIDS_PER_BLOCK
      in if block < direct_index then Some (0, [block], [0])
         else let block = block - direct_index
      in if block < direct_blks then Some (1, [NODE_DIR1_BLOCK, block], [0, 1])
         else let block = block - direct_blks
      in if block < direct_blks then Some (1, [NODE_DIR2_BLOCK, block], [0, 2])
         else let block = block - direct_blks
      in if block < indirect_blks
         then Some (2, [NODE_IND1_BLOCK, block div direct_blks, block mod direct_blks], [0, 3, 4 + block div direct_blks])
         else let block = block - indirect_blks
      in if block < indirect_blks
         then Some (2, [NODE_IND2_BLOCK, block div direct_blks, block mod direct_blks],
                    [0, 4 + dptrs_per_blk, 5 + dptrs_per_blk + block div direct_blks])
         else let block = block - indirect_blks
      in if block < dindirect_blks
         then let o1 = block div indirect_blks; o2 = block div direct_blks mod dptrs_per_blk
              in Some (3, [NODE_DIND_BLOCK, o1, o2, block mod direct_blks],
                       [0, 5 + dptrs_per_blk * 2, 6 + dptrs_per_blk * 2 + o1 * (dptrs_per_blk + 1),
                        7 + dptrs_per_blk * 2 + o1 * (dptrs_per_blk + 1) + o2])
         else None)"

definition start_bidx_of_node :: "u32 \<Rightarrow> u32 \<Rightarrow> buf \<Rightarrow> u32" where
  "start_bidx_of_node feature node_ofs node_blk =
     (let indirect_blks = 2 * of_nat NIDS_PER_BLOCK + 4 :: u32
      in if node_ofs = 0 then 0
         else let bidx =
                (if node_ofs \<le> 2 then node_ofs - 1
                 else if node_ofs \<le> indirect_blks then node_ofs - 2 - (node_ofs - 4) div (of_nat NIDS_PER_BLOCK + 1)
                 else node_ofs - 5 - (node_ofs - indirect_blks - 3) div (of_nat NIDS_PER_BLOCK + 1))
              in bidx * of_nat (addrs_per_block node_blk) + of_nat (addrs_per_inode feature node_blk))"

subsection \<open>Nodes of a file\<close>

datatype node_ref = NoBlk | InodeBlk | OwnBlk buf

record dnode_of_data =
  inode_blk :: buf
  node_blk :: node_ref
  dn_nid :: nat
  ofs_in_node :: nat
  data_blkaddr :: u32
  node_blkaddr :: nat
  idirty :: bool
  ndirty :: bool

datatype dnode_mode = ALLOC_NODE | LOOKUP_NODE | LOOKUP_NODE_RA

fun deref :: "dnode_of_data \<Rightarrow> node_ref \<Rightarrow> buf option" where
  "deref dn NoBlk = None"
| "deref dn InodeBlk = Some (inode_blk dn)"
| "deref dn (OwnBlk b) = Some b"

definition set_new_dnode :: "buf \<Rightarrow> node_ref \<Rightarrow> nat \<Rightarrow> dnode_of_data" where
  "set_new_dnode iblk nblk nid =
     \<lparr>inode_blk = iblk, node_blk = nblk, dn_nid = nid, ofs_in_node = 0, data_blkaddr = 0, node_blkaddr = 0,
      idirty = False, ndirty = False\<rparr>"

definition inc_inode_blocks :: "dnode_of_data \<Rightarrow> dnode_of_data" where
  "inc_inode_blocks dn = dn\<lparr>inode_blk := set_i_blocks (i_blocks (inode_blk dn) + 1) (inode_blk dn), idirty := True\<rparr>"

definition set_data_blkaddr :: "dnode_of_data \<Rightarrow> dnode_of_data option" where
  "set_data_blkaddr dn =
     (case node_blk dn of
        NoBlk \<Rightarrow> None
      | InodeBlk \<Rightarrow> map_option (\<lambda>b. dn\<lparr>inode_blk := b, idirty := True\<rparr>)
                      (store_addr (ofs_in_node dn) (data_blkaddr dn) (inode_blk dn))
      | OwnBlk nb \<Rightarrow> map_option (\<lambda>b. dn\<lparr>node_blk := OwnBlk b, ndirty := True\<rparr>)
                      (store_addr (ofs_in_node dn) (data_blkaddr dn) nb))"

definition init_node_block :: "mount \<Rightarrow> dnode_of_data \<Rightarrow> u32 \<Rightarrow> buf" where
  "init_node_block m dn ofs =
     set_cold_node (S_ISDIR (i_mode (inode_blk dn)))
       (set_footer_cp_ver (cp_checkpoint_ver (ckpt m))
         (set_footer_flag (push_bit 3 ofs)
           (set_footer_ino (footer_ino (inode_blk dn))
             (set_footer_nid (of_nat (dn_nid dn)) zero_buf))))"

definition new_node_type :: "mount \<Rightarrow> dnode_of_data \<Rightarrow> buf \<Rightarrow> nat" where
  "new_node_type m dn nb =
     (let type = (if IS_DNODE nb then if S_ISDIR (i_mode (inode_blk dn)) then CURSEG_HOT_NODE else CURSEG_WARM_NODE
                  else CURSEG_COLD_NODE)
      in if RO_SB m \<and> type \<noteq> CURSEG_HOT_NODE then CURSEG_HOT_NODE else type)"

definition new_node_block :: "mount \<Rightarrow> dnode_of_data \<Rightarrow> u32 \<Rightarrow> (nat \<times> dnode_of_data \<times> mount) option" where
  "new_node_block m dn ofs = do {
     let nb = init_node_block m dn ofs;
     let type = new_node_type m dn nb;
     ni \<leftarrow> get_node_info m (dn_nid dn);
     (ret, blkaddr, m) \<leftarrow> reserve_new_block m 0 (set_summary (dn_nid dn) 0 (ni_version ni)) type (ofs = 0);
     if ret \<noteq> 0 then Some (0, dn, m)
     else do {
       m \<leftarrow> update_nat_blkaddr m (footer_ino (inode_blk dn)) (dn_nid dn) (of_nat blkaddr);
       Some (blkaddr, inc_inode_blocks (dn\<lparr>node_blk := OwnBlk nb\<rparr>), m)
     }
   }"

text \<open>The loop of \<open>get_dnode_of_data\<close>: \<open>nid\<close> is \<open>nids[i]\<close>, \<open>pnid\<close> and \<open>pblk\<close> are \<open>nids[i - 1]\<close>
  and \<open>nblk[i - 1]\<close>, \<open>k\<close> levels remain.\<close>

fun dnode_loop :: "dnode_mode \<Rightarrow> nat list \<Rightarrow> nat list \<Rightarrow> nat \<Rightarrow> nat \<Rightarrow> node_ref \<Rightarrow> nat \<Rightarrow> nat \<Rightarrow> nat \<Rightarrow>
    dnode_of_data \<Rightarrow> mount \<Rightarrow> (int \<times> nat \<times> nat \<times> dnode_of_data \<times> mount) option" where
  "dnode_loop mode offset noffset i 0 parent nid pnid pblk dn m = Some (0, pnid, pblk, dn, m)"
| "dnode_loop mode offset noffset i (Suc k) parent nid pnid pblk dn m = do {
     (ret, nid, nblk, parent, dn, m) \<leftarrow>
       (if nid = 0 \<and> mode = ALLOC_NODE then do {
          (nid, m) \<leftarrow> f2fs_alloc_nid m;
          let dn = dn\<lparr>dn_nid := nid\<rparr>;
          (nblk, dn, m) \<leftarrow> new_node_block m dn (of_nat (noffset ! i));
          if nblk = 0 then do {
            m \<leftarrow> f2fs_release_nid nid m;
            Some (- EINVAL, nid, nblk, parent, dn, m\<lparr>m_alloc_failed := True\<rparr>)
          } else
            (case parent of
               NoBlk \<Rightarrow> None
             | InodeBlk \<Rightarrow> Some (0, nid, nblk, parent, dn\<lparr>inode_blk := set_nid (offset ! (i - 1)) (of_nat nid) (i = 1) (inode_blk dn)\<rparr>, m)
             | OwnBlk b \<Rightarrow> Some (0, nid, nblk, OwnBlk (set_nid (offset ! (i - 1)) (of_nat nid) (i = 1) b), dn, m))
        } else do {
          ni \<leftarrow> get_node_info m nid;
          b \<leftarrow> rd_blk m (unat (ni_blk_addr ni));
          Some (0, nid, unat (ni_blk_addr ni), parent, dn\<lparr>node_blk := OwnBlk b\<rparr>, m)
        });
     if ret \<noteq> 0 then Some (ret, nid, nblk, dn, m)
     else do {
       m \<leftarrow> (if mode = ALLOC_NODE then do { b \<leftarrow> deref dn parent; wr_blk pblk b m } else Some m);
       if k = 0 then Some (0, nid, nblk, dn, m)
       else do {
         b \<leftarrow> deref dn (node_blk dn);
         dnode_loop mode offset noffset (i + 1) k (node_blk dn) (get_nid b (offset ! i) False) nid nblk dn m
       }
     }
   }"

definition get_dnode_of_data :: "mount \<Rightarrow> dnode_of_data \<Rightarrow> nat \<Rightarrow> dnode_mode \<Rightarrow> (int \<times> dnode_of_data \<times> mount) option" where
  "get_dnode_of_data m dn index mode = do {
     (level, offset, noffset) \<leftarrow> get_node_path (m_feature m) (inode_blk dn) index;
     let dn = (if level \<noteq> 0 then dn else dn\<lparr>node_blk := InodeBlk\<rparr>);
     ni \<leftarrow> get_node_info m (dn_nid dn);
     (ret, nid, nblk, dn, m) \<leftarrow>
       dnode_loop mode offset noffset 1 level InodeBlk (get_nid (inode_blk dn) (offset ! 0) True) (dn_nid dn)
         (unat (ni_blk_addr ni)) dn m;
     if ret \<noteq> 0 then Some (ret, dn, m)
     else do {
       let dn = dn\<lparr>dn_nid := nid, ofs_in_node := offset ! level\<rparr>;
       b \<leftarrow> deref dn (node_blk dn);
       a \<leftarrow> datablock_addr b (ofs_in_node dn);
       Some (0, dn\<lparr>data_blkaddr := a, node_blkaddr := nblk\<rparr>, m)
     }
   }"

subsection \<open>Reading and writing a file\<close>

definition new_data_block :: "mount \<Rightarrow> dnode_of_data \<Rightarrow> nat \<Rightarrow> (int \<times> dnode_of_data \<times> mount) option" where
  "new_data_block m dn type = do {
     b \<leftarrow> deref dn (node_blk dn);
     blkaddr \<leftarrow> datablock_addr b (ofs_in_node dn);
     let type = (if RO_SB m \<and> type \<noteq> CURSEG_HOT_DATA then CURSEG_HOT_DATA else type);
     ni \<leftarrow> get_node_info m (dn_nid dn);
     let dn = dn\<lparr>data_blkaddr := blkaddr\<rparr>;
     (ret, to, m) \<leftarrow> reserve_new_block m (unat blkaddr) (set_summary (dn_nid dn) (ofs_in_node dn) (ni_version ni)) type False;
     let dn = dn\<lparr>data_blkaddr := of_nat to\<rparr>;
     if ret \<noteq> 0 then Some (ret, dn, m\<lparr>m_alloc_failed := True\<rparr>)
     else do {
       let dn = (if blkaddr = NULL_ADDR then inc_inode_blocks dn else if blkaddr = NEW_ADDR then dn\<lparr>idirty := True\<rparr> else dn);
       dn \<leftarrow> set_data_blkaddr dn;
       Some (0, dn, m)
     }
   }"

definition buf_bytes :: "buf \<Rightarrow> nat \<Rightarrow> nat \<Rightarrow> u8 list" where
  "buf_bytes b off n = map (\<lambda>i. b (off + i)) [0..<n]"

definition list_buf :: "u8 list \<Rightarrow> buf" where
  "list_buf xs = (\<lambda>i. if i < length xs then xs ! i else 0)"

definition file_inode :: "mount \<Rightarrow> nat \<Rightarrow> (nat \<times> buf) option" where
  "file_inode m ino = do {
     ni \<leftarrow> get_node_info m ino;
     inode \<leftarrow> rd_blk m (unat (ni_blk_addr ni));
     if S_ISDIR (i_mode inode) \<or> S_ISLNK (i_mode inode) then None else Some (unat (ni_blk_addr ni), inode)
   }"

definition f2fs_quota_size :: "mount \<Rightarrow> nat \<Rightarrow> u64 option" where
  "f2fs_quota_size m ino = do {
     ni \<leftarrow> get_node_info m ino;
     inode \<leftarrow> rd_blk m (unat (ni_blk_addr ni));
     if S_ISREG (i_mode inode) then Some (i_size inode) else None
   }"

definition f2fs_filesize_update :: "nat \<Rightarrow> u64 \<Rightarrow> mount \<Rightarrow> mount option" where
  "f2fs_filesize_update ino filesize m = do {
     (addr, inode) \<leftarrow> file_inode m ino;
     write_inode (set_i_size filesize inode) addr m
   }"

text \<open>The loop of \<open>f2fs_read\<close> returns the bytes copied to the caller's buffer.\<close>

function read_loop :: "mount \<Rightarrow> nat \<Rightarrow> buf \<Rightarrow> dnode_of_data \<Rightarrow> nat \<Rightarrow> nat \<Rightarrow> nat \<Rightarrow> u8 list \<Rightarrow> u8 list option" where
  "read_loop m ino inode dn remained count offset acc =
     (if count = 0 then Some acc
      else do {
        (dn, remained) \<leftarrow>
          (if remained = 0 then do {
             (ret, dn, m) \<leftarrow> get_dnode_of_data m (set_new_dnode inode NoBlk ino) (offset div F2FS_BLKSIZE) LOOKUP_NODE;
             b \<leftarrow> deref dn (node_blk dn);
             n \<leftarrow> ADDRS_PER_PAGE m b (Some (inode_blk dn));
             Some (dn, n)
           } else Some (dn, remained));
        if \<not> 0 < remained then None
        else do {
          b \<leftarrow> deref dn (node_blk dn);
          blkaddr \<leftarrow> datablock_addr b (ofs_in_node dn);
          if blkaddr = NULL_ADDR \<or> blkaddr = NEW_ADDR then Some acc
          else do {
            let off_in_blk = offset mod F2FS_BLKSIZE;
            let len_in_blk = min (F2FS_BLKSIZE - off_in_blk) count;
            blk \<leftarrow> rd_blk m (unat blkaddr);
            read_loop m ino inode (dn\<lparr>ofs_in_node := ofs_in_node dn + 1\<rparr>) (remained - 1) (count - len_in_blk) (offset + len_in_blk)
              (acc @ buf_bytes blk off_in_blk len_in_blk)
          }
        }
      })"
  by pat_completeness auto
termination
  by (relation "measure (\<lambda>(m, ino, inode, dn, remained, count, offset, acc). count)") (auto simp: F2FS_BLKSIZE_def)

declare read_loop.simps [simp del]

definition f2fs_read :: "mount \<Rightarrow> nat \<Rightarrow> u64 \<Rightarrow> u64 \<Rightarrow> u8 list option" where
  "f2fs_read m ino count offset = do {
     (addr, inode) \<leftarrow> file_inode m ino;
     let filesize = i_size inode;
     let count = (if offset > filesize then 0 else if count + offset > filesize then filesize - offset else count);
     read_loop m ino inode (set_new_dnode inode NoBlk 0) 0 (unat count) (unat offset) []
   }"

datatype wr_addr_type = WR_NORMAL | WR_COMPRESS_DATA | WR_ADDR u32

definition has_data :: "wr_addr_type \<Rightarrow> bool" where
  "has_data t \<longleftrightarrow> t = WR_NORMAL \<or> t = WR_COMPRESS_DATA"

record wr_state =
  w_m :: mount
  w_dn :: dnode_of_data
  w_remained :: nat
  w_buffer :: "u8 list"
  w_offset :: nat
  w_written :: nat
  w_idirty :: bool

text \<open>One block of \<open>f2fs_write_ex\<close>: \<open>Inl\<close> leaves the loop.\<close>

definition flush_node :: "dnode_of_data \<Rightarrow> mount \<Rightarrow> mount option" where
  "flush_node dn m = (if ndirty dn then do { b \<leftarrow> deref dn (node_blk dn); wr_blk (node_blkaddr dn) b m } else Some m)"

definition write_locate :: "nat \<Rightarrow> wr_state \<Rightarrow> (wr_state + wr_state) option" where
  "write_locate ino s =
     (if w_remained s = 0 then do {
        (err, dn, m) \<leftarrow> get_dnode_of_data (w_m s) (set_new_dnode (inode_blk (w_dn s)) NoBlk ino) (w_offset s div F2FS_BLKSIZE) ALLOC_NODE;
        if err \<noteq> 0 then Some (Inl (s\<lparr>w_m := m, w_dn := dn\<rparr>))
        else do {
          b \<leftarrow> deref dn (node_blk dn);
          n \<leftarrow> ADDRS_PER_PAGE m b (Some (inode_blk dn));
          Some (Inr (s\<lparr>w_m := m, w_dn := dn, w_idirty := w_idirty s \<or> idirty dn, w_remained := n - ofs_in_node dn\<rparr>))
        }
      } else Some (Inr s))"

definition write_tag :: "u32 \<Rightarrow> wr_state \<Rightarrow> wr_state option" where
  "write_tag tag s = do {
     dn \<leftarrow> set_data_blkaddr ((w_dn s)\<lparr>data_blkaddr := tag\<rparr>);
     m \<leftarrow> flush_node dn (w_m s);
     Some (s\<lparr>w_m := m, w_dn := dn, w_idirty := w_idirty s \<or> idirty dn, w_written := 0\<rparr>)
   }"

text \<open>The address of the block, allocated when there is none.\<close>

definition write_alloc :: "wr_state \<Rightarrow> (int \<times> u32 \<times> wr_state) option" where
  "write_alloc s = do {
     b \<leftarrow> deref (w_dn s) (node_blk (w_dn s));
     blkaddr \<leftarrow> datablock_addr b (ofs_in_node (w_dn s));
     if blkaddr = NULL_ADDR \<or> blkaddr = NEW_ADDR then do {
       (err, dn, m) \<leftarrow> new_data_block (w_m s) (w_dn s) CURSEG_WARM_DATA;
       if err \<noteq> 0 then Some (err, blkaddr, s\<lparr>w_m := m, w_dn := dn\<rparr>)
       else Some (0, data_blkaddr dn, s\<lparr>w_m := m, w_dn := dn, w_idirty := w_idirty s \<or> idirty dn\<rparr>)
     } else Some (0, blkaddr, s)
   }"

definition write_data :: "u32 \<Rightarrow> wr_state \<Rightarrow> wr_state option" where
  "write_data blkaddr s = do {
     let off_in_blk = w_offset s mod F2FS_BLKSIZE;
     let len_in_blk = min (F2FS_BLKSIZE - off_in_blk) (length (w_buffer s));
     blk \<leftarrow> (if len_in_blk < F2FS_BLKSIZE then rd_blk (w_m s) (unat blkaddr) else Some zero_buf);
     m \<leftarrow> wr_blk (unat blkaddr) (put_bytes off_in_blk len_in_blk (list_buf (w_buffer s)) blk) (w_m s);
     let dn = (w_dn s)\<lparr>ofs_in_node := ofs_in_node (w_dn s) + 1\<rparr>;
     let rest = drop len_in_blk (w_buffer s);
     m \<leftarrow> (if w_remained s - 1 = 0 \<or> rest = [] then flush_node dn m else Some m);
     Some (s\<lparr>w_m := m, w_dn := dn, w_remained := w_remained s - 1, w_buffer := rest,
             w_offset := w_offset s + len_in_blk, w_written := w_written s + len_in_blk\<rparr>)
   }"

definition write_block :: "wr_state \<Rightarrow> (wr_state + wr_state) option" where
  "write_block s = do {
     (err, blkaddr, s) \<leftarrow> write_alloc s;
     if err \<noteq> 0 then Some (Inl s) else map_option Inr (write_data blkaddr s)
   }"

lemma write_locate_buffer: "write_locate ino s = Some (Inr s1) \<Longrightarrow> w_buffer s1 = w_buffer s"
  by (auto simp: write_locate_def split: if_splits bind_splits)

lemma write_alloc_buffer: "write_alloc s = Some (err, a, s1) \<Longrightarrow> w_buffer s1 = w_buffer s"
  by (auto simp: write_alloc_def split: if_splits bind_splits)

lemma write_data_buffer:
  "write_data a s = Some s1 \<Longrightarrow> w_buffer s1 = drop (min (F2FS_BLKSIZE - w_offset s mod F2FS_BLKSIZE) (length (w_buffer s))) (w_buffer s)"
  by (auto simp: write_data_def Let_def split: bind_splits)

lemma write_block_shorter:
  assumes "write_block s = Some (Inr s2)" "w_buffer s \<noteq> []"
  shows "length (w_buffer s2) < length (w_buffer s)"
proof -
  have lt: "w_offset x mod F2FS_BLKSIZE < F2FS_BLKSIZE" for x by (simp add: F2FS_BLKSIZE_def)
  obtain a s1 where a: "write_alloc s = Some (0, a, s1)" "write_data a s1 = Some s2"
    using assms(1) by (auto simp: write_block_def split: if_splits bind_splits)
  show ?thesis
    using write_data_buffer [OF a(2)] write_alloc_buffer [OF a(1)] assms(2) lt [of s1] by simp
qed

function write_loop :: "wr_addr_type \<Rightarrow> nat \<Rightarrow> wr_state \<Rightarrow> wr_state option" where
  "write_loop t ino s =
     (if w_buffer s = [] then Some s
      else case write_locate ino s of
        None \<Rightarrow> None
      | Some (Inl s) \<Rightarrow> Some s
      | Some (Inr s1) \<Rightarrow>
          if \<not> 0 < w_remained s1 then None
          else (case t of
            WR_ADDR tag \<Rightarrow> write_tag tag s1
          | _ \<Rightarrow> (case write_block s1 of
                    None \<Rightarrow> None
                  | Some (Inl s) \<Rightarrow> Some s
                  | Some (Inr s2) \<Rightarrow> write_loop t ino s2)))"
  by pat_completeness auto
termination
proof (relation "measure (\<lambda>(t, ino, s). length (w_buffer s))", goal_cases)
  case (2 t ino s x2 s1)
  then show ?case using write_locate_buffer [of ino s s1] write_block_shorter [of s1] by simp
next
  case (3 t ino s x2 s1)
  then show ?case using write_locate_buffer [of ino s s1] write_block_shorter [of s1] by simp
qed simp

declare write_loop.simps [simp del]

text \<open>Without data \<open>count\<close> is one block, which the loop leaves at once.\<close>

definition f2fs_write_ex :: "mount \<Rightarrow> nat \<Rightarrow> u8 list \<Rightarrow> u64 \<Rightarrow> wr_addr_type \<Rightarrow> (nat \<times> mount) option" where
  "f2fs_write_ex m ino buffer offset t =
     (if buffer = [] then Some (0, m)
      else if t \<noteq> WR_NORMAL \<and> unat offset mod F2FS_BLKSIZE \<noteq> 0 then None
      else do {
        (addr, inode) \<leftarrow> file_inode m ino;
        s \<leftarrow> write_loop t ino \<lparr>w_m = m, w_dn = set_new_dnode inode NoBlk ino, w_remained = 0, w_buffer = buffer,
               w_offset = unat offset, w_written = 0, w_idirty = False\<rparr>;
        let inode = inode_blk (w_dn s);
        let grow = (t = WR_NORMAL \<and> of_nat (w_offset s) > i_size inode);
        let inode = (if grow then set_i_size (of_nat (w_offset s)) inode else inode);
        m \<leftarrow> (if grow \<or> w_idirty s then write_inode inode addr (w_m s) else Some (w_m s));
        Some (w_written s, m)
      })"

definition f2fs_write :: "mount \<Rightarrow> nat \<Rightarrow> u8 list \<Rightarrow> u64 \<Rightarrow> (nat \<times> mount) option" where
  "f2fs_write m ino buffer offset = f2fs_write_ex m ino buffer offset WR_NORMAL"

definition f2fs_write_compress_data :: "mount \<Rightarrow> nat \<Rightarrow> u8 list \<Rightarrow> u64 \<Rightarrow> (nat \<times> mount) option" where
  "f2fs_write_compress_data m ino buffer offset = f2fs_write_ex m ino buffer offset WR_COMPRESS_DATA"

definition f2fs_write_addrtag :: "mount \<Rightarrow> nat \<Rightarrow> u64 \<Rightarrow> u32 \<Rightarrow> (nat \<times> mount) option" where
  "f2fs_write_addrtag m ino offset addrtag =
     (if \<not> (addrtag = COMPRESS_ADDR \<or> addrtag = NEW_ADDR \<or> addrtag = NULL_ADDR) then None
      else f2fs_write_ex m ino (replicate F2FS_BLKSIZE 0) offset (WR_ADDR addrtag))"

fun fix_mutable_loop :: "nat \<Rightarrow> u64 \<Rightarrow> nat \<Rightarrow> nat \<Rightarrow> mount \<Rightarrow> (nat \<times> mount) option" where
  "fix_mutable_loop ino offset i 0 m = Some (0, m)"
| "fix_mutable_loop ino offset i (Suc k) m = do {
     (wlen, m) \<leftarrow> f2fs_write_addrtag m ino (offset + of_nat (i * F2FS_BLKSIZE)) NEW_ADDR;
     if wlen \<noteq> 0 then Some (wlen, m) else fix_mutable_loop ino offset (i + 1) k m
   }"

text \<open>\<open>compressed - 1\<close> is unsigned: 0 gives 2 ^ 32 - 1 rounds.\<close>

definition f2fs_fix_mutable :: "bool \<Rightarrow> mount \<Rightarrow> nat \<Rightarrow> u64 \<Rightarrow> u32 \<Rightarrow> (nat \<times> mount) option" where
  "f2fs_fix_mutable readonly m ino offset compressed =
     (if readonly then Some (0, m) else fix_mutable_loop ino offset 0 (unat (compressed - 1)) m)"

subsection \<open>The largest extent\<close>

record extent_info =
  ei_fofs :: nat
  ei_blk :: u32
  ei_len :: nat

definition is_consecutive :: "u32 \<Rightarrow> u32 \<Rightarrow> bool" where
  "is_consecutive prev_addr cur_addr \<longleftrightarrow> is_valid_data_blkaddr cur_addr \<and> cur_addr = prev_addr + 1"

definition update_extent_info :: "extent_info \<Rightarrow> buf \<Rightarrow> buf" where
  "update_extent_info ext inode =
     put_le32 356 (of_nat (ei_len ext)) (put_le32 352 (ei_blk ext) (put_le32 348 (of_nat (ei_fofs ext)) inode))"

text \<open>One address of the scan: the extent being followed and the largest one so far.\<close>

definition extent_step :: "nat \<Rightarrow> u32 \<Rightarrow> u32 \<Rightarrow> extent_info \<times> extent_info \<Rightarrow> extent_info \<times> extent_info" where
  "extent_step cur_blk prev_blkaddr blkaddr = (\<lambda>(cur_ext, largest_ext).
     let (cur_ext, largest_ext) =
           (if ei_len cur_ext > 0
            then if is_consecutive prev_blkaddr blkaddr then (cur_ext\<lparr>ei_len := ei_len cur_ext + 1\<rparr>, largest_ext)
                 else (cur_ext\<lparr>ei_len := 0\<rparr>, if ei_len cur_ext > ei_len largest_ext then cur_ext else largest_ext)
            else (cur_ext, largest_ext))
     in (if ei_len cur_ext = 0 \<and> is_valid_data_blkaddr blkaddr
         then \<lparr>ei_fofs = cur_blk, ei_blk = blkaddr, ei_len = 1\<rparr> else cur_ext, largest_ext))"

function extent_loop :: "mount \<Rightarrow> nat \<Rightarrow> buf \<Rightarrow> nat \<Rightarrow> nat \<Rightarrow> dnode_of_data \<Rightarrow> int \<Rightarrow> u32 \<Rightarrow>
    extent_info \<times> extent_info \<Rightarrow> (extent_info \<times> extent_info) option" where
  "extent_loop m ino inode end_blk cur_blk dn remained prev_blkaddr exts =
     (if \<not> cur_blk \<le> end_blk then Some exts
      else do {
        (dn, remained) \<leftarrow>
          (if remained = 0 then do {
             (ret, dn, m) \<leftarrow> get_dnode_of_data m (set_new_dnode inode NoBlk ino) cur_blk LOOKUP_NODE;
             b \<leftarrow> deref dn (node_blk dn);
             n \<leftarrow> ADDRS_PER_PAGE m b (Some (inode_blk dn));
             Some (dn, int n)
           } else Some (dn, remained));
        if remained = 0 then None
        else do {
          b \<leftarrow> deref dn (node_blk dn);
          blkaddr \<leftarrow> datablock_addr b (ofs_in_node dn);
          let count = (if blkaddr = COMPRESS_ADDR then cluster_size inode else 1);
          if count = 0 then None
          else extent_loop m ino inode end_blk (cur_blk + count) (dn\<lparr>ofs_in_node := ofs_in_node dn + count\<rparr>)
                 (remained - int count) blkaddr (extent_step cur_blk prev_blkaddr blkaddr exts)
        }
      })"
  by pat_completeness auto
termination
  by (relation "measure (\<lambda>(m, ino, inode, end_blk, cur_blk, dn, remained, prev, exts). end_blk + 1 - cur_blk)") auto

declare extent_loop.simps [simp del]

definition update_largest_extent :: "nat \<Rightarrow> mount \<Rightarrow> mount option" where
  "update_largest_extent ino m = do {
     ni \<leftarrow> get_node_info m ino;
     inode \<leftarrow> rd_blk m (unat (ni_blk_addr ni));
     let none = \<lparr>ei_fofs = 0, ei_blk = 0, ei_len = 0\<rparr>;
     (cur_ext, largest_ext) \<leftarrow>
       (if i_inline inode AND F2FS_INLINE_DATA \<noteq> 0 then Some (none, none)
        else extent_loop m ino inode (unat (drop_bit 12 (f2fs_max_file_offset inode))) 0 (set_new_dnode inode NoBlk 0) 0 0 (none, none));
     let largest_ext = (if ei_len cur_ext > ei_len largest_ext then cur_ext else largest_ext);
     if ei_len largest_ext > 0 then write_inode (update_extent_info largest_ext inode) (unat (ni_blk_addr ni)) m else Some m
   }"

subsection \<open>Paths and block indices\<close>

lemma word_of_nat_div: "a < 2 ^ 32 \<Longrightarrow> b < 2 ^ 32 \<Longrightarrow> (of_nat a :: u32) div of_nat b = of_nat (a div b)"
  by (simp add: word_unat_eq_iff unat_div_distrib unat_of_nat div_less)
     (metis div_le_dividend le_less_trans mod_less)

lemma word_of_nat_le: "a < 2 ^ 32 \<Longrightarrow> b < 2 ^ 32 \<Longrightarrow> ((of_nat a :: u32) \<le> of_nat b) = (a \<le> b)"
  by (simp add: word_le_nat_alt unat_of_nat)

lemma word_of_nat_eq: "a < 2 ^ 32 \<Longrightarrow> b < 2 ^ 32 \<Longrightarrow> ((of_nat a :: u32) = of_nat b) = (a = b)"
  by (simp add: word_unat_eq_iff unat_of_nat)

lemma drop_push_u32: "unat v < 2 ^ 29 \<Longrightarrow> drop_bit 3 (push_bit 3 (v :: u32)) = v"
  by (simp add: word_unat_eq_iff unat_drop_bit push_bit_eq_mult unat_word_ariths)

text \<open>The number of direct node blocks before node \<open>n\<close>.\<close>

definition dnodes_before :: "nat \<Rightarrow> nat" where
  "dnodes_before n =
     (if n \<le> 2 then n - 1
      else if n \<le> 2040 then n - 2 - (n - 4) div 1019
      else n - 5 - (n - 2043) div 1019)"

lemma start_bidx_of_node_nat:
  assumes "0 < n" "n < 2 ^ 32" "n \<noteq> 3" "n \<noteq> 2041" "n \<noteq> 2042"
  shows "start_bidx_of_node f (of_nat n) nb = of_nat (dnodes_before n * addrs_per_block nb + addrs_per_inode f nb)"
proof -
  have n0: "(of_nat n :: u32) \<noteq> 0" using assms(1,2) word_of_nat_eq [of n 0] by simp
  have le: "((of_nat n :: u32) \<le> 2) = (n \<le> 2)" "((of_nat n :: u32) \<le> 2040) = (n \<le> 2040)"
    using word_of_nat_le [of n 2] word_of_nat_le [of n 2040] assms(2) by simp_all
  have d: "(of_nat a :: u32) div 1019 = of_nat (a div 1019)" if "a < 2 ^ 32" for a
    using word_of_nat_div [OF that, of 1019] by simp
  consider "n \<le> 2" | "4 \<le> n" "n \<le> 2040" | "2043 \<le> n" using assms by linarith
  then have "(if n \<le> 2 then of_nat n - 1 else if n \<le> 2040 then of_nat n - 2 - (of_nat n - 4) div 1019
      else of_nat n - 5 - (of_nat n - 2043) div 1019) = (of_nat (dnodes_before n) :: u32)"
  proof cases
    case 1 then show ?thesis using assms(1) by (simp add: dnodes_before_def)
  next
    case 2
    have "(n - 4) div 1019 \<le> n - 4" by simp
    then have "(n - 4) div 1019 \<le> n - 2" by linarith
    moreover have "of_nat n - (4 :: u32) = of_nat (n - 4)" "of_nat n - (2 :: u32) = of_nat (n - 2)" using 2 by simp_all
    moreover have "n - 4 < 2 ^ 32" using assms(2) by simp
    ultimately show ?thesis using 2 d [of "n - 4"] by (simp add: dnodes_before_def)
  next
    case 3
    have "(n - 2043) div 1019 \<le> n - 2043" by simp
    then have "(n - 2043) div 1019 \<le> n - 5" by linarith
    moreover have "of_nat n - (2043 :: u32) = of_nat (n - 2043)" "of_nat n - (5 :: u32) = of_nat (n - 5)" using 3 by simp_all
    moreover have "n - 2043 < 2 ^ 32" using assms(2) by simp
    ultimately show ?thesis using 3 d [of "n - 2043"] by (simp add: dnodes_before_def)
  qed
  then show ?thesis using n0 by (auto simp: start_bidx_of_node_def NIDS_PER_BLOCK_def Let_def le)
qed

text \<open>What a path has to satisfy: the length of the level, indices inside their blocks, and the last
  node preceded by exactly the right number of direct nodes.\<close>

definition path_ok :: "u32 \<Rightarrow> buf \<Rightarrow> nat \<Rightarrow> nat \<times> nat list \<times> nat list \<Rightarrow> bool" where
  "path_ok f nb block = (\<lambda>(level, offset, noffset).
     level \<le> 3 \<and> length offset = level + 1 \<and> length noffset = level + 1 \<and>
     (if level = 0 then offset ! 0 = block \<and> noffset ! 0 = 0 \<and> block < addrs_per_inode f nb
      else NODE_DIR1_BLOCK \<le> offset ! 0 \<and> offset ! 0 \<le> NODE_DIND_BLOCK \<and> (\<forall>i. 0 < i \<and> i < level \<longrightarrow> offset ! i < NIDS_PER_BLOCK) \<and>
           offset ! level < addrs_per_block nb \<and>
           block = dnodes_before (noffset ! level) * addrs_per_block nb + addrs_per_inode f nb + offset ! level \<and>
           noffset ! level \<notin> {0, 3, 1022, 2041} \<and> (2042 \<le> noffset ! level \<longrightarrow> (noffset ! level - 2042) mod 1019 \<noteq> 0) \<and>
           noffset ! level < 2 ^ 29))"

lemma dnodes_before_dind:
  assumes "a < 1018" "b < 1018"
  shows "dnodes_before (2043 + a * 1019 + b) = 2038 + a * 1018 + b"
    "(2043 + a * 1019 + b - 2042) mod 1019 \<noteq> 0" "2043 + a * 1019 + b < 2 ^ 29"
proof -
  have "(a * 1019 + b) div 1019 = a" "(1 + b + a * 1019) mod 1019 = 1 + b"
    using assms(2) by simp_all
  then show "dnodes_before (2043 + a * 1019 + b) = 2038 + a * 1018 + b"
    "(2043 + a * 1019 + b - 2042) mod 1019 \<noteq> 0" "2043 + a * 1019 + b < 2 ^ 29"
    using assms by (simp_all add: dnodes_before_def algebra_simps)
qed

lemma path_ok_dind:
  assumes "block = addrs_per_inode f nb + (2038 + a * 1018 + b) * addrs_per_block nb + c"
    "a < 1018" "b < 1018" "c < addrs_per_block nb"
  shows "path_ok f nb block (3, [NODE_DIND_BLOCK, a, b, c], [0, 2041, 2042 + a * 1019, 2043 + a * 1019 + b])"
proof -
  have "i = 1 \<or> i = 2" if "0 < i" "i < 3" for i :: nat using that by linarith
  moreover have "[NODE_DIND_BLOCK, a, b, c] ! 1 < NIDS_PER_BLOCK" "[NODE_DIND_BLOCK, a, b, c] ! 2 < NIDS_PER_BLOCK"
    using assms(2,3) by (simp_all add: NIDS_PER_BLOCK_def)
  ultimately have nth: "\<forall>i. 0 < i \<and> i < 3 \<longrightarrow> [NODE_DIND_BLOCK, a, b, c] ! i < NIDS_PER_BLOCK" by blast
  have nth3: "\<And>(a :: nat) b c d. [a, b, c, d] ! 3 = d" by (simp add: numeral_eq_Suc)
  have n: "2043 + a * 1019 + b \<notin> {0, 3, 1022, 2041}" by simp
  show ?thesis
    using nth n assms(4) dnodes_before_dind [OF assms(2,3)]
    unfolding path_ok_def prod.case nth3 assms(1)
    by (simp add: NODE_DIND_BLOCK_def NODE_DIR1_BLOCK_def del: One_nat_def)
qed

lemma get_node_path_ok:
  assumes "get_node_path f nb block = Some p"
  shows "path_ok f nb block p"
proof -
  let ?di = "addrs_per_inode f nb" and ?db = "addrs_per_block nb"
  note cdefs = NODE_DIR1_BLOCK_def NODE_DIR2_BLOCK_def NODE_IND1_BLOCK_def NODE_IND2_BLOCK_def NODE_DIND_BLOCK_def
    DEF_ADDRS_PER_INODE_def NIDS_PER_BLOCK_def
  have nth3: "\<And>(a :: nat) b c d. [a, b, c, d] ! 3 = d" "\<And>(a :: nat) b c. [a, b, c] ! 2 = c" by (simp_all add: numeral_eq_Suc)
  define b1 where "b1 = block - ?di"
  define b2 where "b2 = b1 - ?db"
  define b3 where "b3 = b2 - ?db"
  define b4 where "b4 = b3 - ?db * 1018"
  define b5 where "b5 = b4 - ?db * 1018"
  note bs = b1_def [symmetric] b2_def [symmetric] b3_def [symmetric] b4_def [symmetric] b5_def [symmetric]
  from assms consider
      (0) "block < ?di" "p = (0, [block], [0])"
    | (1) "\<not> block < ?di" "b1 < ?db" "p = (1, [NODE_DIR1_BLOCK, b1], [0, 1])"
    | (2) "\<not> block < ?di" "\<not> b1 < ?db" "b2 < ?db" "p = (1, [NODE_DIR2_BLOCK, b2], [0, 2])"
    | (3) "\<not> block < ?di" "\<not> b1 < ?db" "\<not> b2 < ?db" "b3 < ?db * 1018"
        "p = (2, [NODE_IND1_BLOCK, b3 div ?db, b3 mod ?db], [0, 3, 4 + b3 div ?db])"
    | (4) "\<not> block < ?di" "\<not> b1 < ?db" "\<not> b2 < ?db" "\<not> b3 < ?db * 1018" "b4 < ?db * 1018"
        "p = (2, [NODE_IND2_BLOCK, b4 div ?db, b4 mod ?db], [0, 1022, 1023 + b4 div ?db])"
    | (5) "\<not> block < ?di" "\<not> b1 < ?db" "\<not> b2 < ?db" "\<not> b3 < ?db * 1018" "\<not> b4 < ?db * 1018" "b5 < ?db * 1018 * 1018"
        "p = (3, [NODE_DIND_BLOCK, b5 div (?db * 1018), b5 div ?db mod 1018, b5 mod ?db],
          [0, 2041, 2042 + b5 div (?db * 1018) * 1019, 2043 + b5 div (?db * 1018) * 1019 + b5 div ?db mod 1018])"
    unfolding get_node_path_def Let_def NIDS_PER_BLOCK_def bs by (auto split: if_splits)
  then show ?thesis
  proof cases
    case 0 then show ?thesis by (simp add: path_ok_def)
  next
    case 1 then show ?thesis by (simp add: path_ok_def cdefs dnodes_before_def b1_def)
  next
    case 2 then show ?thesis by (simp add: path_ok_def cdefs dnodes_before_def b1_def b2_def)
  next
    case 3
    have q: "b3 div ?db < 1018" "0 < ?db" using 3(4) by (simp_all add: less_mult_imp_div_less mult.commute)
    have "block = ?di + 2 * ?db + b3" using 3 by (simp add: b1_def b2_def b3_def)
    then have "block = ?di + (2 + b3 div ?db) * ?db + b3 mod ?db" by (simp add: algebra_simps)
    with 3(5) q show ?thesis by (simp add: path_ok_def cdefs dnodes_before_def less_Suc_eq nth3)
  next
    case 4
    have q: "b4 div ?db < 1018" "0 < ?db" using 4(5) by (simp_all add: less_mult_imp_div_less mult.commute)
    have "block = ?di + 2 * ?db + ?db * 1018 + b4" using 4 by (simp add: b1_def b2_def b3_def b4_def)
    then have "block = ?di + (1020 + b4 div ?db) * ?db + b4 mod ?db" by (simp add: algebra_simps)
    moreover have "(1019 + b4 div ?db) div 1019 = 1" using q by simp
    ultimately show ?thesis using 4(6) q by (simp add: path_ok_def cdefs dnodes_before_def less_Suc_eq nth3)
  next
    case 5
    let ?q = "b5 div ?db" let ?o1 = "b5 div (?db * 1018)" and ?o2 = "?q mod 1018"
    have q: "?q < 1018 * 1018" "0 < ?db" using 5(6) by (simp_all add: less_mult_imp_div_less mult.commute mult.left_commute)
    have o1: "?o1 = ?q div 1018" by (simp add: div_mult2_eq)
    have qs: "?q = ?o1 * 1018 + ?o2" by (simp add: o1)
    have lt: "?o1 < 1018" "?o2 < 1018" using q by (simp_all add: o1 less_mult_imp_div_less)
    have "block = ?di + 2 * ?db + 2 * (?db * 1018) + b5" using 5 by (simp add: b1_def b2_def b3_def b4_def b5_def)
    then have blk: "block = ?di + (2038 + ?o1 * 1018 + ?o2) * ?db + b5 mod ?db"
      using mult_div_mod_eq [of ?db b5] qs by (simp add: algebra_simps)
    show ?thesis unfolding 5(7) using lt q(2) by (intro path_ok_dind [OF blk]) simp_all
  qed
qed

text \<open>Property C34. The path \<open>get_node_path\<close> finds for a block of a file leads back to it: the index
  of the node on the path and the slot in it give the block through \<open>start_bidx_of_node\<close>, every
  index on the way is inside its node, and the node is a direct node.\<close>

theorem get_node_path_inverse:
  assumes "get_node_path f nb block = Some (level, offset, noffset)" "block < 2 ^ 32"
  shows "unat (start_bidx_of_node f (of_nat (noffset ! level)) nb) + offset ! level = block \<and> level \<le> 3 \<and>
     (if level = 0 then offset ! 0 < addrs_per_inode f nb
      else NODE_DIR1_BLOCK \<le> offset ! 0 \<and> offset ! 0 \<le> NODE_DIND_BLOCK \<and>
           (\<forall>i. 0 < i \<and> i < level \<longrightarrow> offset ! i < NIDS_PER_BLOCK) \<and> offset ! level < addrs_per_block nb) \<and>
     IS_DNODE (set_footer_flag (push_bit 3 (of_nat (noffset ! level))) zero_buf)"
proof -
  let ?n = "noffset ! level"
  note p = get_node_path_ok [OF assms(1), unfolded path_ok_def prod.case]
  show ?thesis
  proof (cases "level = 0")
    case True
    with p show ?thesis by (simp add: start_bidx_of_node_def IS_DNODE_def ofs_of_node_def node_fields NIDS_PER_BLOCK_def)
  next
    case False
    have n: "?n \<notin> {0, 3, 1022, 2041}" "2042 \<le> ?n \<longrightarrow> (?n - 2042) mod 1019 \<noteq> 0" "?n < 2 ^ 29"
      and blk: "block = dnodes_before ?n * addrs_per_block nb + addrs_per_inode f nb + offset ! level" using p False by auto
    have n': "0 < ?n" "?n \<noteq> 2042" "?n < 2 ^ 32" using n by auto
    have "unat (start_bidx_of_node f (of_nat ?n) nb) = dnodes_before ?n * addrs_per_block nb + addrs_per_inode f nb"
    proof -
      let ?x = "dnodes_before ?n * addrs_per_block nb + addrs_per_inode f nb"
      have "?x < 2 ^ 32" using blk assms(2) by linarith
      moreover have "start_bidx_of_node f (of_nat ?n) nb = of_nat ?x" using n n' by (intro start_bidx_of_node_nat) auto
      ultimately show ?thesis by (simp only: unat_of_nat) simp
    qed
    moreover have "drop_bit 3 (push_bit 3 (of_nat ?n :: u32)) = of_nat ?n"
      using n(3) by (intro drop_push_u32) (simp add: unat_of_nat)
    then have "IS_DNODE (set_footer_flag (push_bit 3 (of_nat ?n)) zero_buf)"
      using n n' unat_of_nat_u32 [of ?n] by (simp add: IS_DNODE_def ofs_of_node_def node_fields NIDS_PER_BLOCK_def Let_def)
    ultimately show ?thesis using p False blk by auto
  qed
qed

lemma addrs_zero: "addrs_per_inode 0 zero_buf = 923" "addrs_per_block zero_buf = 1018"
  by (simp_all add: addrs_per_inode_def addrs_per_block_def is_compressed_def S_ISREG_def node_fields CUR_ADDRS_PER_INODE_def
      get_extra_isize_def f2fs_has_extra_isize_def get_inline_xattr_addrs_def DEF_ADDRS_PER_INODE_def DEF_ADDRS_PER_BLOCK_def
      F2FS_INLINE_XATTR_def F2FS_INLINE_DENTRY_def F2FS_EXTRA_ATTR_def Let_def) (simp_all add: zero_buf_def)

theorem get_node_path_inverse_witness:
  "get_node_path 0 zero_buf 3000 = Some (2, [926, 0, 41], [0, 3, 4]) \<and> unat (start_bidx_of_node 0 4 zero_buf) + 41 = 3000"
proof -
  have p: "get_node_path 0 zero_buf 3000 = Some (2, [926, 0, 41], [0, 3, 4])"
    by (simp add: get_node_path_def addrs_zero NIDS_PER_BLOCK_def NODE_IND1_BLOCK_def DEF_ADDRS_PER_INODE_def)
  from get_node_path_inverse [OF p] p show ?thesis by simp
qed

end
