(* ===== verification/CpWrite.thy ===== *)
theory CpWrite
  imports Segment
begin

text \<open>
  Writing a checkpoint: \<open>write_checkpoint\<close> builds the checkpoint block and writes a pack of it, the
  summaries of the current segments and the NAT bits; \<open>write_checkpoints\<close> first copies the valid
  pack to its mirror position (\<open>fsck/mount.c\<close>).
\<close>

definition CP_ORPHAN_PRESENT_FLAG :: u32 where "CP_ORPHAN_PRESENT_FLAG = 0x2"
definition CP_TRIMMED_FLAG :: u32 where "CP_TRIMMED_FLAG = 0x100"
definition CP_DISABLED_FLAG :: u32 where "CP_DISABLED_FLAG = 0x1000"

text \<open>\<open>dev_read\<close> and \<open>dev_write\<close> of a whole segment, block by block.\<close>

fun read_segment :: "mount \<Rightarrow> nat \<Rightarrow> nat \<Rightarrow> buf list option" where
  "read_segment m src 0 = Some []"
| "read_segment m src (Suc k) = do { b \<leftarrow> rd_blk m src; bs \<leftarrow> read_segment m (src + 1) k; Some (b # bs) }"

fun write_segment :: "nat \<Rightarrow> buf list \<Rightarrow> mount \<Rightarrow> mount option" where
  "write_segment dst [] m = Some m"
| "write_segment dst (b # bs) m = do { m \<leftarrow> wr_blk dst b m; write_segment (dst + 1) bs m }"

definition duplicate_checkpoint :: "mount \<Rightarrow> mount option" where
  "duplicate_checkpoint m =
     (if cp_backuped m then Some m
      else do {
        let seg_size = 2 ^ unat (sb_log_blocks_per_seg (raw_super m));
        let cp_blkaddr = unat (sb_cp_blkaddr (raw_super m));
        let (src, dst) = (if cur_cp m = 1 then (cp_blkaddr, cp_blkaddr + seg_size) else (cp_blkaddr + seg_size, cp_blkaddr));
        bs \<leftarrow> read_segment m src seg_size;
        m \<leftarrow> write_segment dst bs m;
        Some (m\<lparr>cp_backuped := True\<rparr>)
      })"

definition orphan_blks :: "mount \<Rightarrow> u32" where
  "orphan_blks m = (if is_set_ckpt_flags (ckpt m) CP_ORPHAN_PRESENT_FLAG then cp_pack_start_sum (ckpt m) - 1 else 0)"

definition kept_flag :: "buf \<Rightarrow> u32 \<Rightarrow> u32" where
  "kept_flag cp f = (if is_set_ckpt_flags cp f then f else 0)"

definition cp_counts :: "mount \<Rightarrow> nat \<times> nat \<times> nat" where
  "cp_counts m =
     (if func m = FSCK then (valid_blk_cnt (chk m), valid_node_cnt (chk m), valid_inode_cnt (chk m))
      else (total_valid_block_count m, total_valid_node_count m, total_valid_inode_count m))"

text \<open>The checkpoint block that \<open>write_checkpoint\<close> builds in place, its checksum last.\<close>

definition new_checkpoint :: "mount \<Rightarrow> buf" where
  "new_checkpoint m =
     (let cp = ckpt m; sb = raw_super m; (blks, nodes, inodes) = cp_counts m;
          flags = CP_UMOUNT_FLAG OR kept_flag cp CP_ORPHAN_PRESENT_FLAG OR kept_flag cp CP_TRIMMED_FLAG OR
                  kept_flag cp CP_DISABLED_FLAG OR kept_flag cp CP_LARGE_NAT_BITMAP_FLAG;
          cp = put_le32 164 (of_nat (if is_set_ckpt_flags cp CP_LARGE_NAT_BITMAP_FLAG then CP_MIN_CHKSUM_OFFSET else CP_CHKSUM_OFFSET)) cp;
          cp = put_le32 32 (of_nat (get_free_segments m)) cp;
          cp = put_le64 16 (of_nat blks) cp;
          cp = put_le32 144 (of_nat nodes) cp;
          cp = put_le32 148 (of_nat inodes) cp;
          cp = put_le32 136 (8 + orphan_blks m + sb_cp_payload sb) cp;
          cp = put_le32 132 (update_nat_bits_flags sb cp flags) cp
      in put_le32 (unat (cp_checksum_offset cp)) (f2fs_checkpoint_chksum cp) cp)"

fun write_summaries :: "nat list \<Rightarrow> nat \<Rightarrow> mount \<Rightarrow> mount option" where
  "write_summaries [] cp_blk_no m = Some m"
| "write_summaries (i # is) cp_blk_no m = do {
     m \<leftarrow> wr_blk cp_blk_no (sum_blk (cursegs m i)) m;
     m \<leftarrow> (if RO_SB m then Some m else wr_blk (GET_SUM_BLKADDR m (cs_segno (cursegs m i))) (sum_blk (cursegs m i)) m);
     write_summaries is (cp_blk_no + 1) m
   }"

definition write_checkpoint :: "mount \<Rightarrow> mount option" where
  "write_checkpoint m = do {
     let sb = raw_super m;
     let orphans = orphan_blks m;
     let m = m\<lparr>ckpt := new_checkpoint m\<rparr>;
     let cp = ckpt m;
     let cp_blk_no = unat (sb_cp_blkaddr sb) + (if cur_cp m = 2 then 2 ^ unat (sb_log_blocks_per_seg sb) else 0);
     m \<leftarrow> wr_blk cp_blk_no cp m;
     let cp_blk_no = cp_blk_no + 1 + unat (sb_cp_payload sb) + unat orphans;
     m \<leftarrow> write_summaries [0..<NO_CHECK_TYPE] cp_blk_no m;
     m \<leftarrow> (if is_set_ckpt_flags cp CP_NAT_BITS_FLAG then write_nat_bits m cp (cur_cp m) else Some m);
     wr_blk (cp_blk_no + NO_CHECK_TYPE) cp m
   }"

definition write_checkpoints :: "mount \<Rightarrow> mount option" where
  "write_checkpoints m = do {
     m \<leftarrow> duplicate_checkpoint m;
     write_checkpoint (m\<lparr>cur_cp := 1\<rparr>)
   }"

definition flush_journal_entries :: "mount \<Rightarrow> mount option" where
  "flush_journal_entries m = do {
     (n_nats, m) \<leftarrow> flush_nat_journal_entries m;
     (n_sits, m) \<leftarrow> flush_sit_journal_entries m;
     if n_nats \<noteq> 0 \<or> n_sits \<noteq> 0 then write_checkpoints m else Some m
   }"

subsection \<open>The block that is written\<close>

definition unsealed_checkpoint :: "mount \<Rightarrow> buf" where
  "unsealed_checkpoint m =
     (let cp = ckpt m; sb = raw_super m; (blks, nodes, inodes) = cp_counts m;
          flags = CP_UMOUNT_FLAG OR kept_flag cp CP_ORPHAN_PRESENT_FLAG OR kept_flag cp CP_TRIMMED_FLAG OR
                  kept_flag cp CP_DISABLED_FLAG OR kept_flag cp CP_LARGE_NAT_BITMAP_FLAG;
          cp = put_le32 164 (of_nat (if is_set_ckpt_flags cp CP_LARGE_NAT_BITMAP_FLAG then CP_MIN_CHKSUM_OFFSET else CP_CHKSUM_OFFSET)) cp;
          cp = put_le32 32 (of_nat (get_free_segments m)) cp;
          cp = put_le64 16 (of_nat blks) cp;
          cp = put_le32 144 (of_nat nodes) cp;
          cp = put_le32 148 (of_nat inodes) cp;
          cp = put_le32 136 (8 + orphan_blks m + sb_cp_payload sb) cp
      in put_le32 132 (update_nat_bits_flags sb cp flags) cp)"

lemma new_checkpoint_seal: "new_checkpoint m = seal_cp (unsealed_checkpoint m)"
  by (simp add: new_checkpoint_def unsealed_checkpoint_def seal_cp_def Let_def split: prod.split)

lemma unsealed_fields:
  "cp_checkpoint_ver (unsealed_checkpoint m) = cp_checkpoint_ver (ckpt m)"
  "cp_pack_total_block_count (unsealed_checkpoint m) = 8 + orphan_blks m + sb_cp_payload (raw_super m)"
  "cp_pack_start_sum (unsealed_checkpoint m) = cp_pack_start_sum (ckpt m)"
  "unat (cp_checksum_offset (unsealed_checkpoint m)) \<in> {192, 4092}"
  by (simp_all add: unsealed_checkpoint_def cp_fields cp_checksum_offset_def CP_MIN_CHKSUM_OFFSET_def CP_CHKSUM_OFFSET_def
      Let_def buf_simps split: prod.split)

lemma unsealed_umount: "is_set_ckpt_flags (unsealed_checkpoint m) CP_UMOUNT_FLAG"
proof -
  have "update_nat_bits_flags sb cp (CP_UMOUNT_FLAG OR f) AND CP_UMOUNT_FLAG \<noteq> 0" for sb cp f
    by (simp add: update_nat_bits_flags_def CP_UMOUNT_FLAG_def CP_NAT_BITS_FLAG_def and_1_bit bit_simps)
  then show ?thesis
    by (simp add: is_set_ckpt_flags_def unsealed_checkpoint_def Let_def cp_fields or.assoc split: prod.split)
qed

lemma new_checkpoint_fields:
  "cp_checkpoint_ver (new_checkpoint m) = cp_checkpoint_ver (ckpt m)"
  "cp_pack_total_block_count (new_checkpoint m) = 8 + orphan_blks m + sb_cp_payload (raw_super m)"
  "cp_pack_start_sum (new_checkpoint m) = cp_pack_start_sum (ckpt m)"
  "is_set_ckpt_flags (new_checkpoint m) CP_UMOUNT_FLAG"
  "verify_checksum_chksum (new_checkpoint m) = 0"
proof -
  note o = unsealed_fields(4) [of m]
  show "cp_checkpoint_ver (new_checkpoint m) = cp_checkpoint_ver (ckpt m)"
    "cp_pack_total_block_count (new_checkpoint m) = 8 + orphan_blks m + sb_cp_payload (raw_super m)"
    "cp_pack_start_sum (new_checkpoint m) = cp_pack_start_sum (ckpt m)"
    "is_set_ckpt_flags (new_checkpoint m) CP_UMOUNT_FLAG"
    using o unsealed_fields(1-3) [of m] unsealed_umount [of m] unfolding new_checkpoint_seal
    by (auto simp: seal_cp_def cp_fields is_set_ckpt_flags_def buf_simps)
  show "verify_checksum_chksum (new_checkpoint m) = 0"
    unfolding new_checkpoint_seal by (rule verify_seal_cp) (use o in auto)
qed

subsection \<open>The writes\<close>

lemma write_summaries_effect:
  assumes "\<not> disk_ro (dsk m)" "base + length is \<le> last_blk (dsk m) + 1" "\<forall>i \<in> set is. cs_segno (cursegs m i) < main_segments m"
    "ssa_blkaddr m + main_segments m \<le> last_blk (dsk m) + 1" "base + length is \<le> ssa_blkaddr m"
  shows "\<exists>d. write_summaries is base m = Some (m\<lparr>dsk := d\<rparr>) \<and> last_blk d = last_blk (dsk m) \<and> disk_ro d = disk_ro (dsk m) \<and>
     (\<forall>a < ssa_blkaddr m. blocks d a =
        (if base \<le> a \<and> a < base + length is then sum_blk (cursegs m (is ! (a - base))) else blocks (dsk m) a))"
  using assms
proof (induction "is" arbitrary: m base)
  case Nil
  show ?case by (rule exI [of _ "dsk m"]) auto
next
  case (Cons i "is")
  let ?s = "sum_blk (cursegs m i)" and ?ssa = "GET_SUM_BLKADDR m (cs_segno (cursegs m i))"
  define d1 where "d1 = (dsk m)\<lparr>blocks := (blocks (dsk m))(base := ?s)\<rparr>"
  define d2 where "d2 = (if RO_SB m then d1 else d1\<lparr>blocks := (blocks d1)(?ssa := ?s)\<rparr>)"
  have w1: "wr_blk base ?s m = Some (m\<lparr>dsk := d1\<rparr>)" using Cons.prems by (simp add: wr_blk_Some d1_def)
  have ssa: "ssa_blkaddr m \<le> ?ssa" "?ssa \<le> last_blk d1" using Cons.prems by (auto simp: GET_SUM_BLKADDR_def d1_def)
  have "(if RO_SB (m\<lparr>dsk := d1\<rparr>) then Some (m\<lparr>dsk := d1\<rparr>)
      else wr_blk (GET_SUM_BLKADDR (m\<lparr>dsk := d1\<rparr>) (cs_segno (cursegs (m\<lparr>dsk := d1\<rparr>) i))) (sum_blk (cursegs (m\<lparr>dsk := d1\<rparr>) i)) (m\<lparr>dsk := d1\<rparr>))
      = Some (m\<lparr>dsk := d2\<rparr>)"
    using ssa(2) Cons.prems(1) by (simp add: wr_blk_def blk_write_def d1_def d2_def GET_SUM_BLKADDR_def)
  then have step: "write_summaries (i # is) base m = write_summaries is (base + 1) (m\<lparr>dsk := d2\<rparr>)"
    using w1 by simp
  have d2: "last_blk d2 = last_blk (dsk m)" "disk_ro d2 = disk_ro (dsk m)"
    "\<And>a. a < ssa_blkaddr m \<Longrightarrow> blocks d2 a = (if a = base then ?s else blocks (dsk m) a)"
    using ssa(1) by (auto simp: d2_def d1_def)
  from Cons.IH [of "m\<lparr>dsk := d2\<rparr>" "base + 1"] Cons.prems obtain d where
    d: "write_summaries is (base + 1) (m\<lparr>dsk := d2\<rparr>) = Some (m\<lparr>dsk := d\<rparr>)" "last_blk d = last_blk d2" "disk_ro d = disk_ro d2"
      "\<forall>a < ssa_blkaddr m. blocks d a =
        (if base + 1 \<le> a \<and> a < base + 1 + length is then sum_blk (cursegs m (is ! (a - (base + 1)))) else blocks d2 a)"
    by (auto simp: d2(1,2))
  have "blocks d a = (if base \<le> a \<and> a < base + length (i # is) then sum_blk (cursegs m ((i # is) ! (a - base))) else blocks (dsk m) a)"
    if "a < ssa_blkaddr m" for a
    using d(4) that d2(3) [OF that] by (auto simp: nth_Cons' Suc_le_eq)
  with d step d2 show ?case by (intro exI [of _ d]) simp
qed

text \<open>The layout \<open>write_checkpoint\<close> relies on: both packs before the SSA, room in the pack for the
  blocks it writes and the NAT bits, and a readable NAT.\<close>

definition cp_wf :: "mount \<Rightarrow> bool" where
  "cp_wf m \<longleftrightarrow> packs_on_disk (raw_super m) (dsk m) \<and> \<not> disk_ro (dsk m) \<and> cur_cp m \<in> {1, 2} \<and>
     sb_segment0_blkaddr (raw_super m) = sb_cp_blkaddr (raw_super m) \<and>
     pack_start (raw_super m) 1 + 1024 \<le> ssa_blkaddr m \<and> ssa_blkaddr m + main_segments m \<le> last_blk (dsk m) + 1 \<and>
     (\<forall>i < NO_CHECK_TYPE. cs_segno (cursegs m i) < main_segments m) \<and>
     8 + unat (orphan_blks m) + unat (sb_cp_payload (raw_super m)) + nat_bits_blocks (raw_super m) \<le> 512 \<and>
     (\<forall>x < nat_bits_bytes (raw_super m) * 8. nat_bits_src m x \<le> last_blk (dsk m))"

lemma write_nat_bits_effect:
  assumes "\<forall>x < nat_bits_bytes (raw_super m) * 8. nat_bits_src m x \<le> last_blk (dsk m)" "\<not> disk_ro (dsk m)"
    "nat_bits_addr (raw_super m) n + nat_bits_blocks (raw_super m) \<le> last_blk (dsk m) + 1"
  shows "\<exists>d. write_nat_bits m cp n = Some (m\<lparr>dsk := d\<rparr>) \<and> last_blk d = last_blk (dsk m) \<and> disk_ro d = disk_ro (dsk m) \<and>
     (\<forall>a. a < nat_bits_addr (raw_super m) n \<or> nat_bits_addr (raw_super m) n + nat_bits_blocks (raw_super m) \<le> a \<longrightarrow>
        blocks d a = blocks (dsk m) a)"
proof -
  obtain f e where "nat_bits_loop m 0 (nat_bits_bytes (raw_super m) * 8) (zero_buf, zero_buf) = Some (f, e)"
    using nat_bits_loop_exact [of 0 "nat_bits_bytes (raw_super m) * 8" m] assms(1) by fastforce
  then show ?thesis using write_blocks_ok [OF assms(2), of _ 0] assms(3)
    by (auto simp: write_nat_bits_def Let_def)
qed

lemma write_checkpoint_effect:
  assumes wf: "cp_wf m" and c: "cur_cp m = 1"
  defines "sb \<equiv> raw_super m" and "cp \<equiv> new_checkpoint m"
  defines "base \<equiv> pack_start sb 1 + 1 + unat (sb_cp_payload sb) + unat (orphan_blks m)"
  shows "\<exists>d. write_checkpoint m = Some (m\<lparr>ckpt := cp, dsk := d\<rparr>) \<and> last_blk d = last_blk (dsk m) \<and> disk_ro d = disk_ro (dsk m) \<and>
     blocks d (pack_start sb 1) = cp \<and> blocks d (base + 6) = cp \<and> (\<forall>i < 6. blocks d (base + i) = sum_blk (cursegs m i)) \<and>
     (\<forall>a. pack_start sb 2 \<le> a \<and> a < pack_start sb 2 + 512 \<longrightarrow> blocks d a = blocks (dsk m) a)"
proof -
  note w = wf [unfolded cp_wf_def packs_on_disk_def, folded sb_def]
  let ?st = "pack_start sb 1"
  have st: "unat (sb_cp_blkaddr sb) = ?st" "pack_start sb 2 = ?st + 512" by (simp_all add: pack_start_def)
  define m1 where "m1 = m\<lparr>ckpt := cp, dsk := (dsk m)\<lparr>blocks := (blocks (dsk m))(?st := cp)\<rparr>\<rparr>"
  have w1: "wr_blk ?st cp (m\<lparr>ckpt := cp\<rparr>) = Some m1" using w by (simp add: wr_blk_Some m1_def st)
  have b6: "base + 6 < ?st + 512" "base + 6 < ssa_blkaddr m" using w by (auto simp: base_def)
  have "\<exists>d. write_summaries [0..<NO_CHECK_TYPE] base m1 = Some (m1\<lparr>dsk := d\<rparr>) \<and> last_blk d = last_blk (dsk m1) \<and> disk_ro d = disk_ro (dsk m1) \<and>
     (\<forall>a < ssa_blkaddr m1. blocks d a =
        (if base \<le> a \<and> a < base + length [0..<NO_CHECK_TYPE] then sum_blk (cursegs m1 ([0..<NO_CHECK_TYPE] ! (a - base))) else blocks (dsk m1) a))"
    using w b6 by (intro write_summaries_effect) (simp_all add: m1_def NO_CHECK_TYPE_def)
  then obtain d2 where d2: "write_summaries [0..<NO_CHECK_TYPE] base m1 = Some (m1\<lparr>dsk := d2\<rparr>)"
      "last_blk d2 = last_blk (dsk m1)" "disk_ro d2 = disk_ro (dsk m1)"
      and bl: "\<forall>a < ssa_blkaddr m1. blocks d2 a =
        (if base \<le> a \<and> a < base + length [0..<NO_CHECK_TYPE] then sum_blk (cursegs m1 ([0..<NO_CHECK_TYPE] ! (a - base))) else blocks (dsk m1) a)"
    by blast
  have m1: "last_blk (dsk m1) = last_blk (dsk m)" "disk_ro (dsk m1) = disk_ro (dsk m)" by (simp_all add: m1_def)
  note d2 = d2(1) d2(2,3) [unfolded m1]
  have bl: "blocks d2 a = (if base \<le> a \<and> a < base + 6 then sum_blk (cursegs m (a - base)) else if a = ?st then cp else blocks (dsk m) a)"
    if "a < ssa_blkaddr m" for a
    using bl that by (auto simp: m1_def NO_CHECK_TYPE_def)
  note d2 = d2 bl
  define m2 where "m2 = m1\<lparr>dsk := d2\<rparr>"
  let ?na = "nat_bits_addr sb 1"
  have na1: "?na = ?st + 512 - nat_bits_blocks sb" using w by (simp add: nat_bits_addr_def st)
  then have na: "base + 6 < ?na" "?na + nat_bits_blocks sb = ?st + 512"
    using w by (auto simp: base_def)
  have "\<exists>d. (if is_set_ckpt_flags cp CP_NAT_BITS_FLAG then write_nat_bits m2 cp (cur_cp m2) else Some m2) = Some (m2\<lparr>dsk := d\<rparr>) \<and>
      last_blk d = last_blk d2 \<and> disk_ro d = disk_ro d2 \<and> (\<forall>a. a < ?na \<or> ?st + 512 \<le> a \<longrightarrow> blocks d a = blocks d2 a)"
  proof (cases "is_set_ckpt_flags cp CP_NAT_BITS_FLAG")
    case True
    have "nat_bits_src m2 = nat_bits_src m" by (intro ext) (simp add: nat_bits_src_def m2_def m1_def)
    then show ?thesis
      using True write_nat_bits_effect [of m2 1 cp] w na d2(2,3) c
      by (auto simp: m2_def m1_def sb_def)
  next
    case False
    then show ?thesis by (intro exI [of _ d2]) (simp add: m2_def)
  qed
  then obtain d3 where d3: "(if is_set_ckpt_flags cp CP_NAT_BITS_FLAG then write_nat_bits m2 cp (cur_cp m2) else Some m2) = Some (m2\<lparr>dsk := d3\<rparr>)"
      "last_blk d3 = last_blk d2" "disk_ro d3 = disk_ro d2" "\<And>a. a < ?na \<or> ?st + 512 \<le> a \<Longrightarrow> blocks d3 a = blocks d2 a" by blast
  define d where "d = d3\<lparr>blocks := (blocks d3)(base + 6 := cp)\<rparr>"
  have w4: "wr_blk (base + 6) cp (m2\<lparr>dsk := d3\<rparr>) = Some (m\<lparr>ckpt := cp, dsk := d\<rparr>)"
    using w b6 d3(2,3) d2(2,3) by (simp add: wr_blk_Some m2_def m1_def d_def)
  have bs: "Suc (pack_start sb (Suc 0) + unat (sb_cp_payload sb) + unat (orphan_blks m)) = base"
    "7 + (pack_start sb (Suc 0) + (unat (sb_cp_payload sb) + unat (orphan_blks m))) = base + 6" by (simp_all add: base_def)
  have "write_checkpoint m = Some (m\<lparr>ckpt := cp, dsk := d\<rparr>)"
    using w1 d2(1) d3(1) w4 c
    by (auto simp: write_checkpoint_def Let_def sb_def [symmetric] cp_def [symmetric] st bs
        m2_def [symmetric] NO_CHECK_TYPE_def split: if_splits)
  moreover have "\<forall>a. pack_start sb 2 \<le> a \<and> a < pack_start sb 2 + 512 \<longrightarrow> blocks d a = blocks (dsk m) a"
    using d3(4) d2(4) b6 w st by (auto simp: d_def)
  ultimately show ?thesis
    using d3 d2 na b6 by (intro exI [of _ d]) (auto simp: d_def base_def)
qed

subsection \<open>The mirror copy\<close>

lemma read_segment_ok:
  "src + k \<le> last_blk (dsk m) + 1 \<Longrightarrow> read_segment m src k = Some (map (\<lambda>i. blocks (dsk m) (src + i)) [0..<k])"
proof (induction k arbitrary: src)
  case (Suc k)
  have "[0..<Suc k] = 0 # map Suc [0..<k]" by (simp add: upt_conv_Cons map_Suc_upt del: upt_Suc)
  then have "map (\<lambda>i. blocks (dsk m) (src + i)) [0..<Suc k] = blocks (dsk m) src # map (\<lambda>i. blocks (dsk m) (src + 1 + i)) [0..<k]"
    by (simp add: comp_def)
  then show ?case using Suc.IH [of "src + 1"] Suc.prems by (simp add: rd_blk_Some del: upt_Suc)
qed simp

lemma write_segment_ok:
  assumes "\<not> disk_ro (dsk m)" "dst + length bs \<le> last_blk (dsk m) + 1"
  shows "write_segment dst bs m = Some (m\<lparr>dsk := (dsk m)\<lparr>blocks := \<lambda>a.
     if dst \<le> a \<and> a < dst + length bs then bs ! (a - dst) else blocks (dsk m) a\<rparr>\<rparr>)"
  using assms
proof (induction bs arbitrary: dst m)
  case Nil
  have e: "(dst \<le> a \<and> a < dst + length ([] :: buf list)) = False" for a by simp
  show ?case by (simp only: e if_False) simp
next
  case (Cons b bs)
  then show ?case by (auto simp: wr_blk_Some fun_eq_iff nth_Cons' Suc_le_eq intro!: arg_cong [of _ _ Some] mount.equality disk.equality)
qed

lemma duplicate_checkpoint_ok:
  assumes "cp_wf m" "\<not> cp_backuped m"
  shows "\<exists>m1. duplicate_checkpoint m = Some m1 \<and> m1 = m\<lparr>dsk := dsk m1, cp_backuped := True\<rparr> \<and>
     last_blk (dsk m1) = last_blk (dsk m) \<and> \<not> disk_ro (dsk m1) \<and>
     blocks (dsk m1) (pack_start (raw_super m) 2) = blocks (dsk m) (pack_start (raw_super m) (cur_cp m))"
proof -
  let ?sb = "raw_super m"
  define src where "src = pack_start ?sb (cur_cp m)"
  define dst where "dst = (if cur_cp m = 1 then pack_start ?sb 2 else pack_start ?sb 1)"
  note w = assms(1) [unfolded cp_wf_def packs_on_disk_def]
  have a: "src + 512 \<le> last_blk (dsk m) + 1" "dst + 512 \<le> last_blk (dsk m) + 1"
    using w by (auto simp: src_def dst_def pack_start_def)
  note r = read_segment_ok [OF a(1)]
  let ?bs = "map (\<lambda>i. blocks (dsk m) (src + i)) [0..<512]"
  have wr: "write_segment dst ?bs m = Some (m\<lparr>dsk := (dsk m)\<lparr>blocks := \<lambda>x.
     if dst \<le> x \<and> x < dst + length ?bs then ?bs ! (x - dst) else blocks (dsk m) x\<rparr>\<rparr>)"
    using w a(2) by (intro write_segment_ok) simp_all
  have "duplicate_checkpoint m = Some (m\<lparr>cp_backuped := True, dsk := (dsk m)\<lparr>blocks := \<lambda>x.
     if dst \<le> x \<and> x < dst + length ?bs then ?bs ! (x - dst) else blocks (dsk m) x\<rparr>\<rparr>)"
    using r wr assms(2) w by (auto simp: duplicate_checkpoint_def Let_def src_def dst_def pack_start_def simp del: upt_Suc)
  moreover have "(if dst \<le> x \<and> x < dst + length ?bs then ?bs ! (x - dst) else blocks (dsk m) x) = blocks (dsk m) src"
    if "x = pack_start ?sb 2" for x
    using w that by (auto simp: src_def dst_def pack_start_def simp del: upt_Suc)
  ultimately show ?thesis using w by (simp add: src_def)
qed

lemma new_checkpoint_disk:
  "orphan_blks (m\<lparr>cur_cp := c, cp_backuped := b, dsk := d\<rparr>) = orphan_blks m"
  "new_checkpoint (m\<lparr>cur_cp := c, cp_backuped := b, dsk := d\<rparr>) = new_checkpoint m"
  by (simp_all add: new_checkpoint_def orphan_blks_def cp_counts_def get_free_segments_def IS_CUR_SEGNO_def Let_def)

lemma cp_wf_disk:
  assumes "last_blk d = last_blk (dsk m)" "\<not> disk_ro d" "cp_wf m"
  shows "cp_wf (m\<lparr>cur_cp := 1, cp_backuped := b, dsk := d\<rparr>)"
  using assms by (simp add: cp_wf_def packs_on_disk_def new_checkpoint_disk nat_bits_src_def Let_def)

lemma pack1_valid:
  assumes pd: "packs_on_disk sb d" and s: "blocks_per_seg sbi = 512" and h: "blocks d (pack_start sb 1) = cp"
    and t: "1 \<le> unat (cp_pack_total_block_count cp)" "unat (cp_pack_total_block_count cp) \<le> 512"
    and c: "verify_checksum_chksum cp = 0" and v: "cp_checkpoint_ver cp = v"
    and tl: "blocks d (pack_start sb 1 + unat (cp_pack_total_block_count cp) - 1) = cp"
  shows "validate_checkpoint sbi d (of_nat (pack_start sb 1)) = Some (Some (cp, v))"
proof -
  let ?a = "of_nat (pack_start sb 1) :: u32"
  note fit = pd [unfolded packs_on_disk_def]
  have a: "unat ?a = pack_start sb 1" by (rule pack_addresses(3) [OF pd])
  have "cp_pack_total_block_count cp \<le> 512" "1 \<le> cp_pack_total_block_count cp" using t by (simp_all add: word_le_nat_alt)
  moreover have "unat (?a + (cp_pack_total_block_count cp - 1)) = pack_start sb 1 + unat (cp_pack_total_block_count cp) - 1"
    using unat_pack_tail(2) [of ?a "cp_pack_total_block_count cp"] a fit calculation t by (simp add: pack_start_def)
  ultimately show ?thesis
    using a h tl c v s t fit
    by (auto simp: validate_checkpoint_iff get_checkpoint_version_def blk_read_def pack_start_def)
qed

lemma sum_addr:
  assumes "cp_pack_total_block_count (ckpt m) = 8 + o' + p" "3 \<le> base \<and> base \<le> 6" "start_cp_addr m + 512 < 2 ^ 32" "unat o' + unat p \<le> 504" "t < 3"
  shows "sum_blk_addr m base t = start_cp_addr m + 1 + unat p + unat o' + (6 - base) + t"
proof -
  let ?T = "8 + unat o' + unat p"
  have T: "8 + o' + p = of_nat ?T" by simp
  have le: "base + 1 \<le> start_cp_addr m + ?T" using assms(2) by simp
  have "(of_nat (start_cp_addr m) :: u32) + cp_pack_total_block_count (ckpt m) - of_nat (base + 1) + of_nat t
      = of_nat (start_cp_addr m + ?T - (base + 1) + t)"
    unfolding assms(1) T of_nat_add [of "start_cp_addr m + ?T - (base + 1)" t] of_nat_diff [OF le] of_nat_add [of "start_cp_addr m" ?T] ..
  moreover have "start_cp_addr m + ?T - (base + 1) + t < 2 ^ 32" using assms by linarith
  ultimately have "sum_blk_addr m base t = start_cp_addr m + ?T - (base + 1) + t"
    unfolding sum_blk_addr_def by (simp only: unat_of_nat_u32)
  then show ?thesis using assms(2) by linarith
qed

text \<open>Property C30. \<open>write_checkpoints\<close> leaves a volume that mounts with the checkpoint it built: both packs
  are written without failure, the choice between them falls on the new one in pack 1, and the
  summaries of the six current segments are where the mount reads them.\<close>

theorem write_checkpoints_mounts:
  assumes wf: "cp_wf m" and b: "\<not> cp_backuped m" and s: "blocks_per_seg sbi = 512"
    and v: "cp_checkpoint_ver (blocks (dsk m) (pack_start (raw_super m) (cur_cp m))) = cp_checkpoint_ver (ckpt m)"
  shows "\<exists>m' k. write_checkpoints m = Some m' \<and> cur_cp m' = 1 \<and> ckpt m' = new_checkpoint m \<and>
     get_valid_checkpoint sbi (raw_super m) (dsk m') = Some (0, Some (k, 1, cp_checkpoint_ver (ckpt m))) \<and>
     (\<forall>i < F2FS_BLKSIZE. k i = new_checkpoint m i) \<and>
     (\<forall>t < 3. rd_blk m' (sum_blk_addr m' 6 t) = Some (sum_blk (cursegs m t)) \<and>
              rd_blk m' (sum_blk_addr m' 3 t) = Some (sum_blk (cursegs m (3 + t))))"
proof -
  let ?sb = "raw_super m" let ?st = "pack_start ?sb 1" and ?cp = "new_checkpoint m"
  note w = wf [unfolded cp_wf_def packs_on_disk_def]
  obtain m1 where m1: "duplicate_checkpoint m = Some m1" "m1 = m\<lparr>dsk := dsk m1, cp_backuped := True\<rparr>"
      "last_blk (dsk m1) = last_blk (dsk m)" "\<not> disk_ro (dsk m1)"
      "blocks (dsk m1) (pack_start ?sb 2) = blocks (dsk m) (pack_start ?sb (cur_cp m))"
    using duplicate_checkpoint_ok [OF wf b] by blast
  let ?m1 = "m1\<lparr>cur_cp := 1\<rparr>"
  have mm: "?m1 = m\<lparr>cur_cp := 1, cp_backuped := True, dsk := dsk m1\<rparr>" by (subst m1(2)) simp
  have sel: "raw_super ?m1 = ?sb" "new_checkpoint ?m1 = ?cp" "orphan_blks ?m1 = orphan_blks m" "cursegs ?m1 = cursegs m"
    "ckpt ?m1 = ckpt m" "dsk ?m1 = dsk m1" "cur_cp ?m1 = 1" unfolding mm by (simp_all add: new_checkpoint_disk)
  have wf1: "cp_wf ?m1" using wf m1(3,4) unfolding mm by (intro cp_wf_disk)
  from write_checkpoint_effect [OF wf1] sel obtain d where
    d: "write_checkpoint ?m1 = Some (?m1\<lparr>ckpt := ?cp, dsk := d\<rparr>)" "last_blk d = last_blk (dsk m)"
      "blocks d ?st = ?cp" "blocks d (?st + 1 + unat (sb_cp_payload ?sb) + unat (orphan_blks m) + 6) = ?cp"
      "\<forall>i < 6. blocks d (?st + 1 + unat (sb_cp_payload ?sb) + unat (orphan_blks m) + i) = sum_blk (cursegs m i)"
      "blocks d (pack_start ?sb 2) = blocks (dsk m1) (pack_start ?sb 2)"
    using m1(3) by (auto simp: pack_start_def)
  define m' where "m' = ?m1\<lparr>ckpt := ?cp, dsk := d\<rparr>"
  have wr: "write_checkpoints m = Some m'" using m1(1) d(1) by (simp add: write_checkpoints_def m'_def)
  have pd: "packs_on_disk ?sb d" using wf d(2) by (simp add: cp_wf_def packs_on_disk_def)
  have t: "unat (8 + orphan_blks m + sb_cp_payload ?sb) = 8 + unat (orphan_blks m) + unat (sb_cp_payload ?sb)"
    using w by (simp add: unat_word_ariths)
  note nf = new_checkpoint_fields [of m]
  have v1: "validate_checkpoint sbi d (of_nat ?st) = Some (Some (?cp, cp_checkpoint_ver (ckpt m)))"
    using pack1_valid [OF pd s d(3) _ _ nf(5), of "cp_checkpoint_ver (ckpt m)"] t d(4) w nf by (simp add: add.commute add.left_commute)
  have c2: "\<not> ver_after v2 (cp_checkpoint_ver (ckpt m))"
    if "validate_checkpoint sbi d (of_nat (pack_start ?sb 2)) = Some (Some (p2, v2))" for p2 v2
  proof -
    have "p2 = blocks d (pack_start ?sb 2)" "v2 = cp_checkpoint_ver p2"
      using that pack_addresses(3) [OF pd, of 2]
      by (auto simp: validate_checkpoint_iff get_checkpoint_version_def blk_read_def split: if_splits)
    then show ?thesis using d(6) m1(5) v by simp
  qed
  obtain k where k: "get_valid_checkpoint sbi ?sb d = Some (0, Some (k, 1, cp_checkpoint_ver (ckpt m)))" "\<forall>i < F2FS_BLKSIZE. k i = ?cp i"
  proof -
    from get_valid_checkpoint_pick [OF pd s] v1 obtain c2' where
      "validate_checkpoint sbi d (of_nat (pack_start ?sb 2)) = Some c2'"
      "case pick_pack (Some (?cp, cp_checkpoint_ver (ckpt m))) c2' of
        None \<Rightarrow> get_valid_checkpoint sbi ?sb d = Some (- EINVAL, None)
      | Some (page, cur, v) \<Rightarrow>
          \<exists>k. get_valid_checkpoint sbi ?sb d = Some (0, Some (k, cur, v)) \<and> (\<forall>i < F2FS_BLKSIZE. k i = page i)" by auto
    with c2 that show ?thesis by (cases c2') (auto split: if_splits)
  qed
  have sums: "rd_blk m' (sum_blk_addr m' 6 t) = Some (sum_blk (cursegs m t)) \<and> rd_blk m' (sum_blk_addr m' 3 t) = Some (sum_blk (cursegs m (3 + t)))"
    if "t < 3" for t
  proof -
    have "raw_super m' = ?sb" "cur_cp m' = 1" using sel(1) by (simp_all add: m'_def)
    then have st: "start_cp_addr m' = ?st" "ckpt m' = ?cp" by (simp_all add: m'_def pack_start_def start_cp_addr_def)
    have fit: "?st + 512 < 2 ^ 32" "?st + 1024 \<le> last_blk d" using w d(2) by (simp_all add: pack_start_def)
    have fit2: "unat (orphan_blks m) + unat (sb_cp_payload ?sb) \<le> 504" using w by linarith
    have "sum_blk_addr m' base t = ?st + 1 + unat (sb_cp_payload ?sb) + unat (orphan_blks m) + (6 - base + t)" if "3 \<le> base \<and> base \<le> 6" for base
      using sum_addr [of m' "orphan_blks m" "sb_cp_payload ?sb" base t] nf(2) \<open>t < 3\<close> fit fit2 that unfolding st by simp
    from this [of 6] this [of 3]
    have a: "sum_blk_addr m' 6 t = ?st + 1 + unat (sb_cp_payload ?sb) + unat (orphan_blks m) + t"
      "sum_blk_addr m' 3 t = ?st + 1 + unat (sb_cp_payload ?sb) + unat (orphan_blks m) + (3 + t)" by simp_all
    have "dsk m' = d" by (simp add: m'_def)
    moreover have "?st + 1 + unat (sb_cp_payload ?sb) + unat (orphan_blks m) + t \<le> last_blk d"
      "?st + 1 + unat (sb_cp_payload ?sb) + unat (orphan_blks m) + (3 + t) \<le> last_blk d" using that fit fit2 by linarith+
    ultimately show ?thesis unfolding a rd_blk_def blk_read_def
      using d(5) [rule_format, of t] d(5) [rule_format, of "3 + t"] that by (simp only: if_True)
  qed
  have sel': "cur_cp m' = 1" "ckpt m' = ?cp" "dsk m' = d" by (simp_all add: m'_def)
  show ?thesis
    by (intro exI [of _ m'] exI [of _ k] conjI wr sel' k(1) [folded sel'(3)] k(2)) (use sums in blast)
qed

text \<open>Property C35. The version of a checkpoint does not change when it is rewritten, so the pack is
  accepted as soon as its first block is written: when the last block of the old pack is where the
  new one will be, a crash before the summaries are written is not detected and the mount takes the
  new first block with the old summaries.\<close>

theorem torn_rewrite_accepted:
  assumes wf: "cp_wf m" and s: "blocks_per_seg sbi = 512"
    and old: "blocks (dsk m) (pack_start (raw_super m) 1 + 7 + unat (orphan_blks m) + unat (sb_cp_payload (raw_super m))) = tail"
      "verify_checksum_chksum tail = 0" "cp_checkpoint_ver tail = cp_checkpoint_ver (ckpt m)"
    and first: "wr_blk (pack_start (raw_super m) 1) (new_checkpoint m) m = Some m1"
  shows "validate_checkpoint sbi (dsk m1) (of_nat (pack_start (raw_super m) 1)) =
     Some (Some (new_checkpoint m, cp_checkpoint_ver (ckpt m)))"
proof -
  let ?sb = "raw_super m" let ?st = "pack_start ?sb 1" and ?cp = "new_checkpoint m"
  note w = wf [unfolded cp_wf_def packs_on_disk_def]
  note nf = new_checkpoint_fields [of m]
  let ?a = "of_nat ?st :: u32" and ?t = "cp_pack_total_block_count ?cp"
  have pd: "packs_on_disk ?sb (dsk m)" using wf by (simp add: cp_wf_def)
  have a: "unat ?a = ?st" by (rule pack_addresses(3) [OF pd])
  have d1: "dsk m1 = (dsk m)\<lparr>blocks := (blocks (dsk m))(?st := ?cp)\<rparr>" using first w by (auto simp: wr_blk_def blk_write_def split: if_splits)
  have t: "unat ?t = 8 + unat (orphan_blks m) + unat (sb_cp_payload ?sb)"
    using w nf(2) by (simp add: unat_word_ariths)
  have le: "?t \<le> 512" "1 \<le> ?t" using t w by (simp_all add: word_le_nat_alt)
  have tl: "unat (?a + (?t - 1)) = ?st + 7 + unat (orphan_blks m) + unat (sb_cp_payload ?sb)"
    using unat_pack_tail(2) [of ?a ?t] a w le t by (simp add: pack_start_def)
  have "?st + 512 \<le> last_blk (dsk m)" "?st + 7 + unat (orphan_blks m) + unat (sb_cp_payload ?sb) \<le> last_blk (dsk m)"
    using w by (auto simp: pack_start_def)
  then have "get_checkpoint_version (dsk m1) ?a = Some (Some ?cp)" "get_checkpoint_version (dsk m1) (?a + (?t - 1)) = Some (Some tail)"
    using nf(5) old(1,2) unfolding get_checkpoint_version_def blk_read_def a tl d1 by simp_all
  then show ?thesis using le s nf(1) old(3) by (auto simp: validate_checkpoint_iff)
qed

subsection \<open>The statements on a small volume\<close>

definition demo_cp_mount :: "mount" where
  "demo_cp_mount = (demo_mount zero_buf)\<lparr>ckpt := demo_cp 7,
     dsk := \<lparr>blocks = (\<lambda>_. zero_buf)(512 := demo_cp 7, 519 := demo_cp 7), last_blk = 99999, disk_ro = False\<rparr>\<rparr>"

lemma demo_cp_mount_facts:
  "cp_wf demo_cp_mount" "\<not> cp_backuped demo_cp_mount" "orphan_blks demo_cp_mount = 0" "pack_start (raw_super demo_cp_mount) 1 = 512"
  "cp_checkpoint_ver (blocks (dsk demo_cp_mount) (pack_start (raw_super demo_cp_mount) (cur_cp demo_cp_mount))) = cp_checkpoint_ver (ckpt demo_cp_mount)"
  "sb_cp_payload (raw_super demo_cp_mount) = 0" "cp_checkpoint_ver (ckpt demo_cp_mount) = 7"
proof -
  have f: "cp_ckpt_flags (demo_cp 7) = 0" by (simp add: demo_cp_def cp_fields seal_cp_def cp_checksum_offset_def buf_simps)
  show o: "orphan_blks demo_cp_mount = 0" by (simp add: orphan_blks_def is_set_ckpt_flags_def demo_cp_mount_def f)
  have n: "nat_bits_bytes (raw_super demo_cp_mount) = 64" "nat_bits_blocks (raw_super demo_cp_mount) = 1"
    by (simp_all add: nat_bits_bytes_def nat_bits_blocks_def demo_cp_mount_def demo_mount_def sample_sb F2FS_BLKSIZE_def)
  have "nat_bits_src demo_cp_mount x \<le> 99999" if "x < 512" for x
    using that by (simp add: nat_bits_src_def demo_cp_mount_def demo_mount_def sample_sb Let_def)
  then show "cp_wf demo_cp_mount"
    unfolding cp_wf_def packs_on_disk_def o n
    by (auto simp: demo_cp_mount_def demo_mount_def sample_sb pack_start_def NO_CHECK_TYPE_def)
  show "\<not> cp_backuped demo_cp_mount" "pack_start (raw_super demo_cp_mount) 1 = 512" "sb_cp_payload (raw_super demo_cp_mount) = 0"
    "cp_checkpoint_ver (ckpt demo_cp_mount) = 7"
    "cp_checkpoint_ver (blocks (dsk demo_cp_mount) (pack_start (raw_super demo_cp_mount) (cur_cp demo_cp_mount))) = cp_checkpoint_ver (ckpt demo_cp_mount)"
    by (simp_all add: demo_cp_mount_def demo_mount_def sample_sb pack_start_def demo_cp_fields)
qed

theorem write_checkpoints_mounts_witness:
  "\<exists>m' k. write_checkpoints demo_cp_mount = Some m' \<and>
     get_valid_checkpoint demo_sbi (raw_super demo_cp_mount) (dsk m') = Some (0, Some (k, 1, 7))"
  using write_checkpoints_mounts [OF demo_cp_mount_facts(1,2) demo_packs(2) demo_cp_mount_facts(5)] demo_cp_mount_facts(7) by auto

theorem torn_rewrite_accepted_witness:
  "\<exists>m1. wr_blk 512 (new_checkpoint demo_cp_mount) demo_cp_mount = Some m1 \<and>
     validate_checkpoint demo_sbi (dsk m1) (of_nat 512) = Some (Some (new_checkpoint demo_cp_mount, 7))"
proof -
  let ?m = demo_cp_mount
  obtain m1 where m1: "wr_blk 512 (new_checkpoint ?m) ?m = Some m1" using wr_blk_Some [of ?m 512] by (simp add: demo_cp_mount_def)
  have tail: "blocks (dsk ?m) (pack_start (raw_super ?m) 1 + 7 + unat (orphan_blks ?m) + unat (sb_cp_payload (raw_super ?m))) = demo_cp 7"
    unfolding demo_cp_mount_facts(3,4,6) by (simp add: demo_cp_mount_def)
  have "wr_blk (pack_start (raw_super ?m) 1) (new_checkpoint ?m) ?m = Some m1" using m1 by (simp only: demo_cp_mount_facts(4))
  from torn_rewrite_accepted [OF demo_cp_mount_facts(1) demo_packs(2) tail demo_cp_fields(3) _ this] m1 show ?thesis
    unfolding demo_cp_mount_facts(4,7) by (simp add: demo_cp_fields)
qed

end
