(* ===== verification/Recovery.thy ===== *)
theory Recovery
  imports Node CpWrite
begin

text \<open>
  Mounting a volume: the chain of node blocks written by fsync after the last checkpoint
  (\<open>find_fsync_inode\<close>, \<open>traverse_dnodes\<close>, \<open>record_fsync_data\<close>), the table of NAT entries of
  fsck (\<open>build_nat_area_bitmap\<close>), the steps of \<open>f2fs_do_mount\<close>, and \<open>update_data_blkaddr\<close>, all of
  \<open>fsck/mount.c\<close>.
\<close>

subsection \<open>Nodes written after the checkpoint\<close>

definition CP_NOCRC_RECOVERY_FLAG :: u32 where "CP_NOCRC_RECOVERY_FLAG = 0x200"
definition CP_CRC_RECOVERY_FLAG :: u32 where "CP_CRC_RECOVERY_FLAG = 0x40"
definition FSYNC_BIT_SHIFT :: nat where "FSYNC_BIT_SHIFT = 1"
definition DENT_BIT_SHIFT :: nat where "DENT_BIT_SHIFT = 2"

definition cur_cp_crc :: "buf \<Rightarrow> u64" where
  "cur_cp_crc cp = ucast (le32_at cp (unat (cp_checksum_offset cp)))"

definition is_recoverable_dnode :: "mount \<Rightarrow> buf \<Rightarrow> bool" where
  "is_recoverable_dnode m nb =
     (let cp = ckpt m; cp_ver = cp_checkpoint_ver cp
      in if is_set_ckpt_flags cp CP_NOCRC_RECOVERY_FLAG then push_bit 32 cp_ver = push_bit 32 (footer_cp_ver nb)
         else (if is_set_ckpt_flags cp CP_CRC_RECOVERY_FLAG then cp_ver OR push_bit 32 (cur_cp_crc cp) else cp_ver) = footer_cp_ver nb)"

definition is_node :: "buf \<Rightarrow> nat \<Rightarrow> bool" where
  "is_node nb type \<longleftrightarrow> footer_flag nb AND push_bit type 1 \<noteq> 0"

record fsync_inode_entry =
  fe_ino :: u32
  fe_blkaddr :: nat
  fe_last_dentry :: nat

fun get_fsync_inode :: "fsync_inode_entry list \<Rightarrow> u32 \<Rightarrow> fsync_inode_entry option" where
  "get_fsync_inode [] ino = None"
| "get_fsync_inode (e # es) ino = (if fe_ino e = ino then Some e else get_fsync_inode es ino)"

definition add_fsync_inode :: "fsync_inode_entry list \<Rightarrow> u32 \<Rightarrow> fsync_inode_entry list" where
  "add_fsync_inode es ino = es @ [\<lparr>fe_ino = ino, fe_blkaddr = 0, fe_last_dentry = 0\<rparr>]"

fun del_fsync_inode :: "u32 \<Rightarrow> fsync_inode_entry list \<Rightarrow> fsync_inode_entry list" where
  "del_fsync_inode ino [] = []"
| "del_fsync_inode ino (e # es) = (if fe_ino e = ino then es else e # del_fsync_inode ino es)"

fun upd_fsync_inode :: "u32 \<Rightarrow> (fsync_inode_entry \<Rightarrow> fsync_inode_entry) \<Rightarrow> fsync_inode_entry list \<Rightarrow> fsync_inode_entry list" where
  "upd_fsync_inode ino f [] = []"
| "upd_fsync_inode ino f (e # es) = (if fe_ino e = ino then f e # es else e # upd_fsync_inode ino f es)"

definition note_fsync_inode :: "buf \<Rightarrow> nat \<Rightarrow> fsync_inode_entry list \<Rightarrow> fsync_inode_entry list" where
  "note_fsync_inode nb blkaddr es =
     (if \<not> is_node nb FSYNC_BIT_SHIFT then es
      else let ino = footer_ino nb;
               es = (if get_fsync_inode es ino = None then add_fsync_inode es ino else es)
           in upd_fsync_inode ino (\<lambda>e. let e = e\<lparr>fe_blkaddr := blkaddr\<rparr>
                in if IS_INODE nb \<and> is_node nb DENT_BIT_SHIFT then e\<lparr>fe_last_dentry := blkaddr\<rparr> else e) es)"

definition NEXT_FREE_BLKADDR :: "mount \<Rightarrow> nat \<Rightarrow> nat" where
  "NEXT_FREE_BLKADDR m t = START_BLOCK m (cs_segno (cursegs m t)) + next_blkoff (cursegs m t)"

text \<open>The loop of \<open>find_fsync_inode\<close> counts its rounds, which bounds it by the free blocks.\<close>

function find_fsync_loop :: "mount \<Rightarrow> nat \<Rightarrow> nat \<Rightarrow> nat \<Rightarrow> fsync_inode_entry list \<Rightarrow> (int \<times> fsync_inode_entry list) option" where
  "find_fsync_loop m free_blocks loop_cnt blkaddr es =
     (case f2fs_is_valid_blkaddr m blkaddr META_POR of
        None \<Rightarrow> None
      | Some valid \<Rightarrow>
          if \<not> valid then Some (0, es)
          else (case rd_blk m blkaddr of
             None \<Rightarrow> Some (-1, es)
           | Some nb \<Rightarrow>
               if \<not> is_recoverable_dnode m nb then Some (0, es)
               else let es = note_fsync_inode nb blkaddr es
                    in if loop_cnt + 1 \<ge> free_blocks \<or> blkaddr = unat (footer_next_blkaddr nb) then Some (-1, es)
                       else find_fsync_loop m free_blocks (loop_cnt + 1) (unat (footer_next_blkaddr nb)) es))"
  by pat_completeness auto
termination
  by (relation "measure (\<lambda>(m, free_blocks, loop_cnt, blkaddr, es). free_blocks - loop_cnt)") auto

declare find_fsync_loop.simps [simp del]

definition find_fsync_inode :: "mount \<Rightarrow> (int \<times> fsync_inode_entry list) option" where
  "find_fsync_inode m =
     find_fsync_loop m (unat (of_nat (main_segments m * BLOCKS_PER_SEG) - of_nat (total_valid_block_count m) :: u32)) 0
       (NEXT_FREE_BLKADDR m CURSEG_WARM_NODE) []"

subsection \<open>Recording their blocks\<close>

definition record_block :: "nat \<Rightarrow> nat \<Rightarrow> seg_entry \<Rightarrow> seg_entry" where
  "record_block type offset se =
     se\<lparr>ckpt_type := if ckpt_valid_blocks se = 0 then type else ckpt_type se,
        ckpt_valid_blocks := ckpt_valid_blocks se + 1,
        ckpt_valid_map := snd (f2fs_set_bit offset (ckpt_valid_map se))\<rparr>"

fun record_data_loop :: "buf \<Rightarrow> nat \<Rightarrow> nat \<Rightarrow> mount \<Rightarrow> (int \<times> mount) option" where
  "record_data_loop nb ofs 0 m = Some (0, m)"
| "record_data_loop nb ofs (Suc k) m = do {
     blkaddr \<leftarrow> datablock_addr nb ofs;
     if \<not> is_valid_data_blkaddr blkaddr then record_data_loop nb (ofs + 1) k m
     else do {
       valid \<leftarrow> f2fs_is_valid_blkaddr m (unat blkaddr) META_POR;
       if \<not> valid then Some (-1, m)
       else do {
         segno \<leftarrow> GET_SEGNO m (unat blkaddr);
         se \<leftarrow> get_seg_entry m segno;
         offset \<leftarrow> OFFSET_IN_SEG m (unat blkaddr);
         if f2fs_test_bit offset (cur_valid_map se) \<or> f2fs_test_bit offset (ckpt_valid_map se)
         then record_data_loop nb (ofs + 1) k m
         else record_data_loop nb (ofs + 1) k (set_seg segno (record_block CURSEG_WARM_DATA offset) m)
       }
     }
   }"

definition do_record_fsync_data :: "mount \<Rightarrow> buf \<Rightarrow> nat \<Rightarrow> (int \<times> mount) option" where
  "do_record_fsync_data m nb blkaddr = do {
     segno \<leftarrow> GET_SEGNO m blkaddr;
     se \<leftarrow> get_seg_entry m segno;
     offset \<leftarrow> OFFSET_IN_SEG m blkaddr;
     if f2fs_test_bit offset (cur_valid_map se) then None
     else if f2fs_test_bit offset (ckpt_valid_map se) then None
     else do {
       let m = set_seg segno (record_block CURSEG_WARM_NODE offset) m;
       if IS_INODE nb \<and> i_inline nb AND F2FS_INLINE_DATA \<noteq> 0 then Some (0, m)
       else if ofs_of_node nb = XATTR_NODE_OFFSET then Some (0, m)
       else do {
         let start = start_bidx_of_node (m_feature m) (ofs_of_node nb) nb;
         n \<leftarrow> ADDRS_PER_PAGE m nb None;
         record_data_loop nb 0 (unat (start + of_nat n) - unat start) m
       }
     }
   }"

text \<open>\<open>traverse_dnodes\<close> follows the chain without counting. The outer option is \<open>None\<close> when it does
  not end, the inner one when an \<open>ASSERT\<close> fails.\<close>

partial_function (option) traverse_loop :: "mount \<Rightarrow> fsync_inode_entry list \<Rightarrow> nat \<Rightarrow> (int \<times> mount) option option" where
  "traverse_loop m es blkaddr =
     (case f2fs_is_valid_blkaddr m blkaddr META_POR of
        None \<Rightarrow> Some None
      | Some valid \<Rightarrow>
          if \<not> valid then Some (Some (0, m))
          else (case rd_blk m blkaddr of
             None \<Rightarrow> Some (Some (-1, m))
           | Some nb \<Rightarrow>
               if \<not> is_recoverable_dnode m nb then Some (Some (0, m))
               else (case get_fsync_inode es (footer_ino nb) of
                       None \<Rightarrow> traverse_loop m es (unat (footer_next_blkaddr nb))
                     | Some e \<Rightarrow>
                         (case do_record_fsync_data m nb blkaddr of
                            None \<Rightarrow> Some None
                          | Some (err, m) \<Rightarrow>
                              if err \<noteq> 0 then Some (Some (err, m))
                              else traverse_loop m (if fe_blkaddr e = blkaddr then del_fsync_inode (fe_ino e) es else es)
                                     (unat (footer_next_blkaddr nb))))))"

definition traverse_dnodes :: "mount \<Rightarrow> fsync_inode_entry list \<Rightarrow> (int \<times> mount) option option" where
  "traverse_dnodes m es = traverse_loop m es (NEXT_FREE_BLKADDR m CURSEG_WARM_NODE)"

definition record_fsync_data :: "mount \<Rightarrow> (int \<times> mount) option option" where
  "record_fsync_data m =
     (if \<not> need_fsync_data_record m then Some (Some (0, m))
      else case find_fsync_inode m of
        None \<Rightarrow> Some None
      | Some (ret, es) \<Rightarrow>
          if ret \<noteq> 0 then Some (Some (ret, m))
          else (case late_build_segment_manager m of
                  None \<Rightarrow> Some None
                | Some (ret, m) \<Rightarrow> if ret < 0 then Some (Some (ret, m)) else traverse_dnodes m es))"

subsection \<open>The table of NAT entries\<close>

definition dec32 :: "nat \<Rightarrow> nat" where "dec32 n = (if n = 0 then 2 ^ 32 - 1 else n - 1)"
definition inc32 :: "nat \<Rightarrow> nat" where "inc32 n = (n + 1) mod 2 ^ 32"

definition upd_nat_cnt :: "(nat \<Rightarrow> nat) \<Rightarrow> mount \<Rightarrow> mount" where
  "upd_nat_cnt f m = m\<lparr>chk := (chk m)\<lparr>valid_nat_entry_cnt := f (valid_nat_entry_cnt (chk m))\<rparr>\<rparr>"

definition set_nat_area :: "nat \<Rightarrow> mount \<Rightarrow> mount" where
  "set_nat_area nid m = m\<lparr>nat_area_bitmap := snd (f2fs_set_bit nid (nat_area_bitmap m))\<rparr>"

definition note_nat_entry :: "nat \<Rightarrow> nat_entry \<Rightarrow> mount \<Rightarrow> mount" where
  "note_nat_entry nid e m =
     (if nid = F2FS_NODE_INO m \<or> nid = F2FS_META_INO m
      then if ne_block_addr e \<noteq> 1 then set_nat_area nid (m\<lparr>m_bug_on := True\<rparr>) else m
      else if ne_block_addr e = 0 then m
      else let m = (if ne_ino e = 0 then m\<lparr>m_bug_on := True\<rparr> else m);
               m = (if unat (ne_ino e) = nid then m\<lparr>nat_valid_inode_cnt := inc32 (nat_valid_inode_cnt m)\<rparr> else m);
               m = (if nid = 0 then upd_nat_cnt dec32 (m\<lparr>m_bug_on := True\<rparr>) else m);
               m = upd_nat_cnt inc32 (set_nat_area nid m)
           in m\<lparr>fsck_entries := (fsck_entries m)(nid := e)\<rparr>)"

fun nat_area_blk_loop :: "buf \<Rightarrow> nat \<Rightarrow> nat \<Rightarrow> nat \<Rightarrow> mount \<Rightarrow> mount" where
  "nat_area_blk_loop b nid i 0 m = m"
| "nat_area_blk_loop b nid i (Suc k) m = nat_area_blk_loop b nid (i + 1) k (note_nat_entry (nid + i) (nat_blk_entry b i) m)"

fun nat_area_loop :: "nat \<Rightarrow> nat \<Rightarrow> mount \<Rightarrow> mount option" where
  "nat_area_loop block_off 0 m = Some m"
| "nat_area_loop block_off (Suc k) m = do {
     let block_addr = nat_blkaddr m + block_off div 512 * 512 * 2 + block_off mod 512;
     b \<leftarrow> rd_blk m (if f2fs_test_bit block_off (nat_bitmap m) then block_addr + BLOCKS_PER_SEG else block_addr);
     nat_area_loop (block_off + 1) k (nat_area_blk_loop b (block_off * NAT_ENTRY_PER_BLOCK) 0 NAT_ENTRY_PER_BLOCK m)
   }"

text \<open>A journal entry replaces the one of the table; a node number past the table is outside the arrays.\<close>

definition note_journal_nat :: "nat \<Rightarrow> nat_entry \<Rightarrow> mount \<Rightarrow> mount option" where
  "note_journal_nat nid e m =
     (if \<not> nid < nr_nat_entries m then None
      else let old = fsck_entries m nid;
               m = (if ne_block_addr old \<noteq> 0
                    then let m = (upd_nat_cnt dec32 m)\<lparr>nat_area_bitmap := snd (f2fs_clear_bit nid (nat_area_bitmap m))\<rparr>
                         in if unat (ne_ino old) = nid then m\<lparr>nat_valid_inode_cnt := dec32 (nat_valid_inode_cnt m)\<rparr> else m
                    else m);
               m = (if ne_block_addr e \<noteq> 0
                    then let m = (if ne_ino e = 0 then m\<lparr>m_bug_on := True\<rparr> else m);
                             m = (if unat (ne_ino e) = nid then m\<lparr>nat_valid_inode_cnt := inc32 (nat_valid_inode_cnt m)\<rparr> else m)
                         in upd_nat_cnt inc32 (set_nat_area nid m)
                    else m)
           in Some (m\<lparr>fsck_entries := (fsck_entries m)(nid := e)\<rparr>))"

fun nat_area_journal_loop :: "nat \<Rightarrow> nat \<Rightarrow> mount \<Rightarrow> mount option" where
  "nat_area_journal_loop i 0 m = Some m"
| "nat_area_journal_loop i (Suc k) m = do {
     m \<leftarrow> note_journal_nat (nid_in_journal (nat_journal m) i) (nat_in_journal (nat_journal m) i) m;
     nat_area_journal_loop (i + 1) k m
   }"

definition build_nat_area_bitmap :: "mount \<Rightarrow> mount option" where
  "build_nat_area_bitmap m = do {
     let nr_nat_blks = unat (sb_segment_count_nat (raw_super m)) div 2 * 512;
     let m = m\<lparr>nr_nat_entries := nr_nat_blks * NAT_ENTRY_PER_BLOCK, nat_area_bitmap := zero_buf,
               fsck_entries := (\<lambda>_. null_nat_entry)\<rparr>;
     m \<leftarrow> nat_area_loop 0 nr_nat_blks m;
     nat_area_journal_loop 0 (jnl_count (nat_journal m)) m
   }"

subsection \<open>Moving the address of a data block\<close>

definition drop_extent :: "u32 \<Rightarrow> buf \<Rightarrow> nat \<Rightarrow> mount \<Rightarrow> mount option" where
  "drop_extent oldaddr inode addr m =
     (let startaddr = le32_at inode 352; endaddr = startaddr + le32_at inode 356
      in if oldaddr \<ge> startaddr \<and> oldaddr < endaddr then write_inode (put_le32 356 0 inode) addr m else Some m)"

definition update_data_blkaddr :: "mount \<Rightarrow> nat \<Rightarrow> nat \<Rightarrow> u32 \<Rightarrow> mount option" where
  "update_data_blkaddr m nid ofs newaddr = do {
     ni \<leftarrow> get_node_info m nid;
     nb \<leftarrow> rd_blk m (unat (ni_blk_addr ni));
     oldaddr \<leftarrow> datablock_addr nb ofs;
     nb \<leftarrow> store_addr ofs newaddr nb;
     if IS_INODE nb
     then do {
       m \<leftarrow> write_inode nb (unat (ni_blk_addr ni)) m;
       drop_extent oldaddr nb (unat (ni_blk_addr ni)) m
     }
     else do {
       m \<leftarrow> wr_blk (unat (ni_blk_addr ni)) nb m;
       ni \<leftarrow> get_node_info m (unat (footer_ino nb));
       inode \<leftarrow> rd_blk m (unat (ni_blk_addr ni));
       drop_extent oldaddr inode (unat (ni_blk_addr ni)) m
     }
   }"

subsection \<open>Mounting\<close>

definition VERSION_LEN :: nat where "VERSION_LEN = 256"
definition VERSION_NAME_LEN :: nat where "VERSION_NAME_LEN = 252"
definition CHECK_PERIOD :: u32 where "CHECK_PERIOD = 3600 * 24 * 30"
definition F2FS_FEATURE_ENCRYPT :: u32 where "F2FS_FEATURE_ENCRYPT = 0x1"
definition F2FS_FEATURE_CASEFOLD :: u32 where "F2FS_FEATURE_CASEFOLD = 0x1000"
definition SB_MASK_ALL :: nat where "SB_MASK_ALL = 3"

fun newline_from :: "buf \<Rightarrow> nat \<Rightarrow> nat \<Rightarrow> nat" where
  "newline_from v i 0 = i"
| "newline_from v i (Suc k) = (if v i = 10 then i else newline_from v (i + 1) k)"

definition get_kernel_version :: "buf \<Rightarrow> buf" where
  "get_kernel_version v = (let i = newline_from v 0 VERSION_NAME_LEN in put_bytes i (VERSION_LEN + 1 - i) zero_buf v)"

definition version_eq :: "buf \<Rightarrow> buf \<Rightarrow> bool" where
  "version_eq a b \<longleftrightarrow> (\<forall>i \<in> set [0..<VERSION_NAME_LEN]. a i = b i)"

text \<open>The options of \<open>f2fs_configuration\<close> that only the mount reads, and the version of the running
  kernel.\<close>

record mount_opts =
  sector_size :: u32
  sectors_per_blk :: u32
  no_kernel_check :: bool
  kernel_version :: buf
  quota_fix :: bool
  layout :: bool
  s_encoding :: bool

definition put_superblock :: "mount \<Rightarrow> mount option" where
  "put_superblock m = do {
     (sb, d) \<leftarrow> update_superblock (raw_super m) SB_MASK_ALL (dsk m);
     Some (m\<lparr>raw_super := sb, dsk := d\<rparr>)
   }"

definition check_sector_size :: "mount_opts \<Rightarrow> mount \<Rightarrow> mount option" where
  "check_sector_size opt m =
     (let log_sectorsize = of_int (log_base_2 (sector_size opt));
          log_sectors_per_block = of_int (log_base_2 (sectors_per_blk opt))
      in if log_sectorsize = sb_log_sectorsize (raw_super m) \<and> log_sectors_per_block = sb_log_sectors_per_block (raw_super m)
         then Some m
         else put_superblock (m\<lparr>raw_super := put_le32 12 log_sectors_per_block (put_le32 8 log_sectorsize (raw_super m))\<rparr>))"

definition tune_sb_features :: "mount_opts \<Rightarrow> mount \<Rightarrow> (int \<times> mount) option" where
  "tune_sb_features opt m =
     (let wants = (\<lambda>f sb. sb_feature sb AND f = 0 \<and> m_feature m AND f \<noteq> 0);
          sb = raw_super m;
          enc = wants F2FS_FEATURE_ENCRYPT sb;
          sb = (if enc then put_le32 2180 (sb_feature sb OR F2FS_FEATURE_ENCRYPT) sb else sb);
          fold = wants F2FS_FEATURE_CASEFOLD sb
      in if fold \<and> \<not> s_encoding opt then Some (-1, m\<lparr>raw_super := sb\<rparr>)
         else let sb = (if fold then put_le32 2180 (sb_feature sb OR F2FS_FEATURE_CASEFOLD) sb else sb);
                  m = m\<lparr>raw_super := sb, m_feature := sb_feature sb\<rparr>
              in if enc \<or> fold then map_option (Pair 0) (put_superblock m) else Some (0, m))"

text \<open>The version check of \<open>fsck\<close>: how long ago the volume was checked, by the clock of the checkpoint.\<close>

definition stamp_version :: "mount_opts \<Rightarrow> config \<Rightarrow> mount \<Rightarrow> (config \<times> mount) option" where
  "stamp_version opt c m =
     (let sb = raw_super m;
          cur_time = (ucast (le64_at (ckpt m) 168) :: u32);
          prev_time = le32_at sb (1668 + VERSION_NAME_LEN);
          same = version_eq (get_kernel_version (put_bytes 0 VERSION_NAME_LEN (at_off 1668 sb) zero_buf)) (kernel_version opt);
          recent = (prev_time \<noteq> 0 \<and> cur_time > prev_time)
      in if same \<and> recent \<and> cur_time - prev_time < CHECK_PERIOD then Some (c, m)
         else let c = (if same \<and> recent then c\<lparr>auto_fix := False, fix_on := True\<rparr> else c);
                  sb = (if same then sb else put_bytes 1668 VERSION_NAME_LEN (kernel_version opt) sb)
              in map_option (Pair c) (put_superblock (m\<lparr>raw_super := put_le32 (1668 + VERSION_NAME_LEN) cur_time sb\<rparr>)))"

definition mount_super :: "bool \<Rightarrow> disk \<Rightarrow> (buf option \<times> disk) option" where
  "mount_super zoned d = do {
     (ret, sb, d) \<leftarrow> validate_super_block zoned 0 d;
     if ret = 0 then Some (sb, d)
     else do {
       (ret, sb, d) \<leftarrow> validate_super_block zoned 1 d;
       Some (if ret = 0 then sb else None, d)
     }
   }"

text \<open>The end of \<open>f2fs_do_mount\<close>, once the fsynced data is recorded.\<close>

definition mount_late :: "config \<Rightarrow> mount \<Rightarrow> (int \<times> config \<times> mount) option" where
  "mount_late c m = do {
     let (go, c) = f2fs_should_proceed (raw_super m) (cp_ckpt_flags (ckpt m)) (c\<lparr>fix_on := m_fix_on m, bug_on := m_bug_on m\<rparr>);
     let m = m\<lparr>m_fix_on := fix_on c\<rparr>;
     if \<not> go then Some (1, c, m)
     else do {
       (ret, m) \<leftarrow> late_build_segment_manager m;
       if ret < 0 then Some (-1, c, m)
       else do {
         m \<leftarrow> f2fs_late_init_nid_bitmap m;
         if func m = FSCK \<and> is_set_ckpt_flags (ckpt m) CP_NAT_BITS_FLAG
         then do {
           let (err, m) = check_nat_bits m (ckpt m);
           m \<leftarrow> (if err \<noteq> 0 \<and> m_fix_on m then write_nat_bits m (ckpt m) (cur_cp m) else Some m);
           Some (0, c, m)
         }
         else Some (0, c, m)
       }
     }
   }"

text \<open>The part of \<open>f2fs_do_mount\<close> after the checkpoint is chosen and checked: building the managers.\<close>

definition mount_managers :: "config \<Rightarrow> mount \<Rightarrow> (int \<times> config \<times> mount) option" where
  "mount_managers c m = do {
     let m = (if m_feature m AND F2FS_FEATURE_INODE_CHKSUM \<noteq> 0
              then m\<lparr>m_chksum_seed := f2fs_cal_crc32 (-1) (at_off 108 (raw_super m)) 16\<rparr> else m);
     let cp = ckpt m;
     let m = m\<lparr>total_valid_node_count := unat (cp_valid_node_count cp), total_valid_inode_count := unat (cp_valid_inode_count cp),
               user_block_count := unat (ucast (cp_user_block_count cp) :: u32),
               total_valid_block_count := unat (ucast (cp_valid_block_count cp) :: u32)\<rparr>;
     m \<leftarrow> early_build_segment_manager m;
     let m = init_node_manager m;
     r \<leftarrow> record_fsync_data m;
     (ret, m) \<leftarrow> r;
     if ret \<noteq> 0 then Some (-1, c, m)
     else mount_late c m
   }"

definition mount_checked :: "mount_opts \<Rightarrow> config \<Rightarrow> mount \<Rightarrow> (int \<times> config \<times> mount) option" where
  "mount_checked opt c m =
     (if func m \<noteq> FSCK \<and> func m \<noteq> DUMP \<and> \<not> is_set_ckpt_flags (ckpt m) CP_UMOUNT_FLAG then Some (-1, c, m)
      else do {
        (c, m) \<leftarrow> (if func m = FSCK \<and> \<not> no_kernel_check opt then stamp_version opt c m else Some (c, m));
        let c = (if quota_fix opt \<and> cp_ckpt_flags (ckpt m) AND CP_QUOTA_NEED_FSCK_FLAG \<noteq> 0 then c\<lparr>fix_on := True\<rparr> else c);
        let m = m\<lparr>m_fix_on := fix_on c, m_bug_on := bug_on c\<rparr>;
        if layout opt then Some (1, c, m)
        else do {
          (ret, m) \<leftarrow> tune_sb_features opt m;
          if ret \<noteq> 0 then Some (-1, c, m) else mount_managers c m
        }
      })"

definition f2fs_do_mount :: "(nat \<Rightarrow> bool) \<Rightarrow> mount_opts \<Rightarrow> config \<Rightarrow> mount \<Rightarrow> (int \<times> config \<times> mount) option" where
  "f2fs_do_mount dev_ok opt c m = do {
     (sb, d) \<leftarrow> mount_super (zoned_hm m) (dsk m);
     let m = m\<lparr>dsk := d\<rparr>;
     case sb of
       None \<Rightarrow> Some (-1, c, m)
     | Some sb \<Rightarrow> do {
         m \<leftarrow> check_sector_size opt (m\<lparr>raw_super := sb\<rparr>);
         (sbi, devs) \<leftarrow> init_sb_info dev_ok (raw_super m);
         let m = m\<lparr>m_segs_per_sec := unat (segs_per_sec sbi), total_node_count := unat (sb_info.total_node_count sbi)\<rparr>;
         (ret, found) \<leftarrow> get_valid_checkpoint sbi (raw_super m) (dsk m);
         case found of
           None \<Rightarrow> Some (-1, c, m)
         | Some (cp, n, version) \<Rightarrow> do {
             (ret, sb, cp, c, d) \<leftarrow> sanity_check_ckpt sbi (raw_super m) cp (c\<lparr>bug_on := False\<rparr>) (dsk m);
             let m = m\<lparr>raw_super := sb, ckpt := cp, cur_cp := n, dsk := d\<rparr>;
             if ret \<noteq> 0 then Some (-1, c, m) else mount_checked opt c m
           }
       }
   }"

subsection \<open>The recovery returns\<close>

text \<open>What the walk along the chain reads; nothing else of the mount matters to it.\<close>

definition same_chain :: "mount \<Rightarrow> mount \<Rightarrow> bool" where
  "same_chain m m' \<longleftrightarrow> dsk m' = dsk m \<and> ckpt m' = ckpt m \<and> main_blkaddr m' = main_blkaddr m \<and>
     seg0_blkaddr m' = seg0_blkaddr m \<and> main_segments m' = main_segments m \<and>
     cursegs m' CURSEG_WARM_NODE = cursegs m CURSEG_WARM_NODE"

lemma same_chain_refl [simp]: "same_chain m m"
  by (simp add: same_chain_def)

lemma same_chain_trans [trans]: "same_chain m m' \<Longrightarrow> same_chain m' m'' \<Longrightarrow> same_chain m m''"
  by (simp add: same_chain_def)

lemma same_chain_set_seg [simp]: "same_chain m (set_seg segno f m)" "same_chain m (set_seg_entry segno se m)"
  by (simp_all add: same_chain_def set_seg_def set_seg_entry_def)

lemma same_chain_reads:
  assumes "same_chain m m'"
  shows "f2fs_is_valid_blkaddr m' a META_POR = f2fs_is_valid_blkaddr m a META_POR" "rd_blk m' a = rd_blk m a"
    "is_recoverable_dnode m' = is_recoverable_dnode m"
    "NEXT_FREE_BLKADDR m' CURSEG_WARM_NODE = NEXT_FREE_BLKADDR m CURSEG_WARM_NODE"
  using assms by (simp_all add: same_chain_def f2fs_is_valid_blkaddr_def MAX_BLKADDR_def rd_blk_def is_recoverable_dnode_def [abs_def]
      NEXT_FREE_BLKADDR_def START_BLOCK_def)

lemma sit_scan_same_chain: "sit_scan_loop m segno k = Some m' \<Longrightarrow> same_chain m m'"
proof (induction k arbitrary: m segno)
  case (Suc k)
  then obtain b where b: "get_current_sit_page m segno = Some b" by (cases "get_current_sit_page m segno") auto
  define c where "c = check_block_count segno (sit_blk_entry b (SIT_ENTRY_OFFSET segno)) m"
  have "same_chain m c" by (simp add: c_def check_block_count_def same_chain_def)
  then show ?case using Suc.prems Suc.IH [of _ "segno + 1"] b
    by (auto simp: Let_def c_def [symmetric] intro: same_chain_trans [OF same_chain_trans] same_chain_set_seg)
qed simp

lemma sit_read_same_chain: "sit_read_loop m start = Some m' \<Longrightarrow> same_chain m m'"
proof (induction rule: sit_read_loop.raw_induct [rotated, consumes 1, case_names step])
  case (step f m start m')
  then show ?case
    by (auto simp: Let_def split: bind_splits if_splits dest!: sit_scan_same_chain intro: same_chain_trans)
qed

lemma sit_journal_same_chain: "same_chain m (sit_journal_loop m i k)"
proof (induction k arbitrary: m i)
  case (Suc k)
  have cut: "same_chain m ((upd_sum_blk CURSEG_COLD_DATA f m)\<lparr>m_fix_on := b\<rparr>)" for f b
    by (simp add: same_chain_def upd_sum_blk_def CURSEG_COLD_DATA_def CURSEG_WARM_NODE_def)
  have chk: "same_chain m (check_block_count segno sit m)" for segno sit
    by (simp add: check_block_count_def same_chain_def)
  have upd: "same_chain m (set_seg_entry segno se (check_block_count segno sit m))" for segno se sit
    by (rule same_chain_trans [OF chk same_chain_set_seg(2)])
  show ?case
    by (simp add: Let_def same_chain_trans [OF cut Suc.IH] same_chain_trans [OF upd Suc.IH])
qed simp

lemma late_build_same_chain:
  assumes "late_build_segment_manager m = Some (r, m')" shows "same_chain m m'"
proof (cases "seg_manager_done m")
  case False
  define m0 where "m0 = m\<lparr>seg_manager_done := True\<rparr>"
  then obtain m1 where m1: "sit_read_loop m0 0 = Some m1" "build_sit_entries m0 = Some m'"
    using assms False by (auto simp: late_build_segment_manager_def build_sit_entries_def Let_def split: bind_splits)
  define m2 where "m2 = (if jnl_count (sit_journal m1) > SIT_JOURNAL_ENTRIES
      then (upd_sum_blk CURSEG_COLD_DATA (set_jnl_count SIT_JOURNAL_ENTRIES) m1)\<lparr>m_fix_on := True\<rparr> else m1)"
  have "same_chain m m0" by (simp add: m0_def same_chain_def)
  also have "same_chain m0 m1" by (rule sit_read_same_chain [OF m1(1)])
  also have "same_chain m1 m2"
    by (simp add: m2_def same_chain_def upd_sum_blk_def CURSEG_COLD_DATA_def CURSEG_WARM_NODE_def)
  also have "same_chain m2 (sit_journal_loop m2 0 (jnl_count (sit_journal m2)))" by (rule sit_journal_same_chain)
  also have "\<dots> = m'" using m1 by (simp add: build_sit_entries_def m2_def Let_def)
  finally show ?thesis .
qed (use assms in \<open>auto simp: late_build_segment_manager_def\<close>)

lemma record_data_same_chain: "record_data_loop nb ofs k m = Some (r, m') \<Longrightarrow> same_chain m m'"
proof (induction k arbitrary: m ofs)
  case (Suc k)
  then show ?case
    by (auto split: bind_splits if_splits intro: same_chain_trans [OF same_chain_set_seg(1)])
qed simp

lemma do_record_same_chain: "do_record_fsync_data m nb a = Some (r, m') \<Longrightarrow> same_chain m m'"
  by (auto simp: do_record_fsync_data_def Let_def split: bind_splits if_splits
      dest!: record_data_same_chain elim: same_chain_trans [OF same_chain_set_seg(1)])

lemma traverse_loop_returns:
  assumes "find_fsync_loop m free n a es = Some (0, es')" and "same_chain m m'"
  shows "\<exists>r. traverse_loop m' fs a = Some r"
  using assms
proof (induction m free n a es arbitrary: m' fs rule: find_fsync_loop.induct)
  case (1 m free n a es)
  note eq = same_chain_reads [OF "1.prems"(2)]
  show ?case
  proof (cases "f2fs_is_valid_blkaddr m a META_POR = Some True \<and> (\<exists>nb. rd_blk m a = Some nb \<and> is_recoverable_dnode m nb)")
    case False
    then show ?thesis
      by (subst traverse_loop.simps) (auto simp: eq split: option.splits)
  next
    case True
    then obtain nb where nb: "f2fs_is_valid_blkaddr m a META_POR = Some True" "rd_blk m a = Some nb" "is_recoverable_dnode m nb"
      by blast
    define es1 where "es1 = note_fsync_inode nb a es"
    have next': "\<not> (n + 1 \<ge> free \<or> a = unat (footer_next_blkaddr nb))"
      "find_fsync_loop m free (n + 1) (unat (footer_next_blkaddr nb)) es1 = Some (0, es')"
      using "1.prems"(1) nb by (auto simp: find_fsync_loop.simps [of m free n a es] es1_def Let_def split: if_splits)
    have step: "\<exists>r. traverse_loop k gs (unat (footer_next_blkaddr nb)) = Some r" if "same_chain m k" for k gs
      using "1.IH" [OF nb(1) _ nb(2) _ es1_def next'] that nb(3) by simp
    show ?thesis
      using step [OF "1.prems"(2)] step [OF same_chain_trans [OF "1.prems"(2) do_record_same_chain]] nb
      by (subst traverse_loop.simps) (auto simp: eq split: option.splits)
  qed
qed


subsection \<open>The table of fsck is the current NAT\<close>

definition same_nat :: "mount \<Rightarrow> mount \<Rightarrow> bool" where
  "same_nat m m' \<longleftrightarrow> dsk m' = dsk m \<and> raw_super m' = raw_super m \<and> nat_blkaddr m' = nat_blkaddr m \<and>
     nat_bitmap m' = nat_bitmap m \<and> cursegs m' = cursegs m \<and> nr_nat_entries m' = nr_nat_entries m"

lemma same_nat_refl [simp]: "same_nat m m"
  by (simp add: same_nat_def)

lemma same_nat_trans [trans]: "same_nat m m' \<Longrightarrow> same_nat m' m'' \<Longrightarrow> same_nat m m''"
  by (simp add: same_nat_def)

lemma same_nat_views:
  assumes "same_nat m m'"
  shows "F2FS_NODE_INO m' = F2FS_NODE_INO m" "F2FS_META_INO m' = F2FS_META_INO m" "rd_blk m' = rd_blk m"
    "nat_journal m' = nat_journal m" "nat_on_disk m' = nat_on_disk m" "current_nat_addr m' = current_nat_addr m"
  using assms by (simp_all add: same_nat_def F2FS_NODE_INO_def F2FS_META_INO_def rd_blk_def [abs_def] nat_journal_def
      nat_on_disk_def [abs_def] current_nat_addr_def [abs_def])

text \<open>What the table says of a node number: its bit and its entry.\<close>

definition area_at :: "mount \<Rightarrow> nat \<Rightarrow> bool \<times> nat_entry" where
  "area_at m x = (f2fs_test_bit x (nat_area_bitmap m), fsck_entries m x)"

definition plain_nid :: "mount \<Rightarrow> nat \<Rightarrow> bool" where
  "plain_nid m x \<longleftrightarrow> x \<noteq> F2FS_NODE_INO m \<and> x \<noteq> F2FS_META_INO m"

lemma plain_nid_same: "same_nat m m' \<Longrightarrow> plain_nid m' x = plain_nid m x"
  by (simp add: plain_nid_def same_nat_views)

lemma note_nat_entry_same: "same_nat m (note_nat_entry nid e m)"
  by (simp add: same_nat_def note_nat_entry_def Let_def upd_nat_cnt_def set_nat_area_def)

lemma note_nat_entry_area:
  "plain_nid m x \<Longrightarrow>
   area_at (note_nat_entry nid e m) x = (if x = nid \<and> ne_block_addr e \<noteq> 0 then (True, e) else area_at m x)"
  by (auto simp: plain_nid_def area_at_def note_nat_entry_def Let_def upd_nat_cnt_def set_nat_area_def f2fs_test_set_bit)

lemma nat_area_blk_loop_same: "same_nat m (nat_area_blk_loop b nid i k m)"
  by (induction k arbitrary: i m) (auto intro: same_nat_trans [OF note_nat_entry_same])

lemma nat_area_blk_loop_area:
  "plain_nid m x \<Longrightarrow>
   area_at (nat_area_blk_loop b nid i k m) x =
     (if nid + i \<le> x \<and> x < nid + i + k \<and> ne_block_addr (nat_blk_entry b (x - nid)) \<noteq> 0
      then (True, nat_blk_entry b (x - nid)) else area_at m x)"
proof (induction k arbitrary: i m)
  case (Suc k)
  have "plain_nid (note_nat_entry (nid + i) (nat_blk_entry b i) m) x"
    using Suc.prems plain_nid_same [OF note_nat_entry_same] by simp
  note ih = Suc.IH [OF this, of "i + 1"] and step = note_nat_entry_area [OF Suc.prems, of "nid + i" "nat_blk_entry b i"]
  show ?case
  proof (cases "x = nid + i")
    case True
    with ih step show ?thesis by simp
  next
    case False
    then have "nid + (i + 1) \<le> x \<longleftrightarrow> nid + i \<le> x" by arith
    with ih step False show ?thesis by (simp add: add.assoc)
  qed
qed auto

lemma nat_area_loop_area:
  assumes "plain_nid m x" and "\<And>y. y < (off + k) * NAT_ENTRY_PER_BLOCK \<Longrightarrow> current_nat_addr m y \<le> last_blk (dsk m)"
  shows "\<exists>m'. nat_area_loop off k m = Some m' \<and> same_nat m m' \<and>
    area_at m' x = (if off * NAT_ENTRY_PER_BLOCK \<le> x \<and> x < (off + k) * NAT_ENTRY_PER_BLOCK \<and> ne_block_addr (nat_on_disk m x) \<noteq> 0
      then (True, nat_on_disk m x) else area_at m x)"
  using assms
proof (induction k arbitrary: off m)
  case (Suc k)
  define a where "a = current_nat_addr m (off * NAT_ENTRY_PER_BLOCK)"
  define b where "b = blocks (dsk m) a"
  define n where "n = nat_area_blk_loop b (off * NAT_ENTRY_PER_BLOCK) 0 NAT_ENTRY_PER_BLOCK m"
  have a: "(if f2fs_test_bit off (nat_bitmap m) then nat_blkaddr m + off div 512 * 512 * 2 + off mod 512 + BLOCKS_PER_SEG
       else nat_blkaddr m + off div 512 * 512 * 2 + off mod 512) = a"
    by (simp add: a_def current_nat_addr_def Let_def NAT_BLOCK_OFFSET_def NAT_ENTRY_PER_BLOCK_def BLOCKS_PER_SEG_def)
  have rd: "rd_blk m a = Some b"
    using Suc.prems(2) [of "off * NAT_ENTRY_PER_BLOCK"]
    by (simp add: rd_blk_Some a_def b_def NAT_ENTRY_PER_BLOCK_def)
  have same: "same_nat m n" by (simp add: n_def nat_area_blk_loop_same)
  have ent: "nat_blk_entry b (x - off * NAT_ENTRY_PER_BLOCK) = nat_on_disk m x"
    if x: "off * NAT_ENTRY_PER_BLOCK \<le> x" "x < (off + 1) * NAT_ENTRY_PER_BLOCK"
  proof -
    have d: "x div NAT_ENTRY_PER_BLOCK = off" using x by (auto simp: NAT_ENTRY_PER_BLOCK_def)
    moreover have "x mod NAT_ENTRY_PER_BLOCK = x - off * NAT_ENTRY_PER_BLOCK"
      using minus_div_mult_eq_mod [of x NAT_ENTRY_PER_BLOCK] unfolding d by simp
    ultimately have "x div NAT_ENTRY_PER_BLOCK = off" "x mod NAT_ENTRY_PER_BLOCK = x - off * NAT_ENTRY_PER_BLOCK" by auto
    then show ?thesis
      by (simp add: nat_on_disk_def b_def a_def current_nat_addr_def NAT_BLOCK_OFFSET_def NAT_ENTRY_PER_BLOCK_def)
  qed
  have n: "area_at n x = (if off * NAT_ENTRY_PER_BLOCK \<le> x \<and> x < (off + 1) * NAT_ENTRY_PER_BLOCK \<and> ne_block_addr (nat_on_disk m x) \<noteq> 0
      then (True, nat_on_disk m x) else area_at m x)"
    using nat_area_blk_loop_area [OF Suc.prems(1), of b "off * NAT_ENTRY_PER_BLOCK" 0 NAT_ENTRY_PER_BLOCK] ent
    by (auto simp: n_def)
  have "\<exists>m'. nat_area_loop (off + 1) k n = Some m' \<and> same_nat n m' \<and>
    area_at m' x = (if (off + 1) * NAT_ENTRY_PER_BLOCK \<le> x \<and> x < (off + 1 + k) * NAT_ENTRY_PER_BLOCK \<and> ne_block_addr (nat_on_disk n x) \<noteq> 0
      then (True, nat_on_disk n x) else area_at n x)"
  proof (rule Suc.IH)
    show "plain_nid n x" using Suc.prems(1) plain_nid_same [OF same] by simp
    show "current_nat_addr n y \<le> last_blk (dsk n)" if "y < (off + 1 + k) * NAT_ENTRY_PER_BLOCK" for y
      using Suc.prems(2) [of y] that same by (simp add: same_nat_views(6) [OF same]) (simp add: same_nat_def)
  qed
  then obtain m' where m': "nat_area_loop (off + 1) k n = Some m'" "same_nat n m'"
    "area_at m' x = (if (off + 1) * NAT_ENTRY_PER_BLOCK \<le> x \<and> x < (off + 1 + k) * NAT_ENTRY_PER_BLOCK \<and> ne_block_addr (nat_on_disk m x) \<noteq> 0
      then (True, nat_on_disk m x) else area_at n x)"
    by (auto simp: same_nat_views(5) [OF same])
  have "nat_area_loop off (Suc k) m = Some m'"
    using m'(1) rd unfolding nat_area_loop.simps Let_def a by (simp add: n_def)
  moreover have "area_at m' x = (if off * NAT_ENTRY_PER_BLOCK \<le> x \<and> x < (off + Suc k) * NAT_ENTRY_PER_BLOCK \<and> ne_block_addr (nat_on_disk m x) \<noteq> 0
      then (True, nat_on_disk m x) else area_at m x)"
    unfolding m'(3) n by (auto simp: NAT_ENTRY_PER_BLOCK_def)
  ultimately show ?case using same_nat_trans [OF same m'(2)] by blast
qed (auto simp: NAT_ENTRY_PER_BLOCK_def)

lemma note_journal_nat_area:
  assumes "nid < nr_nat_entries m" and "fst (area_at m x) \<longleftrightarrow> ne_block_addr (snd (area_at m x)) \<noteq> 0"
  shows "\<exists>m'. note_journal_nat nid e m = Some m' \<and> same_nat m m' \<and>
    area_at m' x = (if x = nid then (ne_block_addr e \<noteq> 0, e) else area_at m x)"
  using assms
  by (auto simp: note_journal_nat_def Let_def area_at_def same_nat_def upd_nat_cnt_def set_nat_area_def
      f2fs_test_set_bit f2fs_test_clear_bit)

lemma nat_area_journal_loop_area:
  assumes "\<forall>j \<in> {i..<i + k}. nid_in_journal (nat_journal m) j < nr_nat_entries m"
    and "inj_on (nid_in_journal (nat_journal m)) {i..<i + k}"
    and "fst (area_at m x) \<longleftrightarrow> ne_block_addr (snd (area_at m x)) \<noteq> 0"
  shows "\<exists>m'. nat_area_journal_loop i k m = Some m' \<and> same_nat m m' \<and>
    area_at m' x = (case find_nat_in_journal (nat_journal m) x i k of
        Some j \<Rightarrow> (ne_block_addr (nat_in_journal (nat_journal m) j) \<noteq> 0, nat_in_journal (nat_journal m) j)
      | None \<Rightarrow> area_at m x)"
  using assms
proof (induction k arbitrary: i m)
  case (Suc k)
  let ?J = "nat_journal m"
  obtain n where n: "note_journal_nat (nid_in_journal ?J i) (nat_in_journal ?J i) m = Some n" "same_nat m n"
    "area_at n x = (if x = nid_in_journal ?J i then (ne_block_addr (nat_in_journal ?J i) \<noteq> 0, nat_in_journal ?J i) else area_at m x)"
    using note_journal_nat_area [of "nid_in_journal ?J i" m x "nat_in_journal ?J i"] Suc.prems(1,3) by auto
  have j: "nat_journal n = ?J" "nr_nat_entries n = nr_nat_entries m"
    using n(2) same_nat_views(4) [OF n(2)] by (simp_all add: same_nat_def)
  have inj: "inj_on (nid_in_journal ?J) {i + 1..<i + 1 + k}"
    by (rule inj_on_subset [OF Suc.prems(2)]) auto
  obtain m' where m': "nat_area_journal_loop (i + 1) k n = Some m'" "same_nat n m'"
    "area_at m' x = (case find_nat_in_journal ?J x (i + 1) k of
        Some j \<Rightarrow> (ne_block_addr (nat_in_journal ?J j) \<noteq> 0, nat_in_journal ?J j) | None \<Rightarrow> area_at n x)"
    using Suc.IH [of "i + 1" n] Suc.prems(1,3) inj n(3) unfolding j by (auto split: if_splits)
  have "find_nat_in_journal ?J x (i + 1) k = None" if "x = nid_in_journal ?J i"
    using that inj_onD [OF Suc.prems(2), of i] unfolding find_nat_in_journal_None by fastforce
  then show ?case
    using n m' same_nat_trans [OF n(2) m'(2)] by (auto split: option.splits)
qed simp

text \<open>Property C33. The table that fsck builds of the NAT is the NAT: for every node number other than
  the two reserved ones, its bit is set exactly when the current entry, the journal's where it has one
  and the disk's otherwise, has a block address, and the table then holds that entry.\<close>

theorem build_nat_area_bitmap_exact:
  assumes "nat_wf m" and "nat_journal_ok m" and "nat_blocks m = unat (sb_segment_count_nat (raw_super m)) div 2 * 512"
    and "x < max_nid m" and "x \<noteq> F2FS_NODE_INO m" and "x \<noteq> F2FS_META_INO m"
  shows "\<exists>m' e. build_nat_area_bitmap m = Some m' \<and> get_nat_entry m x = Some e \<and>
    (f2fs_test_bit x (nat_area_bitmap m') \<longleftrightarrow> ne_block_addr e \<noteq> 0) \<and>
    (ne_block_addr e \<noteq> 0 \<longrightarrow> fsck_entries m' x = e) \<and> ne_block_addr (fsck_entries m' x) = ne_block_addr e"
proof -
  define n where "n = unat (sb_segment_count_nat (raw_super m)) div 2 * 512"
  define m0 where "m0 = m\<lparr>nr_nat_entries := n * NAT_ENTRY_PER_BLOCK, nat_area_bitmap := zero_buf, fsck_entries := (\<lambda>_. null_nat_entry)\<rparr>"
  have views: "nat_on_disk m0 = nat_on_disk m" "current_nat_addr m0 = current_nat_addr m" "nat_journal m0 = nat_journal m"
    by (simp_all add: m0_def nat_on_disk_def [abs_def] current_nat_addr_def [abs_def] nat_journal_def)
  have max: "max_nid m = n * NAT_ENTRY_PER_BLOCK" using assms(1,3) by (simp add: nat_wf_def n_def)
  have zero: "area_at m0 x = (False, null_nat_entry)"
    by (simp add: area_at_def m0_def f2fs_test_bit_def zero_buf_def)
  obtain m1 where m1: "nat_area_loop 0 n m0 = Some m1" "same_nat m0 m1"
    "area_at m1 x = (if ne_block_addr (nat_on_disk m x) \<noteq> 0 then (True, nat_on_disk m x) else (False, null_nat_entry))"
  proof -
    have "plain_nid m0 x" using assms(5,6) by (simp add: plain_nid_def m0_def F2FS_NODE_INO_def F2FS_META_INO_def)
    moreover have "current_nat_addr m0 y \<le> last_blk (dsk m0)" if "y < (0 + n) * NAT_ENTRY_PER_BLOCK" for y
      using current_nat_addr_range(3) [OF assms(1), of y] that views(2) by (simp add: max m0_def)
    ultimately show ?thesis
      using nat_area_loop_area [of m0 x 0 n] that assms(4) by (auto simp: views zero max)
  qed
  have j: "nat_journal m1 = nat_journal m" "nr_nat_entries m1 = max_nid m"
    using same_nat_views(4) [OF m1(2)] m1(2) by (simp_all add: views(3)) (simp add: same_nat_def m0_def max)
  obtain m2 where m2: "nat_area_journal_loop 0 (jnl_count (nat_journal m)) m1 = Some m2"
    "area_at m2 x = (case find_nat_in_journal (nat_journal m) x 0 (jnl_count (nat_journal m)) of
        Some j \<Rightarrow> (ne_block_addr (nat_in_journal (nat_journal m) j) \<noteq> 0, nat_in_journal (nat_journal m) j)
      | None \<Rightarrow> area_at m1 x)"
  proof -
    have "fst (area_at m1 x) \<longleftrightarrow> ne_block_addr (snd (area_at m1 x)) \<noteq> 0" by (simp add: m1(3) null_nat_entry_def)
    with nat_area_journal_loop_area [of 0 "jnl_count (nat_journal m)" m1 x] assms(2) that show ?thesis
      unfolding j by (auto simp: nat_journal_ok_def)
  qed
  have "build_nat_area_bitmap m = Some m2"
    using m1(1) m2(1) j by (simp add: build_nat_area_bitmap_def n_def m0_def Let_def)
  moreover have "\<exists>e. get_nat_entry m x = Some e \<and> (fst (area_at m2 x) \<longleftrightarrow> ne_block_addr e \<noteq> 0) \<and>
      (ne_block_addr e \<noteq> 0 \<longrightarrow> snd (area_at m2 x) = e) \<and> ne_block_addr (snd (area_at m2 x)) = ne_block_addr e"
    using get_nat_entry_eq [OF assms(1,4)] m1(3) m2(2) by (auto simp: null_nat_entry_def split: option.splits)
  ultimately show ?thesis by (auto simp: area_at_def)
qed

theorem build_nat_area_bitmap_exact_witness:
  "\<exists>m'. build_nat_area_bitmap (demo_mount demo_journal) = Some m' \<and> f2fs_test_bit 7 (nat_area_bitmap m') \<and>
     fsck_entries m' 7 = \<lparr>ne_version = 0, ne_ino = 7, ne_block_addr = 4100\<rparr>"
proof -
  have "nat_blocks (demo_mount demo_journal) = unat (sb_segment_count_nat (raw_super (demo_mount demo_journal))) div 2 * 512"
    by (simp add: demo_mount_def sample_sb)
  then show ?thesis
    using build_nat_area_bitmap_exact [OF demo_nat(1,4), of 7] by (auto simp: demo_nat demo_inos demo_get_nat_entry)
qed

subsection \<open>What a mount establishes\<close>

text \<open>The part of the mount that is fixed once the managers are built.\<close>

definition geom :: "mount \<Rightarrow> buf \<times> (nat \<times> nat \<times> nat \<times> nat \<times> nat \<times> nat) \<times> (nat \<times> nat \<times> nat) \<times> (nat \<Rightarrow> nat \<times> nat)" where
  "geom m = (raw_super m, (main_segments m, main_blkaddr m, ssa_blkaddr m, sit_base_addr m, sit_blocks m, m_segs_per_sec m),
     (nat_blkaddr m, nat_blocks m, max_nid m), (\<lambda>i. (cs_segno (cursegs m i), next_blkoff (cursegs m i))))"

definition mount_ok :: "mount \<Rightarrow> bool" where
  "mount_ok m \<longleftrightarrow> (let sb = raw_super m in
     main_segments m = unat (sb_segment_count_main sb) \<and> main_blkaddr m = unat (sb_main_blkaddr sb) \<and>
     ssa_blkaddr m = unat (sb_ssa_blkaddr sb) \<and> sit_base_addr m = unat (sb_sit_blkaddr sb) \<and>
     sit_blocks m = unat (sb_segment_count_sit sb) div 2 * BLOCKS_PER_SEG \<and>
     nat_blkaddr m = unat (sb_nat_blkaddr sb) \<and> nat_blocks m = unat (sb_segment_count_nat sb) div 2 * BLOCKS_PER_SEG \<and>
     max_nid m = NAT_ENTRY_PER_BLOCK * nat_blocks m \<and>
     0 < m_segs_per_sec m \<and> m_segs_per_sec m = unat (sb_segs_per_sec sb) \<and> sb_log_blocks_per_seg sb = 9 \<and>
     (\<forall>i < 6. cs_segno (cursegs m i) < main_segments m \<and> next_blkoff (cursegs m i) < BLOCKS_PER_SEG))"

named_theorems geom_simps

lemma geom_updates [geom_simps]:
  "geom (upd_sum_blk t f m) = geom m" "geom (set_seg segno g m) = geom m" "geom (set_seg_entry segno se m) = geom m"
  "geom (m\<lparr>m_fix_on := b\<rparr>) = geom m" "geom (m\<lparr>m_bug_on := b\<rparr>) = geom m" "geom (m\<lparr>m_bug_nat_bits := b\<rparr>) = geom m"
  "geom (m\<lparr>nid_bitmap := v\<rparr>) = geom m" "geom (m\<lparr>seg_manager_done := b\<rparr>) = geom m" "geom (m\<lparr>dsk := d\<rparr>) = geom m"
  "geom (check_block_count segno sit m) = geom m"
  by (auto simp: geom_def upd_sum_blk_def set_seg_def set_seg_entry_def check_block_count_def fun_eq_iff)

lemma wr_blk_geom: "wr_blk a b m = Some m' \<Longrightarrow> geom m' = geom m"
  by (auto simp: wr_blk_def geom_updates)

lemma mount_ok_geom: "geom m' = geom m \<Longrightarrow> mount_ok m' = mount_ok m"
proof -
  assume g: "geom m' = geom m"
  then have "snd (snd (snd (geom m'))) i = snd (snd (snd (geom m))) i" for i by simp
  then have "cs_segno (cursegs m' i) = cs_segno (cursegs m i)" "next_blkoff (cursegs m' i) = next_blkoff (cursegs m i)" for i
    by (simp_all add: geom_def)
  with g show ?thesis by (simp add: geom_def mount_ok_def)
qed

lemma sit_scan_geom: "sit_scan_loop m segno k = Some m' \<Longrightarrow> geom m' = geom m"
  by (induction k arbitrary: m segno) (auto simp: Let_def geom_simps split: bind_splits)

lemma sit_read_geom: "sit_read_loop m start = Some m' \<Longrightarrow> geom m' = geom m"
proof (induction rule: sit_read_loop.raw_induct [rotated, consumes 1, case_names step])
  case (step f m start m')
  then show ?case by (auto simp: Let_def split: bind_splits if_splits dest!: sit_scan_geom)
qed

lemma sit_journal_geom: "geom (sit_journal_loop m i k) = geom m"
  by (induction k arbitrary: m i) (auto simp: Let_def geom_simps)

lemma late_build_geom: "late_build_segment_manager m = Some (r, m') \<Longrightarrow> geom m' = geom m"
  by (auto simp: late_build_segment_manager_def build_sit_entries_def Let_def sit_journal_geom geom_simps
      split: bind_splits if_splits dest!: sit_read_geom)

lemma record_data_geom: "record_data_loop nb ofs k m = Some (r, m') \<Longrightarrow> geom m' = geom m"
  by (induction k arbitrary: m ofs) (auto simp: geom_simps split: bind_splits if_splits)

lemma do_record_geom: "do_record_fsync_data m nb a = Some (r, m') \<Longrightarrow> geom m' = geom m"
  by (auto simp: do_record_fsync_data_def Let_def geom_simps split: bind_splits if_splits dest!: record_data_geom)

lemma traverse_geom: "traverse_loop m es a = Some (Some (r, m')) \<Longrightarrow> geom m' = geom m"
proof -
  have "\<forall>r' m'. r = Some (r', m') \<longrightarrow> geom m' = geom m" if "traverse_loop m es a = Some r" for r
    using that
  proof (induction rule: traverse_loop.raw_induct [rotated, consumes 1, case_names step])
    case (step f m es a r)
    then show ?case by (fastforce split: option.splits if_splits prod.splits dest!: do_record_geom)
  qed
  then show "traverse_loop m es a = Some (Some (r, m')) \<Longrightarrow> geom m' = geom m" by blast
qed

lemma record_fsync_geom: "record_fsync_data m = Some (Some (r, m')) \<Longrightarrow> geom m' = geom m"
  by (auto simp: record_fsync_data_def traverse_dnodes_def split: if_splits option.splits prod.splits
      dest!: traverse_geom late_build_geom)

lemma late_nid_geom: "late_nid_loop m nid k b = Some m' \<Longrightarrow> geom m' = geom m"
  by (induction k arbitrary: m nid b) (auto simp: Let_def geom_simps split: bind_splits if_splits)

lemma nat_bits_geom:
  "geom (fst (read_blocks a i k m b)) = geom m" "geom (write_blocks a b i k m) = geom m"
proof (induction k arbitrary: i m b)
  case (Suc k) { case 1 then show ?case by (simp add: Suc.IH geom_simps split: option.splits) }
  case (Suc k) { case 2 then show ?case by (auto simp: Suc.IH geom_simps split: option.splits dest: wr_blk_geom) }
qed simp_all

lemma early_nid_geom: "geom (early_nid_loop m i k) = geom m"
  by (induction k arbitrary: m i) (auto simp: Let_def geom_simps)

lemma check_nat_bits_geom: "geom (snd (check_nat_bits m cp)) = geom m"
  using nat_bits_geom(1) [of "nat_bits_addr (raw_super m) (cur_cp m)" 0 "nat_bits_blocks (raw_super m)" m zero_buf]
  by (auto simp: check_nat_bits_def Let_def geom_simps split: prod.splits)

lemma restore_summaries_geom:
  "read_normal_loop ts m = Some m' \<Longrightarrow> geom m' = geom m"
  "compact_entries_loop t j k ka off st m = Some (ka', off', st', m') \<Longrightarrow> geom m' = geom m"
  "compact_segs_loop is kb offb stb m = Some m' \<Longrightarrow> geom m' = geom m"
proof -
  have reset: "reset_curseg t m = Some m' \<Longrightarrow> geom m' = geom m" for t m m'
    by (auto simp: reset_curseg_def Let_def geom_simps split: bind_splits)
  show "read_normal_loop ts m = Some m' \<Longrightarrow> geom m' = geom m"
    by (induction ts arbitrary: m)
       (auto simp: read_normal_summaries_def Let_def geom_simps split: bind_splits if_splits prod.splits dest!: reset)
  have entries: "compact_entries_loop t j k ka off st m = Some (ka', off', st', m') \<Longrightarrow> geom m' = geom m"
    for t j k ka off st m ka' off' st' m'
    by (induction k arbitrary: j ka off st m) (auto simp: Let_def geom_simps split: bind_splits if_splits)
  then show "compact_entries_loop t j k ka off st m = Some (ka', off', st', m') \<Longrightarrow> geom m' = geom m" .
  show "compact_segs_loop is kb offb stb m = Some m' \<Longrightarrow> geom m' = geom m"
    by (induction "is" arbitrary: kb offb stb m) (auto simp: Let_def split: bind_splits if_splits dest!: reset entries)
qed

lemma restore_curseg_geom: "restore_curseg_summaries m = Some m' \<Longrightarrow> geom m' = geom m"
  by (auto simp: restore_curseg_summaries_def read_compacted_summaries_def Let_def geom_simps
      simp del: read_normal_loop.simps compact_segs_loop.simps
      split: bind_split_asm if_split_asm dest!: restore_summaries_geom)

text \<open>The current segments are checked before anything is read from them.\<close>

lemma build_curseg_loop_sel:
  assumes "build_curseg_loop is m = Some m'"
  shows "\<exists>c. m' = m\<lparr>cursegs := c\<rparr>"
    "\<forall>i \<in> set is. cs_segno (cursegs m' i) < main_segments m \<and> next_blkoff (cursegs m' i) < BLOCKS_PER_SEG"
    "\<forall>i. i \<notin> set is \<longrightarrow> cursegs m' i = cursegs m i"
proof -
  have "(\<exists>c. m' = m\<lparr>cursegs := c\<rparr>) \<and>
      (\<forall>i \<in> set is. cs_segno (cursegs m' i) < main_segments m \<and> next_blkoff (cursegs m' i) < BLOCKS_PER_SEG) \<and>
      (\<forall>i. i \<notin> set is \<longrightarrow> cursegs m' i = cursegs m i)"
    using assms
  proof (induction "is" arbitrary: m)
    case (Cons i "is")
    define segno where "segno = unat (if i \<le> CURSEG_COLD_DATA then cp_cur_data_segno (ckpt m) i else cp_cur_node_segno (ckpt m) (i - CURSEG_HOT_NODE))"
    define off where "off = unat (if i \<le> CURSEG_COLD_DATA then cp_cur_data_blkoff (ckpt m) i else cp_cur_node_blkoff (ckpt m) (i - CURSEG_HOT_NODE))"
    define n where "n = set_curseg i (\<lambda>_. \<lparr>sum_blk = zero_buf, alloc_type = cp_alloc_type (ckpt m) i, cs_segno = segno, next_blkoff = off\<rparr>) m"
    have ok: "segno < main_segments m" "off < BLOCKS_PER_SEG" "build_curseg_loop is n = Some m'"
      using Cons.prems by (auto simp: Let_def segno_def [symmetric] off_def [symmetric] n_def split: if_splits)
    note ih = Cons.IH [OF ok(3)]
    have n: "main_segments n = main_segments m" "cs_segno (cursegs n i) = segno" "next_blkoff (cursegs n i) = off"
      "\<And>j. j \<noteq> i \<Longrightarrow> cursegs n j = cursegs m j"
      by (simp_all add: n_def set_curseg_def)
    have "\<exists>c. m' = m\<lparr>cursegs := c\<rparr>"
      using ih by (auto simp: n_def set_curseg_def)
    moreover have "cs_segno (cursegs m' i) < main_segments m \<and> next_blkoff (cursegs m' i) < BLOCKS_PER_SEG"
      using ih ok(1,2) n by (cases "i \<in> set is") auto
    ultimately show ?case using ih n(1,4) by auto
  qed (auto intro: exI [of _ "cursegs m'"])
  then show "\<exists>c. m' = m\<lparr>cursegs := c\<rparr>"
    "\<forall>i \<in> set is. cs_segno (cursegs m' i) < main_segments m \<and> next_blkoff (cursegs m' i) < BLOCKS_PER_SEG"
    "\<forall>i. i \<notin> set is \<longrightarrow> cursegs m' i = cursegs m i" by auto
qed

text \<open>The super block fields no step of the mount changes.\<close>

definition sb_sane :: "buf \<Rightarrow> bool" where
  "sb_sane sb \<longleftrightarrow> sb_log_blocks_per_seg sb = 9 \<and> sb_segs_per_sec sb \<noteq> 0"

lemma early_build_ok:
  assumes "early_build_segment_manager m = Some m'" "sb_sane (raw_super m)" "m_segs_per_sec m = unat (sb_segs_per_sec (raw_super m))"
  shows "mount_ok (init_node_manager m')"
proof -
  define m1 where "m1 = build_sit_info (m\<lparr>seg0_blkaddr := unat (sb_segment0_blkaddr (raw_super m)), main_blkaddr := unat (sb_main_blkaddr (raw_super m)),
      segment_count := unat (sb_segment_count (raw_super m)), reserved_segments := unat (cp_rsvd_segment_count (ckpt m)),
      main_segments := unat (sb_segment_count_main (raw_super m)), ssa_blkaddr := unat (sb_ssa_blkaddr (raw_super m))\<rparr>)"
  obtain m2 where m2: "build_curseg_loop [0..<6] m1 = Some m2" "restore_curseg_summaries m2 = Some m'"
    using assms(1) by (auto simp: early_build_segment_manager_def build_curseg_def Let_def m1_def [symmetric] split: bind_splits)
  note g = restore_curseg_geom [OF m2(2)]
  define m3 where "m3 = m'\<lparr>nat_blkaddr := unat (sb_nat_blkaddr (raw_super m')), nat_blocks := unat (sb_segment_count_nat (raw_super m')) div 2 * BLOCKS_PER_SEG,
      max_nid := NAT_ENTRY_PER_BLOCK * (unat (sb_segment_count_nat (raw_super m')) div 2 * BLOCKS_PER_SEG),
      nat_bitmap := put_bytes 0 (bitmap_size (ckpt m') NAT_BITMAP) (at_off (bitmap_ptr (raw_super m') (ckpt m') NAT_BITMAP) (ckpt m')) zero_buf\<rparr>"
  have cs: "cs_segno (cursegs m' i) = cs_segno (cursegs m2 i) \<and> next_blkoff (cursegs m' i) = next_blkoff (cursegs m2 i)" for i
    using arg_cong [OF g, of "\<lambda>x. snd (snd (snd x)) i"] by (simp add: geom_def)
  obtain c where c: "m2 = m1\<lparr>cursegs := c\<rparr>" using build_curseg_loop_sel(1) [OF m2(1)] by blast
  have "mount_ok m3"
    using g build_curseg_loop_sel(2) [OF m2(1)] assms(2,3) cs
    by (auto simp: mount_ok_def m3_def geom_def Let_def sb_sane_def c m1_def build_sit_info_def unat_gt_0)
  moreover have "geom (init_node_manager m') = geom m3"
    by (simp add: init_node_manager_def Let_def m3_def [symmetric] f2fs_early_init_nid_bitmap_def early_nid_geom geom_simps)
  ultimately show ?thesis using mount_ok_geom by blast
qed

lemma mount_late_geom:
  assumes "mount_late c m = Some (r, c', m')"
  shows "r \<in> {-1, 0, 1} \<and> geom m' = geom m"
proof -
  have steps: "late_build_segment_manager n = Some (r, n') \<Longrightarrow> geom n' = geom n"
    "f2fs_late_init_nid_bitmap n = Some n' \<Longrightarrow> geom n' = geom n"
    "write_nat_bits n cp i = Some n' \<Longrightarrow> geom n' = geom n"
    "check_nat_bits n cp = (e, n') \<Longrightarrow> geom n' = geom n" for n cp r n' i e
    using check_nat_bits_geom [of n cp]
    by (auto simp: f2fs_late_init_nid_bitmap_def write_nat_bits_def Let_def nat_bits_geom(2)
        split: if_splits bind_splits dest: late_build_geom late_nid_geom)
  show ?thesis
    using assms unfolding mount_late_def Let_def
    by (auto simp: geom_simps split: if_split_asm prod.split_asm bind_split_asm dest!: steps)
qed

lemma mount_managers_ok:
  assumes "mount_managers c m = Some (r, c', m')" "sb_sane (raw_super m)" "m_segs_per_sec m = unat (sb_segs_per_sec (raw_super m))"
  shows "r \<in> {-1, 0, 1} \<and> mount_ok m'"
proof -
  define m0 where "m0 = (if m_feature m AND F2FS_FEATURE_INODE_CHKSUM \<noteq> 0
      then m\<lparr>m_chksum_seed := f2fs_cal_crc32 (-1) (at_off 108 (raw_super m)) 16\<rparr> else m)"
  define m1 where "m1 = m0\<lparr>total_valid_node_count := unat (cp_valid_node_count (ckpt m0)), total_valid_inode_count := unat (cp_valid_inode_count (ckpt m0)),
      user_block_count := unat (ucast (cp_user_block_count (ckpt m0)) :: u32),
      total_valid_block_count := unat (ucast (cp_valid_block_count (ckpt m0)) :: u32)\<rparr>"
  have raw: "sb_sane (raw_super m1)" "m_segs_per_sec m1 = unat (sb_segs_per_sec (raw_super m1))"
    using assms(2,3) by (simp_all add: m0_def m1_def)
  obtain m2 r3 m3 where m: "early_build_segment_manager m1 = Some m2" "record_fsync_data (init_node_manager m2) = Some (Some (r3, m3))"
    and rest: "r = -1 \<and> m' = m3 \<or> mount_late c m3 = Some (r, c', m')"
    using assms(1) unfolding mount_managers_def Let_def m0_def [symmetric] m1_def [symmetric] bind_eq_Some_conv
    by (auto split: prod.splits if_splits)
  have ok: "mount_ok m3"
    using early_build_ok [OF m(1) raw] record_fsync_geom [OF m(2)] mount_ok_geom by blast
  from rest show ?thesis
  proof
    assume "mount_late c m3 = Some (r, c', m')"
    from mount_late_geom [OF this] ok mount_ok_geom show ?thesis by blast
  qed (use ok in simp)
qed

text \<open>Rewriting the super block keeps the fields of the geometry.\<close>

lemma sb_edits:
  "sb_sane (put_le32 8 v sb) = sb_sane sb" "sb_sane (put_le32 12 v sb) = sb_sane sb" "sb_sane (put_le32 2180 v sb) = sb_sane sb"
  "sb_sane (put_le32 1920 v sb) = sb_sane sb" "sb_sane (put_bytes 1668 252 s sb) = sb_sane sb" "sb_sane (set_sb_crc v sb) = sb_sane sb"
  "sb_sane (set_sb_cp_payload v sb) = sb_sane sb" "sb_sane (set_sb_segment_count v sb) = sb_sane sb"
  "sb_segs_per_sec (put_le32 8 v sb) = sb_segs_per_sec sb" "sb_segs_per_sec (put_le32 12 v sb) = sb_segs_per_sec sb"
  "sb_segs_per_sec (put_le32 2180 v sb) = sb_segs_per_sec sb" "sb_segs_per_sec (put_le32 1920 v sb) = sb_segs_per_sec sb"
  "sb_segs_per_sec (put_bytes 1668 252 s sb) = sb_segs_per_sec sb" "sb_segs_per_sec (set_sb_crc v sb) = sb_segs_per_sec sb"
  "sb_segs_per_sec (set_sb_cp_payload v sb) = sb_segs_per_sec sb" "sb_segs_per_sec (set_sb_segment_count v sb) = sb_segs_per_sec sb"
  by (simp_all add: sb_sane_def sb_fields set_sb_crc_def set_sb_cp_payload_def set_sb_segment_count_def buf_simps)

lemma update_superblock_keeps:
  assumes "update_superblock sb k d = Some (sb', d')"
  shows "sb_sane sb' = sb_sane sb" "sb_segs_per_sec sb' = sb_segs_per_sec sb"
  using update_superblock_sb [OF assms] by (simp_all add: sb_edits)

definition sb_kept :: "mount \<Rightarrow> mount \<Rightarrow> bool" where
  "sb_kept m m' \<longleftrightarrow> sb_sane (raw_super m') = sb_sane (raw_super m) \<and>
     sb_segs_per_sec (raw_super m') = sb_segs_per_sec (raw_super m) \<and> m_segs_per_sec m' = m_segs_per_sec m"

lemma put_superblock_kept: "put_superblock m = Some m' \<Longrightarrow> sb_kept m m'"
  by (auto simp: put_superblock_def sb_kept_def split: bind_splits dest: update_superblock_keeps)

lemma sb_steps_kept:
  "check_sector_size opt m = Some m' \<Longrightarrow> sb_kept m m'"
  "tune_sb_features opt m = Some (r, m') \<Longrightarrow> sb_kept m m'"
  "stamp_version opt c m = Some (c', m') \<Longrightarrow> sb_kept m m'"
  by (auto simp: check_sector_size_def tune_sb_features_def stamp_version_def Let_def VERSION_NAME_LEN_def
      split: if_splits dest!: put_superblock_kept) (auto simp: sb_kept_def sb_edits)

lemma mount_checked_ok:
  assumes "mount_checked opt c m = Some (r, c', m')" "sb_sane (raw_super m)" "m_segs_per_sec m = unat (sb_segs_per_sec (raw_super m))"
  shows "r = -1 \<or> r = 1 \<or> r = 0 \<and> mount_ok m'"
proof -
  have late: "r = 0 \<and> mount_ok m' \<or> r = -1 \<or> r = 1"
    if "sb_kept m m1" "tune_sb_features opt (m1\<lparr>m_fix_on := f, m_bug_on := b\<rparr>) = Some (x, m2)" "mount_managers c1 m2 = Some (r, c', m')"
    for m1 m2 c1 f b x
    using mount_managers_ok [OF that(3)] sb_steps_kept(2) [OF that(2)] that(1) assms(2,3) by (auto simp: sb_kept_def)
  show ?thesis
  proof (cases "func m = FSCK \<and> \<not> no_kernel_check opt")
    case True
    then obtain c1 m1 where "stamp_version opt c m = Some (c1, m1)"
      using assms(1) by (auto simp: mount_checked_def split: bind_split_asm)
    with True assms(1) sb_steps_kept(3) [OF this] late [of m1] show ?thesis
      by (auto simp: mount_checked_def Let_def split: bind_split_asm if_split_asm)
  next
    case False
    with assms(1) late [of m] show ?thesis
      by (auto simp: mount_checked_def Let_def sb_kept_def split: bind_split_asm if_split_asm)
  qed
qed

lemma mount_super_sane:
  assumes "mount_super z d = Some (Some sb, d')" shows "sb_sane sb"
proof -
  obtain a e blk r where "sanity_check_raw_super z (at_off F2FS_SUPER_OFFSET blk) a e = Some (0, sb, d')"
    using assms by (auto simp: mount_super_def validate_super_block_def EINVAL_def split: bind_split_asm if_split_asm option.splits prod.split_asm)
  note c = sanity_check_raw_super_checks [OF this]
  then have "sanity_check_area_boundary (at_off F2FS_SUPER_OFFSET blk) a e = Some (0, sb, d')" by blast
  then have "sb_sane sb = sb_sane (at_off F2FS_SUPER_OFFSET blk)"
    by (auto simp: sanity_check_area_boundary_def Let_def split: if_split_asm bind_split_asm dest: update_superblock_keeps simp: sb_edits)
  with c show ?thesis by (simp add: sb_sane_def)
qed

lemma sanity_check_ckpt_keeps:
  assumes "sanity_check_ckpt sbi sb cp c d = Some (r, sb', cp', c', d')"
  shows "sb_sane sb' = sb_sane sb" "sb_segs_per_sec sb' = sb_segs_per_sec sb"
  using assms unfolding sanity_check_ckpt_def Let_def
  by (auto split: if_split_asm bind_split_asm option.split_asm prod.split_asm dest: update_superblock_keeps simp: sb_edits)

text \<open>Property C32. A mount ends in one of three ways: it fails, it declines to go on (1), or it leaves a mount
  whose geometry is that of the super block it checked and whose six current segments, with their next
  block, lie in the main area, whatever the checkpoint says.\<close>

theorem f2fs_do_mount_outcome:
  "case f2fs_do_mount dev_ok opt c m of
     None \<Rightarrow> True
   | Some (r, c', m') \<Rightarrow> r = -1 \<or> r = 1 \<or> r = 0 \<and> mount_ok m'"
proof (cases "f2fs_do_mount dev_ok opt c m")
  case (Some res)
  then obtain r c' m' where res: "f2fs_do_mount dev_ok opt c m = Some (r, c', m')" by (cases res) auto
  have "r = -1 \<or> r = 1 \<or> r = 0 \<and> mount_ok m'"
  proof (rule ccontr)
    assume no: "\<not> ?thesis"
    obtain sb d m1 sbi devs ret cp n v ret' sb' cp2 c2 d2 where
      s: "mount_super (zoned_hm m) (dsk m) = Some (Some sb, d)"
      "check_sector_size opt (m\<lparr>dsk := d, raw_super := sb\<rparr>) = Some m1" "init_sb_info dev_ok (raw_super m1) = Some (sbi, devs)"
      "sanity_check_ckpt sbi (raw_super m1) cp (c\<lparr>bug_on := False\<rparr>) (dsk m1) = Some (ret', sb', cp2, c2, d2)"
      "mount_checked opt c2 (m1\<lparr>m_segs_per_sec := unat (segs_per_sec sbi), total_node_count := unat (sb_info.total_node_count sbi),
         raw_super := sb', ckpt := cp2, cur_cp := n, dsk := d2\<rparr>) = Some (r, c', m')"
      using res no unfolding f2fs_do_mount_def Let_def
      by (auto split: bind_split_asm option.split_asm prod.split_asm if_split_asm)
    have "segs_per_sec sbi = sb_segs_per_sec (raw_super m1)"
      using s(3) by (auto simp: init_sb_info_def init_sb_fields_def Let_def split: bind_splits)
    with mount_checked_ok [OF s(5)] sanity_check_ckpt_keeps [OF s(4)] sb_steps_kept(1) [OF s(2)] mount_super_sane [OF s(1)] no
    show False by (auto simp: sb_kept_def)
  qed
  with res show ?thesis by simp
qed simp
end
