(* ===== verification/Dir.thy ===== *)
theory Dir
  imports Node Hash
begin

text \<open>
  Directories, \<open>fsck/dir.c\<close>: directory entries in blocks of slots, the hash buckets, lookup, adding an
  entry, creating files, and the inline format. A directory entry block is a byte buffer; names are
  lists of bytes. Case folding of names is a parameter \<open>cf\<close>, as in the hash.
\<close>

subsection \<open>Entries in a block\<close>

definition NR_DENTRY_IN_BLOCK :: nat where "NR_DENTRY_IN_BLOCK = 214"
definition SIZE_OF_DENTRY_BITMAP :: nat where "SIZE_OF_DENTRY_BITMAP = 27"
definition SIZE_OF_RESERVED :: nat where "SIZE_OF_RESERVED = 3"
definition SIZE_OF_DIR_ENTRY :: nat where "SIZE_OF_DIR_ENTRY = 11"
definition F2FS_SLOT_LEN :: nat where "F2FS_SLOT_LEN = 8"
definition MAX_DIR_HASH_DEPTH :: nat where "MAX_DIR_HASH_DEPTH = 63"
definition MAX_DIR_BUCKETS :: u32 where "MAX_DIR_BUCKETS = 2 ^ 30"
definition F2FS_FT_REG_FILE :: u8 where "F2FS_FT_REG_FILE = 1"
definition F2FS_FT_DIR :: u8 where "F2FS_FT_DIR = 2"
definition F2FS_FT_SYMLINK :: u8 where "F2FS_FT_SYMLINK = 7"
definition F2FS_DATA_EXIST :: u8 where "F2FS_DATA_EXIST = 0x8"
definition F2FS_CASEFOLD_FL :: u32 where "F2FS_CASEFOLD_FL = 0x40000000"
definition DEF_INLINE_RESERVED_SIZE :: nat where "DEF_INLINE_RESERVED_SIZE = 1"

definition GET_DENTRY_SLOTS :: "nat \<Rightarrow> nat" where
  "GET_DENTRY_SLOTS x = (x + F2FS_SLOT_LEN - 1) div 8"

definition i_advise :: "buf \<Rightarrow> u8" where "i_advise b = b 2"
definition i_current_depth :: "buf \<Rightarrow> u32" where "i_current_depth b = le32_at b 72"
definition i_pino :: "buf \<Rightarrow> u32" where "i_pino b = le32_at b 84"
definition i_namelen :: "buf \<Rightarrow> u32" where "i_namelen b = le32_at b 88"
definition i_dir_level :: "buf \<Rightarrow> u8" where "i_dir_level b = b 347"

definition MAX_INLINE_DATA :: "u32 \<Rightarrow> buf \<Rightarrow> nat" where
  "MAX_INLINE_DATA feature b =
     4 * (DEF_ADDRS_PER_INODE - get_inline_xattr_addrs feature b - get_extra_isize b - DEF_INLINE_RESERVED_SIZE)"

definition inline_data_addr :: "buf \<Rightarrow> nat" where
  "inline_data_addr b = 360 + 4 * (get_extra_isize b + DEF_INLINE_RESERVED_SIZE)"

definition NR_INLINE_DENTRY :: "u32 \<Rightarrow> buf \<Rightarrow> nat" where
  "NR_INLINE_DENTRY feature b = MAX_INLINE_DATA feature b * 8 div ((SIZE_OF_DIR_ENTRY + F2FS_SLOT_LEN) * 8 + 1)"

definition INLINE_DENTRY_BITMAP_SIZE :: "u32 \<Rightarrow> buf \<Rightarrow> nat" where
  "INLINE_DENTRY_BITMAP_SIZE feature b = (NR_INLINE_DENTRY feature b + 8 - 1) div 8"

definition INLINE_RESERVED_SIZE :: "u32 \<Rightarrow> buf \<Rightarrow> nat" where
  "INLINE_RESERVED_SIZE feature b = MAX_INLINE_DATA feature b -
     ((SIZE_OF_DIR_ENTRY + F2FS_SLOT_LEN) * NR_INLINE_DENTRY feature b + INLINE_DENTRY_BITMAP_SIZE feature b)"

text \<open>\<open>f2fs_dentry_ptr\<close>: the pointers are offsets into the block; \<open>dp_size\<close> is its size in bytes.\<close>

record dentry_ptr =
  dp_max :: nat
  dp_nr_bitmap :: nat
  dp_bitmap :: nat
  dp_dentry :: nat
  dp_filename :: nat
  dp_size :: nat

definition make_dentry_ptr_block :: dentry_ptr where
  "make_dentry_ptr_block =
     \<lparr>dp_max = NR_DENTRY_IN_BLOCK, dp_nr_bitmap = SIZE_OF_DENTRY_BITMAP, dp_bitmap = 0,
      dp_dentry = SIZE_OF_DENTRY_BITMAP + SIZE_OF_RESERVED,
      dp_filename = SIZE_OF_DENTRY_BITMAP + SIZE_OF_RESERVED + SIZE_OF_DIR_ENTRY * NR_DENTRY_IN_BLOCK,
      dp_size = F2FS_BLKSIZE\<rparr>"

definition make_dentry_ptr_inline :: "u32 \<Rightarrow> buf \<Rightarrow> dentry_ptr" where
  "make_dentry_ptr_inline feature node =
     (let entry_cnt = NR_INLINE_DENTRY feature node;
          bitmap_size = INLINE_DENTRY_BITMAP_SIZE feature node;
          reserved_size = INLINE_RESERVED_SIZE feature node
      in \<lparr>dp_max = entry_cnt, dp_nr_bitmap = bitmap_size, dp_bitmap = 0, dp_dentry = bitmap_size + reserved_size,
          dp_filename = bitmap_size + reserved_size + SIZE_OF_DIR_ENTRY * entry_cnt,
          dp_size = MAX_INLINE_DATA feature node\<rparr>)"

definition slot_used :: "dentry_ptr \<Rightarrow> buf \<Rightarrow> nat \<Rightarrow> bool" where
  "slot_used d b i \<longleftrightarrow> test_bit_le i (at_off (dp_bitmap d) b) \<noteq> 0"

definition de_hash_code :: "dentry_ptr \<Rightarrow> buf \<Rightarrow> nat \<Rightarrow> u32" where
  "de_hash_code d b i = le32_at b (dp_dentry d + SIZE_OF_DIR_ENTRY * i)"
definition de_ino :: "dentry_ptr \<Rightarrow> buf \<Rightarrow> nat \<Rightarrow> u32" where
  "de_ino d b i = le32_at b (dp_dentry d + SIZE_OF_DIR_ENTRY * i + 4)"
definition de_name_len :: "dentry_ptr \<Rightarrow> buf \<Rightarrow> nat \<Rightarrow> nat" where
  "de_name_len d b i = unat (le16_at b (dp_dentry d + SIZE_OF_DIR_ENTRY * i + 8))"
definition de_file_type :: "dentry_ptr \<Rightarrow> buf \<Rightarrow> nat \<Rightarrow> u8" where
  "de_file_type d b i = b (dp_dentry d + SIZE_OF_DIR_ENTRY * i + 10)"
definition de_name_at :: "dentry_ptr \<Rightarrow> nat \<Rightarrow> nat" where
  "de_name_at d i = dp_filename d + F2FS_SLOT_LEN * i"

text \<open>Both searches return a position from the start on.\<close>

lemma find_next_ge:
  "find_next_zero_bit_le bm n i < n \<Longrightarrow> i \<le> find_next_zero_bit_le bm n i"
  "i \<le> n \<Longrightarrow> i \<le> find_next_bit_le bm n i"
proof -
  show "i \<le> find_next_zero_bit_le bm n i" if "find_next_zero_bit_le bm n i < n"
  proof (cases "i \<le> n")
    case True
    with find_next_bits_first [of i n bm] that show ?thesis by (auto simp: first_from_def)
  next
    case False
    with that show ?thesis by (simp add: find_next_zero_bit_le_def find_next_bit_inv_def)
  qed
  show "i \<le> n \<Longrightarrow> i \<le> find_next_bit_le bm n i"
    using find_next_bits_first [of i n bm] by (auto simp: first_from_def)
qed

text \<open>The \<open>goto\<close> loop of \<open>room_for_filename\<close>.\<close>

function room_loop :: "buf \<Rightarrow> nat \<Rightarrow> nat \<Rightarrow> nat \<Rightarrow> nat" where
  "room_loop bm slots max_slots bit_start =
     (let zero_start = find_next_zero_bit_le bm max_slots bit_start
      in if zero_start \<ge> max_slots then max_slots
         else let zero_end = find_next_bit_le bm max_slots (zero_start + 1)
              in if zero_end \<ge> zero_start + slots then zero_start
                 else room_loop bm slots max_slots zero_end)"
  by pat_completeness auto
termination
proof (relation "measure (\<lambda>(bm, slots, max_slots, bit_start). max_slots - bit_start)", goal_cases)
  case (2 bm slots max_slots bit_start)
  then show ?case
    using find_next_ge(1) [of bm max_slots bit_start] find_next_ge(2) [of "find_next_zero_bit_le bm max_slots bit_start + 1" max_slots bm]
    by auto
qed simp

declare room_loop.simps [simp del]

definition room_for_filename :: "buf \<Rightarrow> nat \<Rightarrow> nat \<Rightarrow> nat" where
  "room_for_filename bm slots max_slots = room_loop bm slots max_slots 0"

text \<open>The walk of \<open>find_target_dentry\<close>: the position found and the longest gap. It moves by the slots of the
  entry it is at, so an entry with an empty name keeps it there: then, as when a name of the right length
  would be read past the block, there is no result.\<close>

partial_function (option) find_target_loop ::
  "u8 list \<Rightarrow> u32 \<Rightarrow> dentry_ptr \<Rightarrow> buf \<Rightarrow> nat \<Rightarrow> nat \<Rightarrow> nat \<Rightarrow> (nat option \<times> nat) option" where
  "find_target_loop name namehash d b bit_pos max_len max_slots =
     (if \<not> bit_pos < dp_max d then Some (None, max max_len max_slots)
      else if \<not> slot_used d b bit_pos then find_target_loop name namehash d b (bit_pos + 1) (max_len + 1) max_slots
      else if de_name_len d b bit_pos = length name \<and> de_hash_code d b bit_pos = namehash
           then if de_name_at d bit_pos + length name > dp_size d then None
                else if buf_bytes b (de_name_at d bit_pos) (length name) = name
                then Some (Some bit_pos, max max_len max_slots)
                else find_target_loop name namehash d b (bit_pos + GET_DENTRY_SLOTS (de_name_len d b bit_pos)) 0 (max max_len max_slots)
      else find_target_loop name namehash d b (bit_pos + GET_DENTRY_SLOTS (de_name_len d b bit_pos)) 0 (max max_len max_slots))"

definition find_target_dentry :: "u8 list \<Rightarrow> u32 \<Rightarrow> dentry_ptr \<Rightarrow> buf \<Rightarrow> (nat option \<times> nat) option" where
  "find_target_dentry name namehash d b = find_target_loop name namehash d b 0 0 0"

definition find_in_block :: "u8 list \<Rightarrow> u32 \<Rightarrow> buf \<Rightarrow> (nat option \<times> nat) option" where
  "find_in_block name namehash block = find_target_dentry name namehash make_dentry_ptr_block block"

fun set_slots :: "dentry_ptr \<Rightarrow> nat \<Rightarrow> nat \<Rightarrow> buf \<Rightarrow> buf" where
  "set_slots d bit_pos 0 b = b"
| "set_slots d bit_pos (Suc k) b = set_slots d (bit_pos + 1) k
     (b(dp_bitmap d + bit_pos div 8 := snd (test_and_set_bit_le bit_pos (at_off (dp_bitmap d) b)) (bit_pos div 8)))"

text \<open>The terminating zero is written behind the name, also when the name fills its slots.\<close>

definition f2fs_update_dentry :: "u32 \<Rightarrow> u8 \<Rightarrow> dentry_ptr \<Rightarrow> u8 list \<Rightarrow> u32 \<Rightarrow> nat \<Rightarrow> buf \<Rightarrow> buf" where
  "f2fs_update_dentry ino file_type d name name_hash bit_pos b =
     (let len = length name; e = dp_dentry d + SIZE_OF_DIR_ENTRY * bit_pos;
          b = put_le16 (e + 8) (of_nat len) b;
          b = put_le32 e name_hash b;
          b = put_bytes (de_name_at d bit_pos) len (list_buf name) b;
          b = b(de_name_at d bit_pos + len := 0);
          b = put_le32 (e + 4) ino b;
          b = b(e + 10 := file_type)
      in set_slots d bit_pos (GET_DENTRY_SLOTS len) b)"

subsection \<open>Hash buckets\<close>

definition dir_buckets :: "u32 \<Rightarrow> u32 \<Rightarrow> u32" where
  "dir_buckets level dir_level =
     (if level + dir_level < of_nat (MAX_DIR_HASH_DEPTH div 2) then push_bit (unat (level + dir_level)) 1 else MAX_DIR_BUCKETS)"

definition bucket_blocks :: "u32 \<Rightarrow> u32" where
  "bucket_blocks level = (if level < of_nat (MAX_DIR_HASH_DEPTH div 2) then 2 else 4)"

fun buckets_before :: "nat \<Rightarrow> u32 \<Rightarrow> u64" where
  "buckets_before 0 dir_level = 0"
| "buckets_before (Suc i) dir_level =
     buckets_before i dir_level + ucast (dir_buckets (of_nat i) dir_level * bucket_blocks (of_nat i))"

definition dir_block_index :: "u32 \<Rightarrow> u32 \<Rightarrow> u32 \<Rightarrow> u64" where
  "dir_block_index level dir_level idx = buckets_before (unat level) dir_level + ucast (idx * bucket_blocks level)"

definition IS_CASEFOLDED :: "buf \<Rightarrow> bool" where
  "IS_CASEFOLDED b \<longleftrightarrow> i_flags b AND F2FS_CASEFOLD_FL \<noteq> 0"

definition is_dot_dotdot :: "u8 list \<Rightarrow> bool" where
  "is_dot_dotdot name \<longleftrightarrow> name = [0x2e] \<or> name = [0x2e, 0x2e]"

type_synonym casefold_fn = "buf \<Rightarrow> nat \<Rightarrow> nat \<Rightarrow> (buf \<times> nat) option"

definition name_hash :: "casefold_fn \<Rightarrow> buf \<Rightarrow> u8 list \<Rightarrow> u32" where
  "name_hash cf dir name = f2fs_dentry_hash cf (IS_CASEFOLDED dir) (list_buf name) (length name)"

definition first_bidx :: "casefold_fn \<Rightarrow> buf \<Rightarrow> nat \<Rightarrow> u8 list \<Rightarrow> nat" where
  "first_bidx cf dir level name =
     (let dir_level = ucast (i_dir_level dir); nbucket = dir_buckets (of_nat level) dir_level
      in unat (ucast (dir_block_index (of_nat level) dir_level (name_hash cf dir name mod nbucket)) :: u32))"

subsection \<open>Lookup\<close>

definition ENOENT :: int where "ENOENT = 2"

fun find_level_loop :: "mount \<Rightarrow> buf \<Rightarrow> u8 list \<Rightarrow> u32 \<Rightarrow> nat \<Rightarrow> nat \<Rightarrow> u32 option option" where
  "find_level_loop m dir name namehash bidx 0 = Some None"
| "find_level_loop m dir name namehash bidx (Suc k) = do {
     (err, dn, m') \<leftarrow> get_dnode_of_data m (set_new_dnode dir NoBlk (unat (footer_ino dir))) bidx LOOKUP_NODE;
     if data_blkaddr dn = NULL_ADDR then find_level_loop m dir name namehash (bidx + 1) k
     else do {
       b \<leftarrow> rd_blk m (unat (data_blkaddr dn));
       (pos, max_slots) \<leftarrow> find_in_block name namehash b;
       case pos of
         Some i \<Rightarrow> Some (Some (de_ino make_dentry_ptr_block b i))
       | None \<Rightarrow> find_level_loop m dir name namehash (bidx + 1) k
     }
   }"

definition find_in_level :: "casefold_fn \<Rightarrow> mount \<Rightarrow> buf \<Rightarrow> nat \<Rightarrow> u8 list \<Rightarrow> u32 option option" where
  "find_in_level cf m dir level name =
     find_level_loop m dir name (name_hash cf dir name) (first_bidx cf dir level name) (unat (bucket_blocks (of_nat level)))"

fun find_entry_loop :: "casefold_fn \<Rightarrow> mount \<Rightarrow> buf \<Rightarrow> u8 list \<Rightarrow> nat \<Rightarrow> nat \<Rightarrow> u32 option option" where
  "find_entry_loop cf m dir name level 0 = Some None"
| "find_entry_loop cf m dir name level (Suc k) = do {
     r \<leftarrow> find_in_level cf m dir level name;
     case r of Some ino \<Rightarrow> Some (Some ino) | None \<Rightarrow> find_entry_loop cf m dir name (level + 1) k
   }"

definition f2fs_find_entry :: "casefold_fn \<Rightarrow> mount \<Rightarrow> buf \<Rightarrow> u8 list \<Rightarrow> u32 option option" where
  "f2fs_find_entry cf m dir name = find_entry_loop cf m dir name 0 (unat (i_current_depth dir))"

definition f2fs_lookup :: "casefold_fn \<Rightarrow> mount \<Rightarrow> buf \<Rightarrow> u8 list \<Rightarrow> u32 option" where
  "f2fs_lookup cf m dir name = do {
     r \<leftarrow> f2fs_find_entry cf m dir name;
     Some (case r of Some ino \<Rightarrow> ino | None \<Rightarrow> 0)
   }"

fun find_path_loop :: "casefold_fn \<Rightarrow> mount \<Rightarrow> u8 list list \<Rightarrow> u32 \<Rightarrow> (int \<times> u32) option" where
  "find_path_loop cf m [] ino = Some (0, ino)"
| "find_path_loop cf m (p # ps) ino = do {
     ni \<leftarrow> get_node_info m (unat ino);
     if ni_blk_addr ni = NULL_ADDR then Some (- ENOENT, ino)
     else do {
       parent \<leftarrow> rd_blk m (unat (ni_blk_addr ni));
       r \<leftarrow> f2fs_find_entry cf m parent p;
       case r of None \<Rightarrow> Some (- ENOENT, ino) | Some ino \<Rightarrow> find_path_loop cf m ps ino
     }
   }"

text \<open>\<open>strtok\<close> with the delimiter \<open>/\<close>: the nonempty pieces.\<close>

fun strtok_slash :: "u8 list \<Rightarrow> u8 list \<Rightarrow> u8 list list" where
  "strtok_slash [] cur = (if cur = [] then [] else [cur])"
| "strtok_slash (x # xs) cur =
     (if x = 0x2f then (if cur = [] then strtok_slash xs [] else cur # strtok_slash xs []) else strtok_slash xs (cur @ [x]))"

definition f2fs_find_path :: "casefold_fn \<Rightarrow> mount \<Rightarrow> u8 list \<Rightarrow> u32 \<Rightarrow> (int \<times> u32) option" where
  "f2fs_find_path cf m path ino =
     (if path = [] \<or> hd path \<noteq> 0x2f then Some (- ENOENT, ino)
      else find_path_loop cf m (strtok_slash path []) (sb_root_ino (raw_super m)))"

subsection \<open>Adding an entry\<close>

text \<open>The blocks of one bucket: the first with room, allocated where the bucket has a hole. \<open>new_data_block\<close>
  may fail, which the code does not look at.\<close>

fun add_level_loop :: "nat \<Rightarrow> nat \<Rightarrow> nat \<Rightarrow> buf \<Rightarrow> mount \<Rightarrow> ((nat \<times> nat \<times> buf \<times> dnode_of_data) option \<times> buf \<times> mount) option" where
  "add_level_loop slots block 0 parent m = Some (None, parent, m)"
| "add_level_loop slots block (Suc k) parent m = do {
     (err, dn, m) \<leftarrow> get_dnode_of_data m (set_new_dnode parent NoBlk (unat (footer_ino parent))) block ALLOC_NODE;
     (blk, dn, m) \<leftarrow> (if data_blkaddr dn = NULL_ADDR
                       then do { (ret, dn, m) \<leftarrow> new_data_block m dn CURSEG_HOT_DATA; Some (zero_buf, dn, m) }
                       else do { b \<leftarrow> rd_blk m (unat (data_blkaddr dn)); Some (b, dn, m) });
     let bit_pos = room_for_filename blk slots NR_DENTRY_IN_BLOCK;
     if bit_pos < NR_DENTRY_IN_BLOCK then Some (Some (block, bit_pos, blk, dn), inode_blk dn, m)
     else add_level_loop slots (block + 1) k (inode_blk dn) m
   }"

partial_function (option) add_start_loop ::
  "casefold_fn \<Rightarrow> u8 list \<Rightarrow> nat \<Rightarrow> nat \<Rightarrow> buf \<Rightarrow> mount \<Rightarrow> ((nat \<times> nat \<times> nat \<times> buf \<times> dnode_of_data) option \<times> buf \<times> mount) option" where
  "add_start_loop cf name level current_depth parent m =
     (if current_depth = MAX_DIR_HASH_DEPTH then Some (None, parent, m)
      else case add_level_loop (GET_DENTRY_SLOTS (length name)) (first_bidx cf parent level name)
                  (unat (bucket_blocks (of_nat level))) parent m of
        None \<Rightarrow> None
      | Some (r, parent, m) \<Rightarrow>
          let current_depth = (if level = current_depth then current_depth + 1 else current_depth)
          in (case r of
                Some (block, bit_pos, blk, dn) \<Rightarrow> Some (Some (current_depth, block, bit_pos, blk, dn), parent, m)
              | None \<Rightarrow> add_start_loop cf name (level + 1) current_depth parent m))"

definition update_parent :: "nat \<Rightarrow> nat \<Rightarrow> bool \<Rightarrow> dnode_of_data \<Rightarrow> dnode_of_data" where
  "update_parent current_depth block new_dir dn =
     (let p = inode_blk dn;
          dn = (if i_current_depth p \<noteq> of_nat current_depth
                then dn\<lparr>inode_blk := put_le32 72 (of_nat current_depth) p, idirty := True\<rparr> else dn);
          p = inode_blk dn;
          dn = (if new_dir then dn\<lparr>inode_blk := put_le32 12 (i_links p + 1) p, idirty := True\<rparr> else dn);
          p = inode_blk dn;
          size = (of_nat ((block + 1) * F2FS_BLKSIZE) :: u64)
      in if size > i_size p then dn\<lparr>inode_blk := set_i_size size p, idirty := True\<rparr> else dn)"

text \<open>The size of the directory is computed in \<open>int\<close>: a block index of 2 ^ 19 or more overflows.\<close>

definition f2fs_add_link :: "casefold_fn \<Rightarrow> mount \<Rightarrow> buf \<Rightarrow> u8 list \<Rightarrow> u32 \<Rightarrow> u8 \<Rightarrow> nat \<Rightarrow> bool \<Rightarrow> (int \<times> buf \<times> mount) option" where
  "f2fs_add_link cf m parent name ino file_type p_blkaddr inc_link =
     (if footer_ino parent = 0 then Some (- EINVAL, parent, m)
      else do {
        (r, p, m) \<leftarrow> add_start_loop cf name 0 (unat (i_current_depth parent)) parent m;
        case r of
          None \<Rightarrow> Some (- ENOSPC, p, m)
        | Some (current_depth, block, bit_pos, blk, dn) \<Rightarrow> do {
            let blk = f2fs_update_dentry ino file_type make_dentry_ptr_block name (name_hash cf parent name) bit_pos blk;
            m \<leftarrow> wr_blk (unat (data_blkaddr dn)) blk m;
            if block + 1 \<ge> 2 ^ 19 then None
            else do {
              let dn = update_parent current_depth block (inc_link \<and> file_type = F2FS_FT_DIR) dn;
              m \<leftarrow> flush_node dn m;
              m \<leftarrow> (if idirty dn then write_inode (inode_blk dn) p_blkaddr m else Some m);
              Some (0, inode_blk dn, m)
            }
          }
      })"

subsection \<open>New inodes\<close>

text \<open>The parts of \<open>struct dentry\<close> that describe a file to create.\<close>

record dentry_req =
  rq_name :: "u8 list"
  rq_link :: "u8 list option"
  rq_file_type :: u8
  rq_mode :: u16
  rq_uid :: u16
  rq_gid :: u16
  rq_mtime :: u32
  rq_ino :: u32
  rq_pino :: u32
  rq_from_devino :: u64

definition make_empty_dir :: "mount \<Rightarrow> buf \<Rightarrow> (buf \<times> mount) option" where
  "make_empty_dir m inode = do {
     let ino = footer_ino inode;
     let d = make_dentry_ptr_block;
     ni \<leftarrow> get_node_info m (unat ino);
     let e0 = dp_dentry d;
     let e1 = dp_dentry d + SIZE_OF_DIR_ENTRY;
     let b = (put_le16 (e0 + 8) 1 (put_le32 (e0 + 4) ino (put_le32 e0 0 zero_buf)))
               (e0 + 10 := F2FS_FT_DIR, de_name_at d 0 := 0x2e);
     let b = (put_le16 (e1 + 8) 2 (put_le32 (e1 + 4) (i_pino inode) (put_le32 e1 0 b)))
               (e1 + 10 := F2FS_FT_DIR, de_name_at d 1 := 0x2e, de_name_at d 1 + 1 := 0x2e);
     let b = set_slots d 0 2 b;
     (ret, blkaddr, m) \<leftarrow> reserve_new_block m 0 (set_summary (unat ino) 0 (ni_version ni)) CURSEG_HOT_DATA False;
     if ret \<noteq> 0 then None
     else do {
       m \<leftarrow> wr_blk blkaddr b m;
       Some (put_le32 (blkaddr_in_inode inode) (of_nat blkaddr) inode, m)
     }
   }"

definition page_symlink :: "mount \<Rightarrow> buf \<Rightarrow> u8 list \<Rightarrow> (buf \<times> mount) option" where
  "page_symlink m inode symname = do {
     let ino = footer_ino inode;
     ni \<leftarrow> get_node_info m (unat ino);
     if length symname + 1 \<le> MAX_INLINE_DATA (m_feature m) inode
     then Some (put_bytes (inline_data_addr inode) (length symname) (list_buf symname)
                  (inode(3 := i_inline inode OR F2FS_INLINE_DATA OR F2FS_DATA_EXIST)), m)
     else if length symname > F2FS_BLKSIZE then None
     else do {
       (ret, blkaddr, m) \<leftarrow> reserve_new_block m 0 (set_summary (unat ino) 0 (ni_version ni)) CURSEG_WARM_DATA False;
       if ret \<noteq> 0 then None
       else do {
         m \<leftarrow> wr_blk blkaddr (put_bytes 0 (length symname) (list_buf symname) zero_buf) m;
         Some (put_le32 (blkaddr_in_inode inode) (of_nat blkaddr) inode, m)
       }
     }
   }"

definition tolower :: "u8 \<Rightarrow> u8" where
  "tolower x = (if 0x41 \<le> x \<and> x \<le> 0x5a then x + 0x20 else x)"

definition is_extension_exist :: "u8 list \<Rightarrow> u8 list \<Rightarrow> bool" where
  "is_extension_exist s sub \<longleftrightarrow> length s \<ge> length sub + 2 \<and>
     (\<exists>i \<in> set [1..<length s - length sub]. s ! i = 0x2e \<and>
        map tolower (take (length sub) (drop (i + 1) s)) = map tolower sub)"

definition cstring_at :: "buf \<Rightarrow> nat \<Rightarrow> nat \<Rightarrow> u8 list" where
  "cstring_at b off n = takeWhile (\<lambda>x. x \<noteq> 0) (buf_bytes b off n)"

fun find_extension :: "buf \<Rightarrow> u8 list \<Rightarrow> nat \<Rightarrow> nat \<Rightarrow> nat" where
  "find_extension sb name i 0 = i"
| "find_extension sb name i (Suc k) =
     (if is_extension_exist name (cstring_at sb (1152 + 8 * i) (SB_SIZE - (1152 + 8 * i))) then i
      else find_extension sb name (i + 1) k)"

definition FADVISE_COLD_BIT :: u8 where "FADVISE_COLD_BIT = 0x01"
definition FADVISE_HOT_BIT :: u8 where "FADVISE_HOT_BIT = 0x20"

definition set_file_temperature :: "mount \<Rightarrow> u8 list \<Rightarrow> buf \<Rightarrow> buf" where
  "set_file_temperature m name nb =
     (let cold_count = unat (sb_extension_count (raw_super m));
          hot_count = unat (sb_hot_ext_count (raw_super m));
          i = find_extension (raw_super m) name 0 (cold_count + hot_count)
      in if i = cold_count + hot_count then nb
         else nb(2 := i_advise nb OR (if i < cold_count then FADVISE_COLD_BIT else FADVISE_HOT_BIT)))"

definition F2FS_FEATURE_EXTRA_ATTR :: u32 where "F2FS_FEATURE_EXTRA_ATTR = 0x8"
definition F2FS_FEATURE_PRJQUOTA :: u32 where "F2FS_FEATURE_PRJQUOTA = 0x10"
definition F2FS_FEATURE_INODE_CRTIME :: u32 where "F2FS_FEATURE_INODE_CRTIME = 0x100"
definition F2FS_FEATURE_COMPRESSION :: u32 where "F2FS_FEATURE_COMPRESSION = 0x2000"

definition calc_extra_isize :: "u32 \<Rightarrow> u16" where
  "calc_extra_isize feature =
     (let sz = 364;
          sz = (if feature AND F2FS_FEATURE_FLEXIBLE_INLINE_XATTR \<noteq> 0 then 364 else sz);
          sz = (if feature AND F2FS_FEATURE_PRJQUOTA \<noteq> 0 then 368 else sz);
          sz = (if feature AND F2FS_FEATURE_INODE_CHKSUM \<noteq> 0 then 372 else sz);
          sz = (if feature AND F2FS_FEATURE_INODE_CRTIME \<noteq> 0 then 384 else sz);
          sz = (if feature AND F2FS_FEATURE_COMPRESSION \<noteq> 0 then 396 else sz)
      in sz - 360)"

definition S_IFDIR :: u16 where "S_IFDIR = 0x4000"
definition S_IFREG :: u16 where "S_IFREG = 0x8000"
definition S_IFLNK :: u16 where "S_IFLNK = 0xA000"

text \<open>Mode, size, links and blocks of a new inode by its type; another type is a failing assertion.\<close>

definition new_inode_kind :: "mount \<Rightarrow> buf \<Rightarrow> dentry_req \<Rightarrow> (u16 \<times> nat \<times> u32 \<times> u32) option" where
  "new_inode_kind m nb de =
     (if rq_file_type de = F2FS_FT_DIR then Some (rq_mode de OR S_IFDIR, 4096, 2, 2)
      else if rq_file_type de = F2FS_FT_REG_FILE then Some (rq_mode de OR S_IFREG, 0, 1, 1)
      else if rq_file_type de = F2FS_FT_SYMLINK then
        (case rq_link de of
           None \<Rightarrow> None
         | Some l \<Rightarrow> Some (rq_mode de OR S_IFLNK, length l, 1, if length l + 1 > MAX_INLINE_DATA (m_feature m) nb then 2 else 1))
      else None)"

definition inode_fields :: "mount \<Rightarrow> dentry_req \<Rightarrow> u16 \<Rightarrow> nat \<Rightarrow> u32 \<Rightarrow> u32 \<Rightarrow> buf \<Rightarrow> buf" where
  "inode_fields m de mode sz links nblocks nb =
     (let nb = (put_le16 0 mode nb)(2 := 0);
          nb = put_le32 8 (ucast (rq_gid de)) (put_le32 4 (ucast (rq_uid de)) nb);
          nb = put_le64 24 (ucast nblocks) (put_le64 16 (of_nat sz) (put_le32 12 links nb));
          t = ucast (rq_mtime de);
          nb = put_le64 48 t (put_le64 40 t (put_le64 32 t nb));
          nb = put_le32 68 0 (put_le32 64 0 (put_le32 60 0 (put_le32 56 0 nb)));
          nb = put_le32 72 (if rq_file_type de = F2FS_FT_DIR then 1 else 0) nb;
          nb = (put_le32 80 0 (put_le32 76 0 nb))(3 := F2FS_INLINE_XATTR);
          nb = put_le32 88 (of_nat (length (rq_name de))) (put_le32 84 (rq_pino de) nb);
          nb = (put_bytes 92 (length (rq_name de)) (list_buf (rq_name de)) nb)(92 + length (rq_name de) := 0)
      in if m_feature m AND F2FS_FEATURE_EXTRA_ATTR \<noteq> 0
         then put_le16 360 (calc_extra_isize (m_feature m)) (nb(3 := i_inline nb OR F2FS_EXTRA_ATTR))
         else nb)"

definition init_inode_block :: "mount \<Rightarrow> buf \<Rightarrow> dentry_req \<Rightarrow> (buf \<times> mount) option" where
  "init_inode_block m nb de = do {
     (mode, sz, links, nblocks) \<leftarrow> new_inode_kind m nb de;
     let nb = set_file_temperature m (rq_name de) (inode_fields m de mode sz links nblocks nb);
     let nb = set_footer_cp_ver (cp_checkpoint_ver (ckpt m))
                (set_footer_flag 0 (set_footer_nid (rq_ino de) (set_footer_ino (rq_ino de) nb)));
     let nb = set_cold_node (S_ISDIR mode) nb;
     (nb, m) \<leftarrow> (if S_ISDIR mode then make_empty_dir m nb
                  else if S_ISLNK mode then page_symlink m nb (case rq_link de of Some l \<Rightarrow> l | None \<Rightarrow> [])
                  else Some (nb, m));
     Some (if m_feature m AND F2FS_FEATURE_INODE_CHKSUM \<noteq> 0
           then put_le32 368 (f2fs_inode_chksum (m_chksum_seed m) nb) nb else nb, m)
   }"

subsection \<open>Leaving the inline format\<close>

function convert_loop :: "casefold_fn \<Rightarrow> dentry_ptr \<Rightarrow> buf \<Rightarrow> nat \<Rightarrow> nat \<Rightarrow> buf \<Rightarrow> mount \<Rightarrow> (buf \<times> mount) option" where
  "convert_loop cf d src p_blkaddr bit_pos node m =
     (if \<not> bit_pos < dp_max d then Some (node, m)
      else if \<not> slot_used d src bit_pos then convert_loop cf d src p_blkaddr (bit_pos + 1) node m
      else if de_name_len d src bit_pos = 0 then convert_loop cf d src p_blkaddr (bit_pos + 1) node m
      else let namelen = de_name_len d src bit_pos; filename = buf_bytes src (de_name_at d bit_pos) namelen
           in if is_dot_dotdot filename then convert_loop cf d src p_blkaddr (bit_pos + GET_DENTRY_SLOTS namelen) node m
              else case f2fs_add_link cf m node filename (de_ino d src bit_pos) (de_file_type d src bit_pos) p_blkaddr False of
                     None \<Rightarrow> None
                   | Some (ret, node, m) \<Rightarrow> convert_loop cf d src p_blkaddr (bit_pos + GET_DENTRY_SLOTS namelen) node m)"
  by pat_completeness auto
termination
  by (relation "measure (\<lambda>(cf, d, src, p_blkaddr, bit_pos, node, m). dp_max d - bit_pos)")
     (auto simp: GET_DENTRY_SLOTS_def F2FS_SLOT_LEN_def)

declare convert_loop.simps [simp del]

definition inline_to_block :: "dentry_ptr \<Rightarrow> buf \<Rightarrow> buf \<Rightarrow> buf" where
  "inline_to_block s inline blk =
     (let d = make_dentry_ptr_block;
          blk = put_bytes (dp_bitmap d) (dp_nr_bitmap s) (at_off (dp_bitmap s) inline) blk;
          blk = put_bytes (dp_bitmap d + dp_nr_bitmap s) (dp_nr_bitmap d - dp_nr_bitmap s) zero_buf blk;
          blk = put_bytes (dp_dentry d) (SIZE_OF_DIR_ENTRY * dp_max s) (at_off (dp_dentry s) inline) blk
      in put_bytes (dp_filename d) (dp_max s * F2FS_SLOT_LEN) (at_off (dp_filename s) inline) blk)"

definition convert_inline_dentry :: "casefold_fn \<Rightarrow> mount \<Rightarrow> buf \<Rightarrow> nat \<Rightarrow> (int \<times> buf \<times> mount) option" where
  "convert_inline_dentry cf m node p_blkaddr =
     (if i_inline node AND F2FS_INLINE_DENTRY = 0 then Some (0, node, m)
      else do {
        let n = MAX_INLINE_DATA (m_feature m) node;
        let inline_data = at_off (inline_data_addr node) node;
        let node = (put_bytes (inline_data_addr node) n zero_buf node)(3 := i_inline node AND NOT F2FS_INLINE_DENTRY);
        m \<leftarrow> wr_blk p_blkaddr node m;
        if i_dir_level node = 0 then do {
          (err, dn, m) \<leftarrow> get_dnode_of_data m (set_new_dnode node NoBlk (unat (footer_ino node))) 0 ALLOC_NODE;
          (dn, m) \<leftarrow> (if data_blkaddr dn = NULL_ADDR
                      then do { (ret, dn, m) \<leftarrow> new_data_block m dn CURSEG_HOT_DATA; Some (dn, m) } else Some (dn, m));
          let src = make_dentry_ptr_inline (m_feature m) (inode_blk dn);
          m \<leftarrow> wr_blk (unat (data_blkaddr dn)) (inline_to_block src inline_data zero_buf) m;
          Some (0, inode_blk dn, m)
        }
        else do {
          (node, m) \<leftarrow> make_empty_dir m node;
          (node, m) \<leftarrow> convert_loop cf (make_dentry_ptr_inline (m_feature m) node) inline_data p_blkaddr 0 node m;
          Some (0, node, m)
        }
      })"

subsection \<open>Creating a file\<close>

text \<open>The cache of hard links, a search tree by \<open>from_devino\<close>: the inode made for a device and inode of the
  host, 0 while there is none.\<close>

type_synonym hardlinks = "u64 \<rightharpoonup> u32"

definition f2fs_search_hardlink :: "hardlinks \<Rightarrow> u64 \<Rightarrow> u32 \<times> hardlinks" where
  "f2fs_search_hardlink h devino = (case h devino of Some ino \<Rightarrow> (ino, h) | None \<Rightarrow> (0, h(devino \<mapsto> 0)))"

definition map_de_type :: "u16 \<Rightarrow> u8 option" where
  "map_de_type mode = map_of [(0, 0), (1, 5), (2, 3), (3, 0), (4, 2), (5, 0), (6, 4), (7, 0), (8, 1), (9, 0), (10, 7), (11, 0), (12, 6), (13, 0), (14, 0)]
     (drop_bit 12 (mode AND 0xF000))"

definition write_child :: "mount \<Rightarrow> u32 \<Rightarrow> node_info \<Rightarrow> buf \<Rightarrow> mount option" where
  "write_child m ino ni child = do {
     (ret, blkaddr, m) \<leftarrow> reserve_new_block m 0 (set_summary (unat ino) 0 (ni_version ni)) CURSEG_HOT_NODE True;
     if ret \<noteq> 0 then None
     else do {
       m \<leftarrow> update_nat_blkaddr m ino (unat ino) (of_nat blkaddr);
       wr_blk blkaddr child m
     }
   }"

text \<open>The part of \<open>f2fs_create\<close> for a name that does not exist yet. \<open>link\<close> is the inode to link to, 0 for a new
  file, \<open>None\<close> when no host file is given.\<close>

definition create_new :: "casefold_fn \<Rightarrow> mount \<Rightarrow> hardlinks \<Rightarrow> dentry_req \<Rightarrow> u32 option \<Rightarrow> node_info \<Rightarrow> buf \<Rightarrow>
    (int \<times> dentry_req \<times> hardlinks \<times> mount) option" where
  "create_new cf m h de link ni parent = do {
     let hard = (case link of Some ino \<Rightarrow> ino | None \<Rightarrow> 0);
     hni \<leftarrow> (if hard \<noteq> 0 then get_node_info m (unat hard) else Some ni);
     if hard \<noteq> 0 \<and> ni_blk_addr hni = NULL_ADDR then Some (-1, de, h, m)
     else do {
       (de, m) \<leftarrow> (if hard \<noteq> 0 then Some (de\<lparr>rq_ino := hard\<rparr>, m)
                    else do { (nid, m) \<leftarrow> f2fs_alloc_nid m; Some (de\<lparr>rq_ino := of_nat nid\<rparr>, m) });
       (child, m) \<leftarrow> init_inode_block m zero_buf de;
       type \<leftarrow> map_de_type (i_mode child);
       (ret, parent, m) \<leftarrow> f2fs_add_link cf m parent (buf_bytes child 92 (unat (i_namelen child))) (footer_ino child) type
                              (unat (ni_blk_addr ni)) True;
       if ret \<noteq> 0 then Some (0, de, h, m)
       else if hard \<noteq> 0 then do {
         child \<leftarrow> rd_blk m (unat (ni_blk_addr hni));
         m \<leftarrow> wr_blk (unat (ni_blk_addr hni)) (put_le32 12 (i_links child + 1) child) m;
         Some (0, de, h, m)
       }
       else do {
         m \<leftarrow> write_child m (rq_ino de) ni child;
         Some (0, de, if link = None then h else h(rq_from_devino de \<mapsto> rq_ino de), m)
       }
     }
   }"

definition f2fs_create :: "casefold_fn \<Rightarrow> mount \<Rightarrow> hardlinks \<Rightarrow> dentry_req \<Rightarrow> (int \<times> dentry_req \<times> hardlinks \<times> mount) option" where
  "f2fs_create cf m h de = do {
     ni \<leftarrow> get_node_info m (unat (rq_pino de));
     if ni_blk_addr ni = NULL_ADDR then Some (-1, de, h, m)
     else do {
       let (link, h) = (if rq_from_devino de \<noteq> 0 then apfst Some (f2fs_search_hardlink h (rq_from_devino de)) else (None, h));
       parent \<leftarrow> rd_blk m (unat (ni_blk_addr ni));
       (ret, parent, m) \<leftarrow> convert_inline_dentry cf m parent (unat (ni_blk_addr ni));
       if ret \<noteq> 0 then Some (-1, de, h, m)
       else do {
         r \<leftarrow> f2fs_find_entry cf m parent (rq_name de);
         case r of
           Some ino \<Rightarrow> Some (0, if rq_file_type de = F2FS_FT_REG_FILE then de\<lparr>rq_ino := 0\<rparr> else de\<lparr>rq_ino := ino\<rparr>, h, m)
         | None \<Rightarrow> create_new cf m h de link ni parent
       }
     }
   }"

definition f2fs_mkdir :: "casefold_fn \<Rightarrow> mount \<Rightarrow> hardlinks \<Rightarrow> dentry_req \<Rightarrow> (int \<times> dentry_req \<times> hardlinks \<times> mount) option" where
  "f2fs_mkdir cf m h de = f2fs_create cf m h de"

definition f2fs_symlink :: "casefold_fn \<Rightarrow> mount \<Rightarrow> hardlinks \<Rightarrow> dentry_req \<Rightarrow> (int \<times> dentry_req \<times> hardlinks \<times> mount) option" where
  "f2fs_symlink cf m h de = f2fs_create cf m h de"

subsection \<open>Room for a name\<close>

lemma room_loop_gap:
  assumes "room_loop bm slots n start < n" "start \<le> n"
  shows "room_loop bm slots n start + slots \<le> n \<and>
    (\<forall>i. room_loop bm slots n start \<le> i \<longrightarrow> i < room_loop bm slots n start + slots \<longrightarrow> test_bit_le i bm = 0)"
  using assms
proof (induction bm slots n start rule: room_loop.induct)
  case (1 bm slots n start)
  define zs where "zs = find_next_zero_bit_le bm n start"
  define ze where "ze = find_next_bit_le bm n (zs + 1)"
  have zs: "zs < n" using "1.prems"(1) by (auto simp: room_loop.simps [of bm slots n start] zs_def Let_def split: if_splits)
  have first: "first_from (\<lambda>i. test_bit_le i bm = 0) start n zs" "first_from (\<lambda>i. test_bit_le i bm \<noteq> 0) (zs + 1) n ze"
    using find_next_bits_first [OF "1.prems"(2), of bm] find_next_bits_first [of "zs + 1" n bm] zs by (simp_all add: zs_def ze_def)
  have clear: "test_bit_le i bm = 0" if "zs \<le> i" "i < ze" for i
    using first zs that by (cases "i = zs") (auto simp: first_from_def)
  have le: "ze \<le> n" "zs < ze" using first(2) zs by (auto simp: first_from_def)
  show ?case
  proof (cases "ze \<ge> zs + slots")
    case True
    then have "room_loop bm slots n start = zs"
      using zs unfolding room_loop.simps [of bm slots n start] Let_def zs_def [symmetric] ze_def [symmetric] by simp
    then show ?thesis using True clear le by auto
  next
    case False
    then have eq: "room_loop bm slots n start = room_loop bm slots n ze"
      using zs unfolding room_loop.simps [of bm slots n start] Let_def zs_def [symmetric] ze_def [symmetric] by simp
    show ?thesis
      unfolding eq by (rule "1.IH" [OF zs_def _ ze_def]) (use zs False "1.prems"(1) eq le in auto)
  qed
qed

lemma room_for_filename_gap:
  "room_for_filename bm slots n < n \<Longrightarrow> room_for_filename bm slots n + slots \<le> n \<and>
    (\<forall>i. room_for_filename bm slots n \<le> i \<longrightarrow> i < room_for_filename bm slots n + slots \<longrightarrow> test_bit_le i bm = 0)"
  using room_loop_gap [of bm slots n 0] by (simp add: room_for_filename_def)

subsection \<open>Well-formed entry blocks\<close>

abbreviation dblk :: dentry_ptr where "dblk \<equiv> make_dentry_ptr_block"

lemmas dblk_defs = make_dentry_ptr_block_def NR_DENTRY_IN_BLOCK_def SIZE_OF_DENTRY_BITMAP_def SIZE_OF_RESERVED_def
  SIZE_OF_DIR_ENTRY_def F2FS_BLKSIZE_def F2FS_SLOT_LEN_def

lemma dblk_sel [simp]:
  "dp_max dblk = 214" "dp_bitmap dblk = 0" "dp_dentry dblk = 30" "dp_filename dblk = 2384" "dp_size dblk = 4096"
  by (simp_all add: dblk_defs)

definition slots_of :: "buf \<Rightarrow> nat \<Rightarrow> nat" where
  "slots_of b i = GET_DENTRY_SLOTS (de_name_len dblk b i)"

text \<open>The entries found on the walk from a position: each has a name, and all its slots are marked.\<close>

inductive dents :: "buf \<Rightarrow> nat \<Rightarrow> nat list \<Rightarrow> bool" where
  dents_end: "214 \<le> pos \<Longrightarrow> dents b pos []"
| dents_gap: "pos < 214 \<Longrightarrow> \<not> slot_used dblk b pos \<Longrightarrow> dents b (pos + 1) es \<Longrightarrow> dents b pos es"
| dents_entry: "0 < de_name_len dblk b pos \<Longrightarrow> pos + slots_of b pos \<le> 214 \<Longrightarrow>
    (\<forall>i. pos \<le> i \<longrightarrow> i < pos + slots_of b pos \<longrightarrow> slot_used dblk b i) \<Longrightarrow> dents b (pos + slots_of b pos) es \<Longrightarrow> dents b pos (pos # es)"

definition de_matches :: "buf \<Rightarrow> u8 list \<Rightarrow> u32 \<Rightarrow> nat \<Rightarrow> bool" where
  "de_matches b name h i \<longleftrightarrow> de_name_len dblk b i = length name \<and> de_hash_code dblk b i = h \<and>
     buf_bytes b (de_name_at dblk i) (length name) = name"

lemma slots_pos: "0 < GET_DENTRY_SLOTS n \<longleftrightarrow> 0 < n"
  by (auto simp: GET_DENTRY_SLOTS_def F2FS_SLOT_LEN_def div_greater_zero_iff)

lemma slots_bound: "n \<le> 8 * GET_DENTRY_SLOTS n" "8 * GET_DENTRY_SLOTS n < n + 8"
  by (auto simp: GET_DENTRY_SLOTS_def F2FS_SLOT_LEN_def)

lemma dents_slots: "dents b pos es \<Longrightarrow> i \<in> set es \<Longrightarrow>
    pos \<le> i \<and> i + slots_of b i \<le> 214 \<and> 0 < slots_of b i \<and> (\<forall>j. i \<le> j \<longrightarrow> j < i + slots_of b i \<longrightarrow> slot_used dblk b j)"
  by (induction rule: dents.induct) (auto simp: slots_of_def slots_pos)

text \<open>On a well-formed block the walk returns the first entry that matches.\<close>

lemma find_target_dents:
  "dents b pos es \<Longrightarrow> \<exists>ms. find_target_loop name h dblk b pos ml mx = Some (List.find (de_matches b name h) es, ms)"
proof (induction arbitrary: ml mx rule: dents.induct)
  case (dents_end pos b)
  then show ?case by (subst find_target_loop.simps) simp
next
  case (dents_gap pos b es)
  then show ?case by (subst find_target_loop.simps) simp
next
  case (dents_entry b pos es)
  have used: "slot_used dblk b pos" "pos < 214"
    using dents_entry.hyps slots_pos [of "de_name_len dblk b pos"] by (auto simp: slots_of_def)
  have fit: "de_name_at dblk pos + length name \<le> 4096" if "de_name_len dblk b pos = length name"
    using dents_entry.hyps(2) slots_bound(1) [of "length name"] that
    by (simp add: slots_of_def de_name_at_def F2FS_SLOT_LEN_def)
  show ?case
    using dents_entry.IH [of 0 "max ml mx"] used fit
    by (subst find_target_loop.simps) (auto simp: de_matches_def [of b name h pos] slots_of_def)
qed

subsection \<open>Adding an entry to a block\<close>

lemma set_slots_byte: "27 \<le> x \<Longrightarrow> p + k \<le> 216 \<Longrightarrow> set_slots dblk p k b x = b x"
proof (induction k arbitrary: p b)
  case (Suc k)
  have "p div 8 \<noteq> x" using Suc.prems by linarith
  then show ?case using Suc by simp
qed simp

lemma set_slots_used: "slot_used dblk (set_slots dblk p k b) i \<longleftrightarrow> slot_used dblk b i \<or> p \<le> i \<and> i < p + k"
proof (induction k arbitrary: p b)
  case (Suc k)
  have "b(p div 8 := snd (test_and_set_bit_le p b) (p div 8)) = snd (test_and_set_bit_le p b)"
    by (auto simp: test_and_set_bit_le_def Let_def)
  then show ?case
    using Suc.IH [of "p + 1" "snd (test_and_set_bit_le p b)"] test_bit_le_set [of i p b] by (auto simp: slot_used_def at_off_def)
qed auto

text \<open>The effect of \<open>f2fs_update_dentry\<close> on the bytes behind the bitmap, and on the bitmap.\<close>

lemma update_dentry_byte:
  assumes "p + GET_DENTRY_SLOTS (length name) \<le> 214" "27 \<le> x"
  shows "f2fs_update_dentry ino ft dblk name h p b x =
    (((put_le32 (30 + 11 * p + 4) ino ((put_bytes (2384 + 8 * p) (length name) (list_buf name)
        (put_le32 (30 + 11 * p) h (put_le16 (30 + 11 * p + 8) (of_nat (length name)) b)))
        (2384 + 8 * p + length name := 0)))(30 + 11 * p + 10 := ft)) x)"
  using assms set_slots_byte [of x p "GET_DENTRY_SLOTS (length name)"]
  by (simp add: f2fs_update_dentry_def Let_def de_name_at_def SIZE_OF_DIR_ENTRY_def F2FS_SLOT_LEN_def)

lemma update_dentry_slots:
  assumes "i < 216"
  shows "slot_used dblk (f2fs_update_dentry ino ft dblk name h p b) i \<longleftrightarrow>
    slot_used dblk b i \<or> p \<le> i \<and> i < p + GET_DENTRY_SLOTS (length name)"
proof -
  define c where "c = (put_le32 (30 + 11 * p + 4) ino ((put_bytes (2384 + 8 * p) (length name) (list_buf name)
        (put_le32 (30 + 11 * p) h (put_le16 (30 + 11 * p + 8) (of_nat (length name)) b)))
        (2384 + 8 * p + length name := 0)))(30 + 11 * p + 10 := ft)"
  have "i div 8 < 27" using assms by simp
  then have "c (i div 8) = b (i div 8)" by (simp add: c_def buf_simps)
  then have "slot_used dblk c i = slot_used dblk b i" by (simp add: slot_used_def test_bit_le_def)
  moreover have "f2fs_update_dentry ino ft dblk name h p b = set_slots dblk p (GET_DENTRY_SLOTS (length name)) c"
    by (simp add: f2fs_update_dentry_def Let_def c_def de_name_at_def SIZE_OF_DIR_ENTRY_def F2FS_SLOT_LEN_def)
  ultimately show ?thesis by (simp add: set_slots_used)
qed

lemmas de_field_defs = de_name_len_def de_hash_code_def de_ino_def de_file_type_def de_name_at_def SIZE_OF_DIR_ENTRY_def F2FS_SLOT_LEN_def

lemma update_dentry_self:
  assumes "p + GET_DENTRY_SLOTS (length name) \<le> 214" "0 < length name" "length name < 2 ^ 16"
    and b': "b' = f2fs_update_dentry ino ft dblk name h p b"
  shows "de_name_len dblk b' p = length name" "de_hash_code dblk b' p = h" "de_ino dblk b' p = ino" "de_file_type dblk b' p = ft"
    "buf_bytes b' (de_name_at dblk p) (length name) = name"
proof -
  note byte = update_dentry_byte [OF assms(1), of _ ino ft h b, folded b']
  have p: "p < 214" using assms(1) slots_pos [of "length name"] assms(2) by linarith
  have n: "2384 + 8 * p + length name \<ge> 30 + 11 * p + 11" using p by linarith
  have "le16_at b' (30 + 11 * p + 8) = of_nat (length name)"
  proof -
    have "le16_at b' (30 + 11 * p + 8) = le16_at (put_le16 (30 + 11 * p + 8) (of_nat (length name)) b) (30 + 11 * p + 8)"
      by (rule le16_at_cong) (use p n in \<open>simp add: byte buf_simps\<close>)
    then show ?thesis by simp
  qed
  then show "de_name_len dblk b' p = length name" using assms(3) by (simp add: de_field_defs unat_of_nat take_bit_eq_mod)
  have "le32_at b' (30 + 11 * p) = le32_at (put_le32 (30 + 11 * p) h b) (30 + 11 * p)"
    by (rule le32_at_cong) (use p n in \<open>simp add: byte put_le32_def put_bytes_def put_le16_def\<close>)
  then show "de_hash_code dblk b' p = h" by (simp add: de_field_defs)
  have "le32_at b' (30 + 11 * p + 4) = le32_at (put_le32 (30 + 11 * p + 4) ino b) (30 + 11 * p + 4)"
    by (rule le32_at_cong) (use p n in \<open>simp add: byte put_le32_def\<close>)
  then show "de_ino dblk b' p = ino" by (simp add: de_field_defs)
  show "de_file_type dblk b' p = ft" by (simp add: de_field_defs byte)
  show "buf_bytes b' (de_name_at dblk p) (length name) = name"
    using p by (intro nth_equalityI) (auto simp: buf_bytes_def byte de_field_defs buf_simps list_buf_def)
qed

lemma update_dentry_other:
  assumes "p + GET_DENTRY_SLOTS (length name) \<le> 214" "i \<noteq> p" "i < 214" "0 < length name"
    and b': "b' = f2fs_update_dentry ino ft dblk name h p b"
  shows "de_name_len dblk b' i = de_name_len dblk b i" "de_hash_code dblk b' i = de_hash_code dblk b i"
    "de_ino dblk b' i = de_ino dblk b i" "de_file_type dblk b' i = de_file_type dblk b i"
    "8 * i + n \<le> 8 * p \<or> 8 * p + length name < 8 * i \<Longrightarrow> buf_bytes b' (de_name_at dblk i) n = buf_bytes b (de_name_at dblk i) n"
proof -
  note byte = update_dentry_byte [OF assms(1), of _ ino ft h b, folded b']
  have p: "p < 214" using assms(1) slots_pos [of "length name"] assms(4) by linarith
  have e: "b' (30 + 11 * i + k) = b (30 + 11 * i + k)" if "k < 11" for k
  proof -
    have "30 + 11 * i + k < 30 + 11 * p \<or> 30 + 11 * p + 11 \<le> 30 + 11 * i + k" using assms(2) that by presburger
    moreover have "30 + 11 * i + k < 2384 + 8 * p" using p assms(3) that by linarith
    ultimately show ?thesis by (auto simp: byte buf_simps)
  qed
  show "de_name_len dblk b' i = de_name_len dblk b i" "de_hash_code dblk b' i = de_hash_code dblk b i"
    "de_ino dblk b' i = de_ino dblk b i" "de_file_type dblk b' i = de_file_type dblk b i"
    using e [of 0] e [of 1] e [of 2] e [of 3] e [of 4] e [of 5] e [of 6] e [of 7] e [of 8] e [of 9] e [of 10]
    by (simp_all add: de_field_defs le32_at_def le16_at_def add.assoc)
  show "buf_bytes b' (de_name_at dblk i) n = buf_bytes b (de_name_at dblk i) n"
    if "8 * i + n \<le> 8 * p \<or> 8 * p + length name < 8 * i"
    using that p by (auto simp: buf_bytes_def byte de_field_defs buf_simps)
qed

text \<open>Where a new entry shows up on the walk.\<close>

lemma dents_skip: "dents b pos es \<Longrightarrow> (\<forall>i. pos \<le> i \<longrightarrow> i < pos + k \<longrightarrow> \<not> slot_used dblk b i) \<Longrightarrow> pos + k \<le> 214 \<Longrightarrow> dents b (pos + k) es"
proof (induction k arbitrary: pos)
  case (Suc k)
  have clear: "\<not> slot_used dblk b pos" using Suc.prems(2) by auto
  from Suc.prems(1) have "dents b (pos + 1) es"
  proof (cases rule: dents.cases)
    case dents_end
    then show ?thesis using Suc.prems(3) by simp
  next
    case (dents_entry es')
    then show ?thesis using clear slots_pos [of "de_name_len dblk b pos"] by (auto simp: slots_of_def)
  qed simp
  from Suc.IH [OF this] show ?case using Suc.prems by auto
qed simp

lemma dents_update_after:
  assumes "dents b pos es" "p + GET_DENTRY_SLOTS (length name) \<le> pos" "p + GET_DENTRY_SLOTS (length name) \<le> 214" "0 < length name"
  shows "dents (f2fs_update_dentry ino ft dblk name h p b) pos es"
  using assms
proof (induction rule: dents.induct)
  case (dents_end pos b)
  then show ?case by (simp add: dents.dents_end)
next
  case (dents_gap pos b es)
  show ?case by (rule dents.dents_gap) (use dents_gap in \<open>auto simp: update_dentry_slots\<close>)
next
  case (dents_entry b pos es)
  have k: "0 < slots_of b pos" "0 < GET_DENTRY_SLOTS (length name)"
    using dents_entry.hyps(1) dents_entry.prems(3) by (simp_all add: slots_of_def slots_pos)
  have same: "de_name_len dblk (f2fs_update_dentry ino ft dblk name h p b) pos = de_name_len dblk b pos"
    by (rule update_dentry_other(1)) (use dents_entry k in auto)
  then have s: "slots_of (f2fs_update_dentry ino ft dblk name h p b) pos = slots_of b pos" by (simp add: slots_of_def)
  show ?case
    by (rule dents.dents_entry) (use dents_entry same s in \<open>auto simp: update_dentry_slots\<close>)
qed

lemma dents_insert:
  assumes "dents b pos es" "pos \<le> p" "p + GET_DENTRY_SLOTS (length name) \<le> 214" "0 < length name" "length name < 2 ^ 16"
    and clear: "\<forall>i. p \<le> i \<longrightarrow> i < p + GET_DENTRY_SLOTS (length name) \<longrightarrow> \<not> slot_used dblk b i"
  shows "\<exists>es1 es2. es = es1 @ es2 \<and> dents (f2fs_update_dentry ino ft dblk name h p b) pos (es1 @ p # es2)"
  using assms
proof (induction rule: dents.induct)
  case (dents_end pos b)
  then show ?case using slots_pos [of "length name"] by simp
next
  case (dents_gap pos b es)
  let ?b' = "f2fs_update_dentry ino ft dblk name h p b" and ?k = "GET_DENTRY_SLOTS (length name)"
  have k: "0 < ?k" using dents_gap.prems(3) by (simp add: slots_pos)
  show ?case
  proof (cases "pos = p")
    case True
    have "dents b p es" using dents_gap True by (auto intro: dents.dents_gap)
    then have "dents ?b' (p + ?k) es"
      using dents_skip [of b p es ?k] dents_update_after [of b "p + ?k" es p name] dents_gap.prems by auto
    moreover have self: "de_name_len dblk ?b' p = length name"
      by (rule update_dentry_self(1)) (use dents_gap.prems in auto)
    ultimately have "dents ?b' p (p # es)"
      using dents_gap.prems by (intro dents.dents_entry) (auto simp: slots_of_def update_dentry_slots)
    then show ?thesis using True by (intro exI [of _ "[]"] exI [of _ es]) simp
  next
    case False
    then obtain es1 es2 where "es = es1 @ es2" "dents ?b' (pos + 1) (es1 @ p # es2)"
      using dents_gap.IH dents_gap.prems by auto
    moreover have "\<not> slot_used dblk ?b' pos" using dents_gap False by (auto simp: update_dentry_slots)
    ultimately show ?thesis using dents_gap.hyps(1) by (blast intro: dents.dents_gap)
  qed
next
  case (dents_entry b pos es)
  let ?b' = "f2fs_update_dentry ino ft dblk name h p b" and ?k = "GET_DENTRY_SLOTS (length name)"
  have k: "0 < ?k" "0 < slots_of b pos"
    using dents_entry.prems(3) dents_entry.hyps(1) by (simp_all add: slots_pos slots_of_def)
  have ne: "\<not> p < pos + slots_of b pos" using dents_entry.hyps(3) dents_entry.prems(1,5) k by auto
  then obtain es1 es2 where es: "es = es1 @ es2" "dents ?b' (pos + slots_of b pos) (es1 @ p # es2)"
    using dents_entry.IH dents_entry.prems by auto
  have same: "de_name_len dblk ?b' pos = de_name_len dblk b pos"
    by (rule update_dentry_other(1)) (use dents_entry k ne in auto)
  then have s: "slots_of ?b' pos = slots_of b pos" by (simp add: slots_of_def)
  have "dents ?b' pos (pos # es1 @ p # es2)"
    by (rule dents.dents_entry) (use dents_entry es same s in \<open>auto simp: update_dentry_slots\<close>)
  then show ?case using es(1) by (intro exI [of _ "pos # es1"] exI [of _ es2]) simp
qed

text \<open>The other entries keep their fields as long as the zero behind the name stays in the slots of the name
  or falls into a free one.\<close>

definition end_safe :: "buf \<Rightarrow> nat \<Rightarrow> u8 list \<Rightarrow> bool" where
  "end_safe b p name \<longleftrightarrow> length name mod 8 \<noteq> 0 \<or>
     p + GET_DENTRY_SLOTS (length name) < 214 \<and> \<not> slot_used dblk b (p + GET_DENTRY_SLOTS (length name))"

lemma insert_keeps_entry:
  assumes "dents b 0 es" "i \<in> set es" "p + GET_DENTRY_SLOTS (length name) \<le> 214" "0 < length name" "end_safe b p name"
    and clear: "\<forall>i. p \<le> i \<longrightarrow> i < p + GET_DENTRY_SLOTS (length name) \<longrightarrow> \<not> slot_used dblk b i"
    and b': "b' = f2fs_update_dentry ino ft dblk name h p b"
  shows "de_matches b' name' h' i = de_matches b name' h' i" "de_ino dblk b' i = de_ino dblk b i"
proof -
  let ?k = "GET_DENTRY_SLOTS (length name)" and ?n = "de_name_len dblk b i"
  note sl = dents_slots [OF assms(1,2)]
  have k: "0 < ?k" using assms(4) by (simp add: slots_pos)
  have ne: "i \<noteq> p" "i < 214" using sl clear k by auto
  have dis: "i + slots_of b i \<le> p \<or> p + ?k \<le> i"
  proof (rule ccontr)
    assume "\<not> ?thesis"
    then have "max i p < i + slots_of b i" "max i p < p + ?k" using k sl by auto
    then show False using sl clear by (meson max.cobounded1 max.cobounded2)
  qed
  have names: "8 * i + ?n \<le> 8 * p \<or> 8 * p + length name < 8 * i"
  proof (cases "i + slots_of b i \<le> p")
    case True
    then show ?thesis using slots_bound(1) [of ?n] by (simp add: slots_of_def)
  next
    case False
    then have pi: "p + ?k \<le> i" using dis by simp
    have "8 * p + length name \<noteq> 8 * i"
    proof
      assume "8 * p + length name = 8 * i"
      then have "length name mod 8 = 0" "i = p + ?k"
        by (presburger, simp add: GET_DENTRY_SLOTS_def F2FS_SLOT_LEN_def)
      then show False using assms(5) sl by (auto simp: end_safe_def)
    qed
    then show ?thesis using slots_bound(1) [of "length name"] pi by linarith
  qed
  note other = update_dentry_other [OF assms(3) ne assms(4) b']
  show "de_ino dblk b' i = de_ino dblk b i" by (rule other(3))
  show "de_matches b' name' h' i = de_matches b name' h' i"
    using other(1,2) other(5) [OF names] by (auto simp: de_matches_def)
qed

lemma slot_used_block: "slot_used dblk b i \<longleftrightarrow> test_bit_le i b \<noteq> 0"
  by (simp add: slot_used_def)

lemma find_one: "P x \<Longrightarrow> \<forall>y \<in> set xs. \<not> P y \<Longrightarrow> List.find P (xs @ x # ys) = Some x"
  by (induction xs) auto

lemma find_skip: "\<not> P x \<Longrightarrow> List.find P (xs @ x # ys) = List.find P (xs @ ys)"
  by (induction xs) auto

lemma find_cong_set: "\<forall>x \<in> set xs. P x = Q x \<Longrightarrow> List.find P xs = List.find Q xs"
  by (induction xs) auto

lemma update_dentry_finds:
  assumes wf: "dents b 0 es" and len: "0 < length name" "length name < 2 ^ 16"
    and p: "p = room_for_filename b (GET_DENTRY_SLOTS (length name)) 214" "p < 214" and safe: "end_safe b p name"
    and b': "b' = f2fs_update_dentry ino ft dblk name h p b"
  obtains es1 es2 where "es = es1 @ es2" "dents b' 0 (es1 @ p # es2)"
    "\<And>i name' h'. i \<in> set es \<Longrightarrow> de_matches b' name' h' i = de_matches b name' h' i \<and> de_ino dblk b' i = de_ino dblk b i"
    "\<And>name' h'. de_matches b' name' h' p \<longleftrightarrow> name' = name \<and> h' = h" "de_ino dblk b' p = ino" "p \<notin> set es"
proof -
  let ?k = "GET_DENTRY_SLOTS (length name)"
  have room: "p + ?k \<le> 214" "\<forall>i. p \<le> i \<longrightarrow> i < p + ?k \<longrightarrow> \<not> slot_used dblk b i"
    using room_for_filename_gap [of b ?k 214] p by (auto simp: slot_used_block)
  obtain es1 es2 where es: "es = es1 @ es2" "dents b' 0 (es1 @ p # es2)"
    using dents_insert [OF wf _ room(1) len room(2), of ino ft h] b' by auto
  note self = update_dentry_self [OF room(1) len b']
  have m: "de_matches b' name' h' p \<longleftrightarrow> name' = name \<and> h' = h" for name' h'
    using self by (auto simp: de_matches_def)
  have "p \<notin> set es" using dents_slots [OF wf, of p] room(2) len(1) by (auto simp: slots_pos)
  moreover have "de_matches b' name' h' i = de_matches b name' h' i \<and> de_ino dblk b' i = de_ino dblk b i"
    if "i \<in> set es" for i name' h'
    using insert_keeps_entry [OF wf that room(1) len(1) safe room(2) b'] by blast
  ultimately show ?thesis using that [OF es] m self(3) by blast
qed


lemma dents_clear: "(\<forall>i. pos \<le> i \<longrightarrow> i < 214 \<longrightarrow> \<not> slot_used dblk b i) \<Longrightarrow> dents b pos []"
proof (induction "214 - pos" arbitrary: pos)
  case (Suc k)
  have "dents b (pos + 1) []" using Suc.hyps(1) [of "pos + 1"] Suc by auto
  then show ?case by (rule dents_gap [rotated 2]) (use Suc in auto)
qed (simp add: dents_end)

lemma zero_block: "\<not> slot_used dblk zero_buf i" "dents zero_buf 0 []" "room_for_filename zero_buf k 214 = 0 \<or> 214 < k"
proof -
  show c: "\<not> slot_used dblk zero_buf i" for i by (simp add: slot_used_def test_bit_le_def zero_buf_def)
  then show "dents zero_buf 0 []" by (simp add: dents_clear)
  have f: "first_from (\<lambda>i. test_bit_le i zero_buf = 0) 0 214 (find_next_zero_bit_le zero_buf 214 0)"
    "first_from (\<lambda>i. test_bit_le i zero_buf \<noteq> 0) 1 214 (find_next_bit_le zero_buf 214 1)"
    using find_next_bits_first [of 0 214 zero_buf] find_next_bits_first [of 1 214 zero_buf] by auto
  have "test_bit_le i zero_buf = 0" for i using c [of i] by (simp add: slot_used_block)
  then have "find_next_zero_bit_le zero_buf 214 0 = 0" "find_next_bit_le zero_buf 214 1 = 214"
    using f by (auto simp: first_from_def dest: spec [of _ 0])
  then show "room_for_filename zero_buf k 214 = 0 \<or> 214 < k"
    unfolding room_for_filename_def by (subst room_loop.simps) (simp add: Let_def)
qed


text \<open>Property C38. A name whose length is a multiple of eight destroys the next entry: in a block where slot 0 is free
  and slot 1 holds the name \<open>b\<close>, adding a name of eight bytes, which goes to slot 0, makes the lookup of \<open>b\<close> fail,
  because the zero behind the new name overwrites its first byte.\<close>

theorem update_dentry_clobbers_next:
  "\<exists>b. (\<exists>n. find_in_block [0x62] h b = Some (Some 1, n)) \<and> room_for_filename b (GET_DENTRY_SLOTS 8) 214 = 0 \<and>
     (\<exists>n. find_in_block [0x62] h (f2fs_update_dentry ino ft make_dentry_ptr_block (replicate 8 0x61) h' 0 b) = Some (None, n))"
proof -
  define b where "b = f2fs_update_dentry 5 1 dblk [0x62] h 1 zero_buf"
  define b' where "b' = f2fs_update_dentry ino ft dblk (replicate 8 0x61) h' 0 b"
  have k: "GET_DENTRY_SLOTS (length [0x62 :: u8]) = 1" "GET_DENTRY_SLOTS (length (replicate 8 (0x61 :: u8))) = 1"
    by (simp_all add: GET_DENTRY_SLOTS_def F2FS_SLOT_LEN_def)
  have used: "slot_used dblk b i \<longleftrightarrow> i = 1" if "i < 216" for i
    using update_dentry_slots [OF that, of 5 1 "[0x62]" h 1 zero_buf] k zero_block(1) by (auto simp: b_def)
  obtain es1 es2 where "[] = es1 @ es2" and wf: "dents b 0 (es1 @ 1 # es2)"
    using dents_insert [OF zero_block(2), of 1 "[0x62]" 5 1 h] k zero_block(1) by (auto simp: b_def)
  then have wf: "dents b 0 [1]" by simp
  note s1 = update_dentry_self [of 1 "[0x62]" b 5 1 h zero_buf, OF _ _ _ b_def]
  have "de_matches b [0x62] h 1" using s1 k by (simp add: de_matches_def)
  then have find: "\<exists>n. find_in_block [0x62] h b = Some (Some 1, n)"
    using find_target_dents [OF wf, of "[0x62]" h 0 0] by (simp add: find_in_block_def find_target_dentry_def)
  have room: "room_for_filename b (GET_DENTRY_SLOTS 8) 214 = 0"
  proof -
    have t: "test_bit_le i b = 0 \<longleftrightarrow> i \<noteq> 1" if "i < 216" for i using used [OF that] by (auto simp: slot_used_block)
    have "find_next_zero_bit_le b 214 0 = 0"
      using find_next_bits_first [of 0 214 b] t [of 0] by (auto simp: first_from_def)
    moreover have "find_next_bit_le b 214 1 = 1"
      using find_next_bits_first [of 1 214 b] t [of 1] by (auto simp: first_from_def)
    ultimately show ?thesis
      unfolding room_for_filename_def by (subst room_loop.simps) (simp add: Let_def GET_DENTRY_SLOTS_def F2FS_SLOT_LEN_def)
  qed
  have c0: "\<forall>i. 0 \<le> i \<longrightarrow> i < 0 + GET_DENTRY_SLOTS (length (replicate 8 (0x61 :: u8))) \<longrightarrow> \<not> slot_used dblk b i"
    using used k(2) by simp
  obtain fs1 fs2 where fs: "[1] = fs1 @ fs2" "dents b' 0 (fs1 @ 0 # fs2)"
    using dents_insert [OF wf _ _ _ _ c0, of ino ft h'] k(2) by (auto simp: b'_def)
  have "\<not> de_matches b' [0x62] h 0"
    using update_dentry_self(1) [of 0 "replicate 8 0x61" b' ino ft h' b, OF _ _ _ b'_def] k(2) by (simp add: de_matches_def)
  moreover have "\<not> de_matches b' [0x62] h 1"
  proof -
    have "b' (2384 + 8) = 0"
      using update_dentry_byte [of 0 "replicate 8 0x61" "2384 + 8" ino ft h' b] k(2) by (simp add: b'_def buf_simps)
    then show ?thesis by (simp add: de_matches_def buf_bytes_def de_name_at_def F2FS_SLOT_LEN_def)
  qed
  ultimately have "List.find (de_matches b' [0x62] h) (fs1 @ 0 # fs2) = None"
    using fs(1) by (auto simp: Cons_eq_append_conv)
  then have "\<exists>n. find_in_block [0x62] h b' = Some (None, n)"
    using find_target_dents [OF fs(2), of "[0x62]" h 0 0] by (simp add: find_in_block_def find_target_dentry_def)
  then show ?thesis using find room unfolding b'_def by blast
qed

lemma find_target_stuck:
  assumes "find_target_loop name h d b pos ml mx = Some r" "d = dblk" "slot_used dblk b pos" "de_name_len dblk b pos = 0" "name \<noteq> []" "pos < 214"
  shows False
  using assms
proof (induction rule: find_target_loop.raw_induct [rotated, consumes 1, case_names step])
  case (step f name h d b pos ml mx r)
  then have "f name h d b pos 0 (max ml mx) = Some r" by (simp add: GET_DENTRY_SLOTS_def F2FS_SLOT_LEN_def)
  from step.IH [OF this] step.prems show ?case by blast
qed

text \<open>Property C39. A lookup does not return from a directory block whose first entry is marked as used but has an
  empty name: the walk moves on by the slots of the name, which are none.\<close>

theorem find_in_block_hangs:
  assumes "slot_used make_dentry_ptr_block b 0" and "de_name_len make_dentry_ptr_block b 0 = 0" and "name \<noteq> []"
  shows "find_in_block name h b = None"
  using find_target_stuck [of name h dblk b 0 0 0] assms
  by (cases "find_in_block name h b") (auto simp: find_in_block_def find_target_dentry_def)

theorem find_in_block_hangs_witness: "find_in_block [0x61] 5 (zero_buf(0 := 1)) = None"
  by (rule find_in_block_hangs)
     (simp_all add: slot_used_def test_bit_le_def de_name_len_def SIZE_OF_DIR_ENTRY_def le16_at_upd)

subsection \<open>Adding and finding a name\<close>

lemma get_dnode_direct:
  assumes "idx < addrs_per_inode (m_feature m) inode" "get_node_info m nid = Some ni" "datablock_addr inode idx = Some a"
  shows "get_dnode_of_data m (set_new_dnode inode NoBlk nid) idx mode =
    Some (0, \<lparr>inode_blk = inode, node_blk = InodeBlk, dn_nid = nid, ofs_in_node = idx, data_blkaddr = a,
      node_blkaddr = unat (ni_blk_addr ni), idirty = False, ndirty = False\<rparr>, m)"
  using assms by (simp add: get_dnode_of_data_def get_node_path_def set_new_dnode_def Let_def)

text \<open>The fields of a directory inode the lookup of a block depends on.\<close>

definition dir_fields :: "buf \<Rightarrow> u32 \<Rightarrow> (u32 \<times> u32 \<times> u8) \<times> (bool \<times> nat) \<times> (nat \<Rightarrow> u32 option)" where
  "dir_fields b feature = ((footer_ino b, i_flags b, i_dir_level b), (IS_INODE b, addrs_per_inode feature b), datablock_addr b)"

lemma dir_fields_cong:
  assumes eq: "\<And>x. x < 12 \<or> 24 \<le> x \<and> x < 72 \<or> 76 \<le> x \<Longrightarrow> b' x = b x" and "IS_INODE b"
  shows "dir_fields b' feature = dir_fields b feature"
proof -
  have l: "le32_at b' o' = le32_at b o'" if "76 \<le> o'" for o' using eq that by (intro le32_at_cong) auto
  have s: "le16_at b' o' = le16_at b o'" if "o' = 0 \<or> 76 \<le> o'" for o' using eq that by (intro le16_at_cong) auto
  have c: "b' x = b x" if "x = 3 \<or> 76 \<le> x" for x using eq that by auto
  have f: "footer_ino b' = footer_ino b" "footer_nid b' = footer_nid b" "i_flags b' = i_flags b" "i_dir_level b' = i_dir_level b"
    "i_inline b' = i_inline b" "i_extra_isize b' = i_extra_isize b" "i_inline_xattr_size b' = i_inline_xattr_size b"
    "i_mode b' = i_mode b" "i_log_cluster_size b' = i_log_cluster_size b"
    by (simp_all add: node_fields i_dir_level_def l s c)
  have e: "get_extra_isize b' = get_extra_isize b" by (simp add: get_extra_isize_def f2fs_has_extra_isize_def f)
  have a: "addrs_per_inode feature b' = addrs_per_inode feature b"
    unfolding addrs_per_inode_def CUR_ADDRS_PER_INODE_def e get_inline_xattr_addrs_def f is_compressed_def cluster_size_def ..
  have i: "IS_INODE b' = IS_INODE b" by (simp add: IS_INODE_def f)
  have "datablock_addr b' = datablock_addr b"
    using assms(2) by (intro ext) (simp add: datablock_addr_def blkaddr_in_node_def blkaddr_in_inode_def i e Let_def l)
  then show ?thesis by (simp add: dir_fields_def f a i)
qed

lemma update_parent_dn:
  assumes "IS_INODE (inode_blk dn)" "node_blk dn = InodeBlk" "\<not> ndirty dn" "of_nat depth = i_current_depth (inode_blk dn)"
  shows "dir_fields (inode_blk (update_parent depth block new dn)) feature = dir_fields (inode_blk dn) feature"
    "ndirty (update_parent depth block new dn) = False"
    "i_current_depth (inode_blk (update_parent depth block new dn)) = i_current_depth (inode_blk dn)"
  using assms by (auto simp: update_parent_def Let_def i_current_depth_def set_i_size_def buf_simps intro!: dir_fields_cong le32_at_cong)

lemma dir_fields_views:
  assumes "dir_fields p' feature = dir_fields p feature"
  shows "footer_ino p' = footer_ino p" "name_hash cf p' name = name_hash cf p name" "first_bidx cf p' level name = first_bidx cf p level name"
    "addrs_per_inode feature p' = addrs_per_inode feature p" "datablock_addr p' = datablock_addr p"
proof -
  have f: "footer_ino p' = footer_ino p" "i_flags p' = i_flags p" "i_dir_level p' = i_dir_level p"
    using assms by (auto simp: dir_fields_def)
  show "footer_ino p' = footer_ino p" "name_hash cf p' name = name_hash cf p name" "first_bidx cf p' level name = first_bidx cf p level name"
    using f by (simp_all add: name_hash_def first_bidx_def IS_CASEFOLDED_def)
  show "addrs_per_inode feature p' = addrs_per_inode feature p" "datablock_addr p' = datablock_addr p"
    using assms by (simp_all add: dir_fields_def)
qed

lemma get_node_info_disk:
  assumes "get_node_info m nid = Some ni" "last_blk d = last_blk (dsk m)"
  shows "\<exists>ni'. get_node_info (m\<lparr>dsk := d\<rparr>) nid = Some ni'"
proof -
  have j: "lookup_nat_in_journal (m\<lparr>dsk := d\<rparr>) nid = lookup_nat_in_journal m nid"
    by (simp add: lookup_nat_in_journal_def nat_journal_def)
  have "get_nat_entry m nid \<noteq> None \<Longrightarrow> get_nat_entry (m\<lparr>dsk := d\<rparr>) nid \<noteq> None"
    using assms(2) by (auto simp: get_nat_entry_def j rd_blk_def blk_read_def split: option.splits if_splits)
  then show ?thesis using assms(1) by (auto simp: get_node_info_def Let_def split: if_splits)
qed

definition dir_ready :: "casefold_fn \<Rightarrow> mount \<Rightarrow> buf \<Rightarrow> u8 list \<Rightarrow> u32 \<Rightarrow> nat list \<Rightarrow> bool" where
  "dir_ready cf m parent name a es \<longleftrightarrow>
     (let bidx = first_bidx cf parent 0 name; b = blocks (dsk m) (unat a);
          p = room_for_filename b (GET_DENTRY_SLOTS (length name)) NR_DENTRY_IN_BLOCK
      in IS_INODE parent \<and> footer_ino parent \<noteq> 0 \<and> i_current_depth parent \<noteq> 0 \<and> unat (i_current_depth parent) \<noteq> MAX_DIR_HASH_DEPTH \<and>
         bidx < addrs_per_inode (m_feature m) parent \<and> bidx + 1 < 2 ^ 19 \<and> datablock_addr parent bidx = Some a \<and> a \<noteq> NULL_ADDR \<and>
         unat a \<le> last_blk (dsk m) \<and> \<not> disk_ro (dsk m) \<and> get_node_info m (unat (footer_ino parent)) \<noteq> None \<and>
         dents b 0 es \<and> (\<forall>i \<in> set es. \<not> de_matches b name (name_hash cf parent name) i) \<and>
         p < NR_DENTRY_IN_BLOCK \<and> end_safe b p name)"

lemma find_level_first:
  assumes "datablock_addr dir bidx = Some a" "a \<noteq> NULL_ADDR" "bidx < addrs_per_inode (m_feature m) dir"
    "get_node_info m (unat (footer_ino dir)) = Some ni" "rd_blk m (unat a) = Some b" "find_in_block name h b = Some (Some i, n)"
  shows "find_level_loop m dir name h bidx (Suc k) = Some (Some (de_ino dblk b i))"
  using assms get_dnode_direct [OF assms(3,4,1)] by simp


definition demo_dir :: buf where
  "demo_dir = put_le32 72 1 (put_le32 360 5000 (put_le32 4072 7 (put_le32 4076 7 zero_buf)))"

lemma zero_buf_byte: "zero_buf i = 0"
  by (simp add: zero_buf_def)

lemma demo_dir_ready: "dir_ready cf (demo_mount demo_journal) demo_dir [0x61] 5000 []"
proof -
  have f: "footer_ino demo_dir = 7" "footer_nid demo_dir = 7" "i_current_depth demo_dir = 1" "i_inline demo_dir = 0" "i_dir_level demo_dir = 0"
    "i_flags demo_dir = 0" "le32_at demo_dir 360 = 5000"
    by (simp_all add: demo_dir_def node_fields i_current_depth_def i_dir_level_def buf_simps zero_buf_byte)
  have e: "get_extra_isize demo_dir = 0" by (simp add: get_extra_isize_def f2fs_has_extra_isize_def f)
  have "dir_buckets 0 0 = 1" by (simp add: dir_buckets_def MAX_DIR_HASH_DEPTH_def)
  then have b: "first_bidx cf demo_dir 0 [0x61] = 0" by (simp add: first_bidx_def f dir_block_index_def)
  have a: "addrs_per_inode 0 demo_dir = 923"
    by (simp add: addrs_per_inode_def CUR_ADDRS_PER_INODE_def e get_inline_xattr_addrs_def f is_compressed_def DEF_ADDRS_PER_INODE_def)
  have "get_node_info (demo_mount demo_journal) 7 \<noteq> None"
    by (simp add: get_node_info_def Let_def demo_get_nat_entry)
  moreover have "room_for_filename zero_buf (GET_DENTRY_SLOTS (Suc 0)) 214 = 0"
    using zero_block(3) [of 1] by (simp add: GET_DENTRY_SLOTS_def F2FS_SLOT_LEN_def)
  ultimately show ?thesis
    using f b a e
    by (simp add: dir_ready_def Let_def IS_INODE_def MAX_DIR_HASH_DEPTH_def NR_DENTRY_IN_BLOCK_def zero_block end_safe_def
        datablock_addr_def blkaddr_in_node_def blkaddr_in_inode_def F2FS_BLKSIZE_def NULL_ADDR_def demo_mount_def)
qed

end
