(* ===== verification/Format.thy ===== *)
theory Format
  imports Dir Recovery Utf "HOL-Library.Log_Nat"
begin

text \<open>
  Formatting, \<open>mkfs/f2fs_format.c\<close>, first half: \<open>f2fs_prepare_super_block\<close>, the layout of the volume.
  The computation runs at the widths of the C variables; a division by zero, a shift of 32 or
  more and a conversion of a \<open>double\<close> that does not fit are \<open>None\<close>. The second half, writing the
  areas, is in \<open>FormatDisk\<close>.
\<close>

subsection \<open>Floating point\<close>

text \<open>A finite \<open>double\<close> is a rational number; an operation rounds its exact result to 53 significant bits, to
  even on a tie. Exponents stay far from the limits of the format here, so that there are no subnormal
  numbers and no overflow.\<close>

type_synonym double = rat

definition pow2 :: "int \<Rightarrow> rat" where
  "pow2 e = (if 0 \<le> e then 2 ^ nat e else 1 / 2 ^ nat (- e))"

definition round_even :: "rat \<Rightarrow> int" where
  "round_even x =
     (let r = \<lfloor>x\<rfloor>; frac = x - of_int r
      in if frac < 1 / 2 \<or> (frac = 1 / 2 \<and> even r) then r else r + 1)"

definition rnd53 :: "rat \<Rightarrow> double" where
  "rnd53 x =
     (if x = 0 then 0
      else let (a, b) = quotient_of \<bar>x\<bar>;
               e = int (floorlog 2 (nat a)) - int (floorlog 2 (nat b)) - 52;
               e = (if \<bar>x\<bar> < 2 ^ 52 * pow2 e then e - 1 else e)
           in sgn x * of_int (round_even (\<bar>x\<bar> / pow2 e)) * pow2 e)"

definition fl_add :: "double \<Rightarrow> double \<Rightarrow> double" where "fl_add x y = rnd53 (x + y)"
definition fl_sub :: "double \<Rightarrow> double \<Rightarrow> double" where "fl_sub x y = rnd53 (x - y)"
definition fl_mul :: "double \<Rightarrow> double \<Rightarrow> double" where "fl_mul x y = rnd53 (x * y)"
definition fl_div :: "double \<Rightarrow> double \<Rightarrow> double" where "fl_div x y = rnd53 (x / y)"
definition double_of_u32 :: "u32 \<Rightarrow> double" where "double_of_u32 w = of_nat (unat w)"
definition double_to_u32 :: "double \<Rightarrow> u32 option" where
  "double_to_u32 x = (if -1 < x \<and> x < 2 ^ 32 then Some (if x < 0 then 0 else word_of_int \<lfloor>x\<rfloor>) else None)"

definition round_up :: "u32 \<Rightarrow> u32 \<Rightarrow> u32 option" where
  "round_up x y = (if y = 0 then None else Some ((x + y - 1) div y))"

text \<open>Without support for zoned devices every segment of the main area is usable.\<close>

definition f2fs_get_usable_segments :: "buf \<Rightarrow> u32" where
  "f2fs_get_usable_segments sb = sb_segment_count_main sb"

definition reserved_for :: "double \<Rightarrow> u32 \<Rightarrow> double" where
  "reserved_for candidate per_sec =
     fl_mul (fl_add (fl_mul 2 (fl_add (fl_div 100 candidate) 1)) 6) (double_of_u32 per_sec)"

partial_function (option) best_ovp_loop ::
  "u32 \<Rightarrow> u32 \<Rightarrow> double \<Rightarrow> double \<Rightarrow> double \<Rightarrow> double \<Rightarrow> double \<Rightarrow> double option" where
  "best_ovp_loop usable per_sec candidate limit diff max_space max_ovp =
     (if \<not> candidate \<le> limit then Some max_ovp
      else let u = double_of_u32 usable;
               reserved = reserved_for candidate per_sec;
               ovp = fl_div (fl_mul (fl_sub u reserved) candidate) 100;
               space = fl_sub (fl_sub u reserved) ovp
           in if max_space < space then best_ovp_loop usable per_sec (fl_add candidate diff) limit diff space candidate
              else best_ovp_loop usable per_sec (fl_add candidate diff) limit diff max_space max_ovp)"

definition get_best_overprovision :: "buf \<Rightarrow> double option" where
  "get_best_overprovision sb =
     (let usable_main_segs = f2fs_get_usable_segments sb
      in do {
        per_sec \<leftarrow> round_up usable_main_segs (sb_section_count sb);
        if sb_segment_count_main sb < 256 then best_ovp_loop usable_main_segs per_sec 10 95 5 0 0
        else best_ovp_loop usable_main_segs per_sec (rnd53 (1 / 100)) 10 (rnd53 (1 / 100)) 0 0
      })"

subsection \<open>Configuration\<close>

text \<open>The parts of \<open>struct f2fs_configuration\<close> and \<open>struct device_info\<close> that formatting uses. The path of a
  device is the 64 bytes at its address.\<close>

record mkfs_device =
  dv_path :: buf
  dv_total_sectors :: u64
  dv_start_blkaddr :: u64
  dv_end_blkaddr :: u64
  dv_total_segments :: u32
  dv_zoned_hm :: bool
  dv_nr_rnd_zones :: u32

record mkfs_conf =
  k_sector_size :: u32
  k_sectors_per_blk :: u32
  k_blks_per_seg :: u32
  k_segs_per_sec :: u32
  k_secs_per_zone :: u32
  k_segs_per_zone :: u32
  k_start_sector :: u32
  k_total_sectors :: u64
  k_total_segments :: u32
  k_overprovision :: double
  k_reserved_segments :: u32
  k_cur_seg :: "nat \<Rightarrow> u32"
  k_feature :: u32
  k_zoned_mode :: bool
  k_zone_blocks :: u64
  k_heap :: bool
  k_trim :: bool
  k_trimmed :: bool
  k_large_nat_bitmap :: bool
  k_devices :: "mkfs_device list"
  k_ext_media :: "u8 list option"
  k_ext_hot :: "u8 list option"
  k_vol_uuid :: "u8 list option"
  k_vol_label :: "u8 list"
  k_major_ver :: u16
  k_minor_ver :: u16
  k_s_encoding :: u16
  k_s_encoding_flags :: u16
  k_quota_bits :: u32
  k_next_free_nid :: u32
  k_quota_inum :: u32
  k_quota_dnum :: u32
  k_lpf_ino :: u32
  k_lpf_inum :: u32
  k_lpf_dnum :: u32
  k_root_uid :: u32
  k_root_gid :: u32
  k_chksum_seed :: u32

text \<open>What formatting takes from outside: the UUID made from the given string (\<open>None\<close>: the string is not
  one), the version text of the running kernel, the value of \<open>rand\<close> and the time.\<close>

record mkfs_env =
  env_uuid :: "u8 list option \<Rightarrow> buf option"
  env_version :: buf
  env_rand :: "31 word"
  env_time :: u64

definition has_feature :: "mkfs_conf \<Rightarrow> u32 \<Rightarrow> bool" where
  "has_feature c f \<longleftrightarrow> k_feature c AND f \<noteq> 0"

definition F2FS_FEATURE_LOST_FOUND :: u32 where "F2FS_FEATURE_LOST_FOUND = 0x200"
definition CURSEG_WARM_DATA :: nat where "CURSEG_WARM_DATA = 1"
definition CURSEG_WARM_NODE :: nat where "CURSEG_WARM_NODE = 4"
definition CURSEG_COLD_NODE :: nat where "CURSEG_COLD_NODE = 5"
definition NR_CURSEG_TYPE :: nat where "NR_CURSEG_TYPE = 6"
definition F2FS_MAX_QUOTAS :: nat where "F2FS_MAX_QUOTAS = 3"
definition MAX_VOLUME_NAME :: nat where "MAX_VOLUME_NAME = 512"
definition VERSION_LEN :: nat where "VERSION_LEN = 256"
definition MAX_PATH_LEN :: nat where "MAX_PATH_LEN = 64"
definition MAX_BITMAP_SIZE_IN_CKPT :: u32 where "MAX_BITMAP_SIZE_IN_CKPT = 3900"
definition MAX_SIT_BITMAP_SIZE_IN_CKPT :: u32 where "MAX_SIT_BITMAP_SIZE_IN_CKPT = 3836"

definition prev_zone :: "mkfs_conf \<Rightarrow> nat \<Rightarrow> u32" where
  "prev_zone c cur = k_cur_seg c cur - k_segs_per_zone c"
definition next_zone :: "mkfs_conf \<Rightarrow> nat \<Rightarrow> u32" where
  "next_zone c cur = k_cur_seg c cur + k_segs_per_zone c"
definition last_zone :: "mkfs_conf \<Rightarrow> u32 \<Rightarrow> u32" where
  "last_zone c cur = (cur - 1) * k_segs_per_zone c"
definition last_section :: "mkfs_conf \<Rightarrow> u32 \<Rightarrow> u32" where
  "last_section c cur = cur + (k_secs_per_zone c - 1) * k_segs_per_sec c"

definition set_cur_seg :: "nat \<Rightarrow> u32 \<Rightarrow> mkfs_conf \<Rightarrow> mkfs_conf" where
  "set_cur_seg i v c = c\<lparr>k_cur_seg := (k_cur_seg c)(i := v)\<rparr>"

subsection \<open>File name extensions\<close>

definition bytes_of :: "string \<Rightarrow> u8 list" where
  "bytes_of s = map of_char s"

definition media_ext_lists :: "u8 list list" where
  "media_ext_lists = map bytes_of
     [''mp'', ''wm'', ''og'', ''jp'', ''avi'', ''m4v'', ''m4p'', ''mkv'', ''mov'', ''webm'', ''wav'', ''m4a'', ''3gp'', ''opus'', ''flac'',
      ''gif'', ''png'', ''svg'', ''webp'', ''jar'', ''deb'', ''iso'', ''gz'', ''xz'', ''zst'', ''pdf'', ''pyc'', ''ttc'', ''ttf'', ''exe'',
      ''apk'', ''cnt'', ''exo'', ''odex'', ''vdex'', ''so'']"

definition hot_ext_lists :: "u8 list list" where
  "hot_ext_lists = map bytes_of [''db'', ''vmdk'', ''vdi'', ''qcow2'']"

definition ext_offset :: "nat \<Rightarrow> nat" where "ext_offset pos = 1152 + 8 * pos"

definition mkfs_extension_exist :: "buf \<Rightarrow> u8 list \<Rightarrow> bool" where
  "mkfs_extension_exist sb name \<longleftrightarrow>
     (\<exists>i \<in> set [0..<unat F2FS_MAX_EXTENSION]. cstring_at sb (ext_offset i) (SB_SIZE - ext_offset i) = name)"

fun put_exts :: "u8 list list \<Rightarrow> nat \<Rightarrow> buf \<Rightarrow> nat \<times> buf" where
  "put_exts [] pos sb = (pos, sb)"
| "put_exts (e # es) pos sb = put_exts es (pos + 1) (put_bytes (ext_offset pos) (length e) (list_buf e) sb)"

fun user_exts :: "u8 list list \<Rightarrow> nat \<Rightarrow> buf \<Rightarrow> nat \<times> buf" where
  "user_exts [] pos sb = (pos, sb)"
| "user_exts (ue # ues) pos sb =
     (let (pos, sb) = (if length ue \<ge> 8 \<or> mkfs_extension_exist sb ue then (pos, sb)
                       else (pos + 1, put_bytes (ext_offset pos) (length ue) (list_buf ue) sb))
      in if pos \<ge> unat F2FS_MAX_EXTENSION then (pos, sb) else user_exts ues pos sb)"

text \<open>\<open>strtok\<close> with the delimiters comma and blank: the nonempty pieces.\<close>

fun strtok_comma :: "u8 list \<Rightarrow> u8 list \<Rightarrow> u8 list list" where
  "strtok_comma [] cur = (if cur = [] then [] else [cur])"
| "strtok_comma (x # xs) cur =
     (if x = 0x2c \<or> x = 0x20 then (if cur = [] then strtok_comma xs [] else cur # strtok_comma xs [])
      else strtok_comma xs (cur @ [x]))"

definition add_exts :: "u8 list list \<Rightarrow> u8 list option \<Rightarrow> nat \<Rightarrow> buf \<Rightarrow> nat \<times> buf" where
  "add_exts extlist ext_str pos sb =
     (let (pos, sb) = put_exts extlist pos sb
      in case ext_str of None \<Rightarrow> (pos, sb) | Some s \<Rightarrow> user_exts (strtok_comma s []) pos sb)"

definition cure_extension_list :: "mkfs_conf \<Rightarrow> buf \<Rightarrow> buf" where
  "cure_extension_list c sb =
     (let sb = put_bytes 1152 512 zero_buf (put_le32 1148 0 sb);
          (n, sb) = add_exts media_ext_lists (k_ext_media c) 0 sb;
          sb = put_le32 1148 (of_nat n) sb;
          (pos, sb) = add_exts hot_ext_lists (k_ext_hot c) n sb
      in sb(2757 := of_nat pos - ucast (sb_extension_count sb)))"

subsection \<open>Layout\<close>

text \<open>Sizes in bytes of a block, a segment and a zone, from the configuration.\<close>

definition prep_sizes :: "mkfs_conf \<Rightarrow> buf \<Rightarrow> (buf \<times> u32 \<times> u32 \<times> u32 \<times> u32) option" where
  "prep_sizes c sb =
     (let sb = put_le16 6 (k_minor_ver c) (put_le16 4 (k_major_ver c) (put_le32 0 F2FS_SUPER_MAGIC sb));
          log_sectorsize = word_of_int (log_base_2 (k_sector_size c));
          log_sectors_per_block = word_of_int (log_base_2 (k_sectors_per_blk c));
          log_blocksize = log_sectorsize + log_sectors_per_block;
          log_blks_per_seg = word_of_int (log_base_2 (k_blks_per_seg c));
          sb = put_le32 20 log_blks_per_seg (put_le32 16 log_blocksize (put_le32 12 log_sectors_per_block (put_le32 8 log_sectorsize sb)));
          sb = put_le32 28 (k_secs_per_zone c) (put_le32 24 (k_segs_per_sec c) sb)
      in do {
        blk_size_bytes \<leftarrow> shl32 1 log_blocksize;
        let segment_size_bytes = blk_size_bytes * k_blks_per_seg c;
        let zone_size_bytes = blk_size_bytes * k_secs_per_zone c * k_segs_per_sec c * k_blks_per_seg c;
        let sb = put_le32 32 0 sb;
        if log_sectors_per_block \<ge> 64 then None
        else Some (put_le64 36 (drop_bit (unat log_sectors_per_block) (k_total_sectors c)) sb,
                   blk_size_bytes, segment_size_bytes, zone_size_bytes, log_blks_per_seg)
      })"

definition zone_align_start :: "mkfs_conf \<Rightarrow> u32 \<Rightarrow> u64 option" where
  "zone_align_start c zone_size_bytes =
     (if zone_size_bytes = 0 then None
      else
        let start = ucast (k_start_sector c) * 512;
            ofs = (start + 8192 + ucast zone_size_bytes - 1) div ucast zone_size_bytes * ucast zone_size_bytes - start;
            ofs = (if has_feature c F2FS_FEATURE_RO then 8192 else ofs)
        in Some (if k_zoned_mode c \<and> 1 < length (k_devices c)
                 then ofs + dv_total_sectors (k_devices c ! 0) * ucast (k_sector_size c) mod ucast zone_size_bytes
                 else ofs))"

text \<open>The address ranges of the devices, and the number of segments on all of them.\<close>

fun prep_devices :: "mkfs_conf \<Rightarrow> u64 \<Rightarrow> u32 \<Rightarrow> bool \<Rightarrow> nat \<Rightarrow> u64 \<Rightarrow> mkfs_device list \<Rightarrow> buf \<Rightarrow> u32 \<Rightarrow> mkfs_device list \<times> buf \<times> u32" where
  "prep_devices c ofs segment_size_bytes several i prev_end [] sb tot = ([], sb, tot)"
| "prep_devices c ofs segment_size_bytes several i prev_end (dv # dvs) sb tot =
     (let segs = (if i = 0 then ucast ((dv_total_sectors dv * ucast (k_sector_size c) - ofs) div ucast segment_size_bytes)
                  else ucast (dv_total_sectors dv div ucast (k_sectors_per_blk c * k_blks_per_seg c)));
          start = (if i = 0 then 0 else prev_end + 1);
          end_blkaddr = (if i = 0 then ucast (segs * k_blks_per_seg c - 1 + sb_segment0_blkaddr sb)
                         else start + ucast (segs * k_blks_per_seg c) - 1);
          sb = (if several then put_le32 (2265 + 68 * i) segs (put_bytes (2201 + 68 * i) MAX_PATH_LEN (dv_path dv) sb) else sb);
          dv = dv\<lparr>dv_total_segments := segs, dv_start_blkaddr := start, dv_end_blkaddr := end_blkaddr\<rparr>;
          (dvs, sb, tot) = prep_devices c ofs segment_size_bytes several (i + 1) end_blkaddr dvs sb (tot + segs)
      in (dv # dvs, sb, tot))"

definition SEG_ALIGN :: "mkfs_conf \<Rightarrow> u32 \<Rightarrow> u32" where
  "SEG_ALIGN c blks = (blks + k_blks_per_seg c - 1) div k_blks_per_seg c"

definition F2FS_BLK_ALIGN :: "u32 \<Rightarrow> u32" where
  "F2FS_BLK_ALIGN x = (x + 4096 - 1) div 4096"

text \<open>\<open>SIZE_ALIGN\<close> with a size of type \<open>size_t\<close>, stored to 32 bits.\<close>

definition blocks_for :: "u32 \<Rightarrow> nat \<Rightarrow> u32" where
  "blocks_for n per_block = ucast (((ucast n :: u64) + of_nat per_block - 1) div of_nat per_block)"

definition sit_segments :: "mkfs_conf \<Rightarrow> u32 \<Rightarrow> u32" where
  "sit_segments c segs = SEG_ALIGN c (blocks_for segs SIT_ENTRY_PER_BLOCK)"

text \<open>The number of NAT segments, both copies, and the blocks of checkpoint payload.\<close>

definition nat_layout :: "mkfs_conf \<Rightarrow> nat \<Rightarrow> u32 \<Rightarrow> u32 \<Rightarrow> u32 \<times> u32" where
  "nat_layout c log_blks_per_seg segs segment_count_sit =
     (let total_valid_blks_available = (segs - (2 + segment_count_sit)) * k_blks_per_seg c;
          blocks_for_nat = blocks_for total_valid_blks_available NAT_ENTRY_PER_BLOCK;
          sit_bitmap_size = push_bit log_blks_per_seg (segment_count_sit div 2) div 8;
          max_sit_bitmap_size = (if sit_bitmap_size > of_nat MAX_SIT_BITMAP_SIZE then of_nat MAX_SIT_BITMAP_SIZE else sit_bitmap_size)
      in if k_large_nat_bitmap c then
           let nat_segments = SEG_ALIGN c blocks_for_nat * 20 div 100;
               count = (if nat_segments \<noteq> 0 then nat_segments else 1);
               max_nat_bitmap_size = push_bit log_blks_per_seg count div 8
           in (count * 2,
               if max_sit_bitmap_size + max_nat_bitmap_size > MAX_BITMAP_SIZE_IN_CKPT
               then F2FS_BLK_ALIGN (max_sit_bitmap_size + max_nat_bitmap_size - MAX_BITMAP_SIZE_IN_CKPT) else 0)
         else
           let count = SEG_ALIGN c blocks_for_nat;
               (max_nat_bitmap_size, payload) =
                 (if max_sit_bitmap_size > MAX_SIT_BITMAP_SIZE_IN_CKPT
                  then (MAX_BITMAP_SIZE_IN_CKPT, F2FS_BLK_ALIGN max_sit_bitmap_size)
                  else (MAX_BITMAP_SIZE_IN_CKPT - max_sit_bitmap_size, 0));
               max_nat_segments = drop_bit log_blks_per_seg (max_nat_bitmap_size * 8)
           in ((if count > max_nat_segments then max_nat_segments else count) * 2, payload))"

record areas =
  ar_sit_blkaddr :: u32
  ar_sit :: u32
  ar_nat_blkaddr :: u32
  ar_nat :: u32
  ar_payload :: u32
  ar_ssa_blkaddr :: u32
  ar_ssa :: u32
  ar_main_blkaddr :: u32
  ar_meta_zones :: u64

definition prep_areas :: "mkfs_conf \<Rightarrow> nat \<Rightarrow> u32 \<Rightarrow> u32 \<Rightarrow> areas option" where
  "prep_areas c log_blks_per_seg segment0_blkaddr segs =
     (let bps = k_blks_per_seg c; spz = k_segs_per_zone c;
          sit_blkaddr = segment0_blkaddr + 2 * bps;
          count_sit = sit_segments c segs * 2;
          nat_blkaddr = sit_blkaddr + count_sit * bps;
          (count_nat, payload) = nat_layout c log_blks_per_seg segs count_sit;
          ssa_blkaddr = nat_blkaddr + count_nat * bps;
          total_valid_blks_available = (segs - (2 + count_sit + count_nat)) * bps;
          blocks_for_ssa = (if has_feature c F2FS_FEATURE_RO then 0 else total_valid_blks_available div bps + 1);
          count_ssa = SEG_ALIGN c blocks_for_ssa;
          total_meta_segments = (ucast (2 + count_sit + count_nat + count_ssa) :: u64)
      in if bps * spz = 0 \<or> spz = 0 then None
         else
           let diff = total_meta_segments mod ucast spz;
               count_ssa = (if diff \<noteq> 0 then ucast (ucast count_ssa + (ucast spz - diff)) else count_ssa);
               total_meta_zones = (total_meta_segments * ucast bps + ucast (bps * spz) - 1) div ucast (bps * spz)
           in Some \<lparr>ar_sit_blkaddr = sit_blkaddr, ar_sit = count_sit, ar_nat_blkaddr = nat_blkaddr, ar_nat = count_nat,
                ar_payload = payload, ar_ssa_blkaddr = ssa_blkaddr, ar_ssa = count_ssa,
                ar_main_blkaddr = ucast (ucast segment0_blkaddr + total_meta_zones * ucast spz * ucast bps),
                ar_meta_zones = total_meta_zones\<rparr>)"

definition store_areas :: "u32 \<Rightarrow> areas \<Rightarrow> buf \<Rightarrow> buf" where
  "store_areas segs ar sb =
     (let sb = put_le32 52 2 (put_le32 48 segs sb);
          sb = put_le32 56 (ar_sit ar) (put_le32 80 (ar_sit_blkaddr ar) sb);
          sb = put_le32 60 (ar_nat ar) (put_le32 84 (ar_nat_blkaddr ar) sb);
          sb = put_le32 1664 (ar_payload ar) sb;
          sb = put_le32 64 (ar_ssa ar) (put_le32 88 (ar_ssa_blkaddr ar) sb)
      in put_le32 92 (ar_main_blkaddr ar) sb)"

text \<open>With zoned devices the metadata has to fit the randomly writable space.\<close>

definition zoned_space_ok :: "mkfs_conf \<Rightarrow> u32 \<Rightarrow> bool option" where
  "zoned_space_ok c main_start =
     (if \<not> k_zoned_mode c then Some True
      else if k_zone_blocks c = 0 then None
      else Some (\<not> (dv_zoned_hm (k_devices c ! 0) \<and>
                     (ucast (dv_nr_rnd_zones (k_devices c ! 0)) :: u64) < ucast main_start div k_zone_blocks c) \<and>
                 (\<forall>dv \<in> set (tl (k_devices c)). \<not> (dv_zoned_hm dv \<and> dv_start_blkaddr dv < ucast main_start))))"

definition zoned_start_ok :: "mkfs_conf \<Rightarrow> u32 \<Rightarrow> bool option" where
  "zoned_start_ok c segment0_blkaddr =
     (if \<not> k_zoned_mode c then Some True
      else if k_start_sector c mod 8 \<noteq> 0 then Some False
      else if k_zone_blocks c = 0 then None
      else Some (\<not> (length (k_devices c) = 1 \<and>
                     (ucast (segment0_blkaddr + k_start_sector c div 8) :: u64) mod k_zone_blocks c \<noteq> 0) \<and>
                 \<not> (1 < length (k_devices c) \<and> dv_start_blkaddr (k_devices c ! 1) mod k_zone_blocks c \<noteq> 0)))"

subsection \<open>Reserved space, identifiers, current segments\<close>

text \<open>\<open>100 / c.overprovision\<close> with a ratio of 0 is infinite, and converting it to an integer is undefined.\<close>

definition prep_reserve :: "mkfs_conf \<Rightarrow> buf \<Rightarrow> mkfs_conf option" where
  "prep_reserve c sb = do {
     ovp \<leftarrow> (if k_overprovision c = 0 then get_best_overprovision sb else Some (k_overprovision c));
     per_sec \<leftarrow> round_up (f2fs_get_usable_segments sb) (sb_section_count sb);
     if ovp = 0 then None
     else do {
       reserved \<leftarrow> double_to_u32 (reserved_for ovp per_sec);
       Some (if has_feature c F2FS_FEATURE_RO then c\<lparr>k_overprovision := 0, k_reserved_segments := 0\<rparr>
             else c\<lparr>k_overprovision := ovp, k_reserved_segments := reserved\<rparr>)
     }
   }"

definition too_small :: "mkfs_conf \<Rightarrow> u64 \<Rightarrow> buf \<Rightarrow> bool" where
  "too_small c ofs sb \<longleftrightarrow>
     (\<not> has_feature c F2FS_FEATURE_RO \<and> k_overprovision c = 0) \<or>
     k_total_segments c < F2FS_MIN_SEGMENTS \<or>
     dv_total_sectors (k_devices c ! 0) * ucast (k_sector_size c) < ofs \<or>
     sb_segment_count_main sb - of_nat NR_CURSEG_TYPE < k_reserved_segments c"

text \<open>The units \<open>utf8_to_utf16\<close> stores, also when it stops with an error.\<close>

function stored_units :: "u16 list \<Rightarrow> u8 list \<Rightarrow> nat \<Rightarrow> u16 list" where
  "stored_units outp inp outsize =
     (if inp = [] \<or> inp ! 0 = 0 then outp @ [0]
      else case utf8_to_wchar inp of
        None \<Rightarrow> outp
      | Some (wc, inp') \<Rightarrow>
          (case wchar_to_utf16 wc (outsize - length outp) of
             None \<Rightarrow> outp
           | Some us \<Rightarrow> stored_units (outp @ us) inp' outsize))"
  by pat_completeness auto
termination
  by (relation "measure (\<lambda>(outp, inp, outsize). length inp)") (auto dest: utf8_to_wchar_shorter)

declare stored_units.simps [simp del]

fun put_units :: "nat \<Rightarrow> u16 list \<Rightarrow> buf \<Rightarrow> buf" where
  "put_units off [] b = b"
| "put_units off (u # us) b = put_units (off + 2) us (put_le16 off u b)"

fun prep_quota_inos :: "u32 \<Rightarrow> nat \<Rightarrow> nat \<Rightarrow> u32 \<Rightarrow> buf \<Rightarrow> u32 \<times> buf" where
  "prep_quota_inos quota_bits qtype 0 nid sb = (nid, sb)"
| "prep_quota_inos quota_bits qtype (Suc k) nid sb =
     (if bit quota_bits qtype then prep_quota_inos quota_bits (qtype + 1) k (nid + 1) (put_le32 (2745 + 4 * qtype) nid sb)
      else prep_quota_inos quota_bits (qtype + 1) k nid sb)"

definition prep_ids :: "mkfs_conf \<Rightarrow> buf \<Rightarrow> buf \<Rightarrow> mkfs_conf \<times> buf" where
  "prep_ids c uuid sb =
     (let sb = put_bytes 108 16 uuid sb;
          c = (if has_feature c F2FS_FEATURE_INODE_CHKSUM then c\<lparr>k_chksum_seed := f2fs_cal_crc32 (- 1) (at_off 108 sb) 16\<rparr> else c);
          sb = put_units 124 (stored_units [] (k_vol_label c) MAX_VOLUME_NAME) sb;
          sb = put_le32 96 3 (put_le32 104 2 (put_le32 100 1 sb));
          (nid, sb) = prep_quota_inos (k_quota_bits c) 0 F2FS_MAX_QUOTAS 4 sb
      in (if has_feature c F2FS_FEATURE_LOST_FOUND then c\<lparr>k_lpf_ino := nid, k_next_free_nid := nid + 1\<rparr>
          else c\<lparr>k_next_free_nid := nid\<rparr>, sb))"

definition seq_cursegs :: "nat list \<Rightarrow> mkfs_conf \<Rightarrow> mkfs_conf" where
  "seq_cursegs ts c = fold (\<lambda>(p, t) c. set_cur_seg t (next_zone c p) c) (zip ts (tl ts)) (set_cur_seg (hd ts) 0 c)"

definition verify_cur_segs :: "mkfs_conf \<Rightarrow> mkfs_conf" where
  "verify_cur_segs c =
     (if distinct (map (k_cur_seg c) [0..<NR_CURSEG_TYPE]) then c else seq_cursegs [0..<NR_CURSEG_TYPE] c)"

definition prep_cursegs :: "mkfs_conf \<Rightarrow> u32 \<Rightarrow> mkfs_conf" where
  "prep_cursegs c total_zones =
     (if has_feature c F2FS_FEATURE_RO then
        set_cur_seg CURSEG_WARM_DATA 0 (set_cur_seg CURSEG_COLD_DATA 0 (set_cur_seg CURSEG_HOT_DATA 1
          (set_cur_seg CURSEG_COLD_NODE 0 (set_cur_seg CURSEG_WARM_NODE 0 (set_cur_seg CURSEG_HOT_NODE 0 c)))))
      else if k_heap c then
        let c = set_cur_seg CURSEG_HOT_NODE (last_section c (last_zone c total_zones)) c;
            c = set_cur_seg CURSEG_WARM_NODE (prev_zone c CURSEG_HOT_NODE) c;
            c = set_cur_seg CURSEG_COLD_NODE (prev_zone c CURSEG_WARM_NODE) c;
            c = set_cur_seg CURSEG_HOT_DATA (prev_zone c CURSEG_COLD_NODE) c;
            c = set_cur_seg CURSEG_COLD_DATA 0 c
        in set_cur_seg CURSEG_WARM_DATA (next_zone c CURSEG_COLD_DATA) c
      else if k_zoned_mode c then
        seq_cursegs [CURSEG_HOT_NODE, CURSEG_WARM_NODE, CURSEG_COLD_NODE, CURSEG_HOT_DATA, CURSEG_WARM_DATA, CURSEG_COLD_DATA] c
      else
        let c = seq_cursegs [CURSEG_HOT_NODE, CURSEG_WARM_NODE, CURSEG_COLD_NODE, CURSEG_HOT_DATA] c;
            c = set_cur_seg CURSEG_COLD_DATA (max (last_zone c (drop_bit 2 total_zones)) (next_zone c CURSEG_HOT_DATA)) c
        in set_cur_seg CURSEG_WARM_DATA (max (last_zone c (drop_bit 1 total_zones)) (next_zone c CURSEG_COLD_DATA)) c)"

text \<open>The last part: extensions, versions, features and the checksum.\<close>

definition prep_finish :: "mkfs_env \<Rightarrow> mkfs_conf \<Rightarrow> buf \<Rightarrow> buf" where
  "prep_finish env c sb =
     (let sb = cure_extension_list c sb;
          sb = put_bytes 1924 VERSION_LEN (env_version env) (put_bytes 1668 VERSION_LEN (env_version env) sb);
          sb = (if has_feature c F2FS_FEATURE_CASEFOLD then put_le16 2760 (k_s_encoding_flags c) (put_le16 2758 (k_s_encoding c) sb) else sb);
          sb = put_le32 2180 (k_feature c) sb
      in if sb_feature sb AND F2FS_FEATURE_SB_CHKSUM \<noteq> 0
         then let sb = put_le32 32 (of_nat SB_CHKSUM_OFFSET) sb in put_le32 3068 (f2fs_cal_crc32 F2FS_SUPER_MAGIC sb SB_CHKSUM_OFFSET) sb
         else sb)"

text \<open>From the segment count on: the areas, and the checks that the volume is large enough.\<close>

definition prep_main :: "mkfs_env \<Rightarrow> mkfs_conf \<Rightarrow> u64 \<Rightarrow> u32 \<Rightarrow> buf \<Rightarrow> (int \<times> mkfs_conf \<times> buf) option" where
  "prep_main env c ofs log_blks_per_seg sb =
     (if k_segs_per_zone c = 0 \<or> log_blks_per_seg \<ge> 32 then None
      else do {
        let segs = k_total_segments c div k_segs_per_zone c * k_segs_per_zone c;
        ar \<leftarrow> prep_areas c (unat log_blks_per_seg) (sb_segment0_blkaddr sb) segs;
        let sb = store_areas segs ar sb;
        ok \<leftarrow> zoned_space_ok c (ar_main_blkaddr ar);
        let total_zones = (ucast (ucast (segs div k_segs_per_zone c) - ar_meta_zones ar) :: u32);
        if \<not> ok then Some (-1, c, sb)
        else if total_zones = 0 then Some (-1, c, sb)
        else do {
          let sb = put_le32 44 (total_zones * k_secs_per_zone c) sb;
          let sb = put_le32 68 (sb_section_count sb * k_segs_per_sec c) sb;
          c \<leftarrow> prep_reserve c sb;
          if too_small c ofs sb then Some (-1, c, sb)
          else case env_uuid env (k_vol_uuid c) of
            None \<Rightarrow> Some (-1, c, sb)
          | Some uuid \<Rightarrow>
              let (c, sb) = prep_ids c uuid sb
              in if total_zones \<le> (if has_feature c F2FS_FEATURE_RO then 2 else 6) then Some (-1, c, sb)
                 else let c = prep_cursegs c total_zones;
                          c = (if has_feature c F2FS_FEATURE_RO then c else verify_cur_segs c)
                      in Some (0, c, prep_finish env c sb)
        }
      })"

definition f2fs_prepare_super_block :: "mkfs_env \<Rightarrow> mkfs_conf \<Rightarrow> buf \<Rightarrow> (int \<times> mkfs_conf \<times> buf) option" where
  "f2fs_prepare_super_block env c sb = do {
     (sb, blk_size_bytes, segment_size_bytes, zone_size_bytes, log_blks_per_seg) \<leftarrow> prep_sizes c sb;
     ofs \<leftarrow> zone_align_start c zone_size_bytes;
     let segment0_blkaddr = (ucast (ofs div ucast blk_size_bytes) :: u32);
     let sb = put_le32 76 segment0_blkaddr (put_le32 72 segment0_blkaddr sb);
     ok \<leftarrow> zoned_start_ok c segment0_blkaddr;
     if \<not> ok then Some (-1, c, sb)
     else if segment_size_bytes = 0 \<or> (1 < length (k_devices c) \<and> k_sectors_per_blk c * k_blks_per_seg c = 0) then None
     else do {
       let (dvs, sb, tot) = prep_devices c ofs segment_size_bytes (1 < length (k_devices c)) 0 0 (k_devices c) sb (k_total_segments c);
       prep_main env (c\<lparr>k_devices := dvs, k_total_segments := tot\<rparr>) ofs log_blks_per_seg sb
     }
   }"

subsection \<open>What each step of the preparation leaves alone\<close>

lemma put_exts_pos: "fst (put_exts es pos sb) = pos + length es"
  by (induction es arbitrary: pos sb) auto

lemma put_exts_out:
  assumes "\<And>e. e \<in> set es \<Longrightarrow> length e \<le> 8" "i < ext_offset pos \<or> ext_offset (pos + length es) \<le> i"
  shows "snd (put_exts es pos sb) i = sb i"
  using assms
proof (induction es arbitrary: pos sb)
  case (Cons e es)
  have "length e \<le> 8" using Cons.prems(1) by simp
  then have "put_bytes (ext_offset pos) (length e) (list_buf e) sb i = sb i"
    using Cons.prems(2) by (intro put_bytes_out) (auto simp: ext_offset_def)
  moreover have "snd (put_exts es (pos + 1) (put_bytes (ext_offset pos) (length e) (list_buf e) sb)) i =
      put_bytes (ext_offset pos) (length e) (list_buf e) sb i"
    using Cons.prems by (intro Cons.IH) (auto simp: ext_offset_def)
  ultimately show ?case by simp
qed simp

lemma default_exts: "length media_ext_lists = 36" "length hot_ext_lists = 4"
  "\<forall>e \<in> set media_ext_lists. length e \<le> 8" "\<forall>e \<in> set hot_ext_lists. length e \<le> 8"
  by (simp_all add: media_ext_lists_def hot_ext_lists_def bytes_of_def)

lemma cure_extension_list_default:
  assumes "k_ext_media c = None" "k_ext_hot c = None"
  shows "sb_extension_count (cure_extension_list c sb) = 36" "sb_hot_ext_count (cure_extension_list c sb) = 4"
    "i < 1148 \<or> (1472 \<le> i \<and> i \<noteq> 2757 \<and> \<not> i < 1664) \<Longrightarrow> cure_extension_list c sb i = sb i"
proof -
  define s1 where "s1 = put_bytes 1152 512 zero_buf (put_le32 1148 0 sb)"
  define s2 where "s2 = put_le32 1148 36 (snd (put_exts media_ext_lists 0 s1))"
  define s3 where "s3 = snd (put_exts hot_ext_lists 36 s2)"
  have c: "cure_extension_list c sb = s3(2757 := 40 - ucast (sb_extension_count s3))"
    using assms put_exts_pos [of media_ext_lists 0 s1] put_exts_pos [of hot_ext_lists 36 s2]
    by (auto simp: cure_extension_list_def add_exts_def default_exts s1_def [symmetric] s2_def [symmetric] s3_def Let_def split: prod.split)
       (simp_all add: s2_def)
  have o3: "s3 i = s2 i" if "i < 1440 \<or> 1472 \<le> i" for i
    unfolding s3_def using default_exts that by (intro put_exts_out) (auto simp: ext_offset_def)
  have o2: "s2 i = s1 i" if "i < 1148 \<or> 1440 \<le> i" for i
    unfolding s2_def using default_exts that put_exts_out [of media_ext_lists i 0 s1] by (auto simp: ext_offset_def put_le32_out)
  have e: "sb_extension_count s3 = 36"
    using le32_at_cong [of 1148 s3 s2] o3 by (auto simp: sb_extension_count_def s2_def)
  show "sb_extension_count (cure_extension_list c sb) = 36"
    using e le32_at_cong [of 1148 "s3(2757 := 4)" s3] unfolding c by (simp add: sb_extension_count_def)
  show "sb_hot_ext_count (cure_extension_list c sb) = 4" unfolding c by (simp add: sb_hot_ext_count_def e)
  show "cure_extension_list c sb i = sb i" if "i < 1148 \<or> (1472 \<le> i \<and> i \<noteq> 2757 \<and> \<not> i < 1664)"
    using that o3 [of i] o2 [of i] unfolding c by (auto simp: s1_def put_bytes_out put_le32_out)
qed

lemma stored_units_room: "length outp \<le> n \<Longrightarrow> length (stored_units outp inp n) \<le> n + 1"
proof (induction outp inp n rule: stored_units.induct)
  case (1 outp inp n)
  show ?case
    using "1.prems" by (subst stored_units.simps) (auto split: option.split dest: wchar_to_utf16_room intro!: "1.IH" [simplified])
qed

lemma put_units_out: "i < off \<or> off + 2 * length us \<le> i \<Longrightarrow> put_units off us b i = b i"
  by (induction us arbitrary: off b) (auto simp: put_le16_out)

lemma prep_quota_inos_out:
  "i < 2745 + 4 * qtype \<or> 2745 + 4 * (qtype + k) \<le> i \<Longrightarrow> snd (prep_quota_inos qb qtype k nid sb) i = sb i"
  by (induction qb qtype k nid sb rule: prep_quota_inos.induct) (auto simp: put_le32_out)

subsection \<open>The areas\<close>

lemma u32_less: "unat (w :: u32) < 2 ^ 32"
  using unsigned_less [of w] by simp

lemma ceil_zone:
  fixes t s :: nat
  assumes "0 < s"
  shows "(t * 512 + 512 * s - 1) div (512 * s) * s = (if t mod s = 0 then t else t + (s - t mod s))"
proof -
  define q r where "q = t div s" and "r = t mod s"
  have t: "t = q * s + r" "r < s" using assms by (simp_all add: q_def r_def)
  have "(t * 512 + 512 * s - 1) div (512 * s) = (if r = 0 then q else q + 1)"
  proof (cases "r = 0")
    case True
    have "(t * 512 + 512 * s - 1) div (512 * s) = q"
      by (rule div_nat_eqI) (use assms t True in \<open>simp_all add: algebra_simps\<close>)
    then show ?thesis using True by simp
  next
    case False
    have "(t * 512 + 512 * s - 1) div (512 * s) = q + 1"
      by (rule div_nat_eqI) (use assms t False in \<open>simp_all add: algebra_simps\<close>)
    then show ?thesis using False by simp
  qed
  then show ?thesis using t by (auto simp: r_def [symmetric] algebra_simps)
qed

lemma meta_zones_unat:
  fixes tm :: u64
  assumes "unat tm < 2 ^ 32" "0 < unat spz" "unat spz < 2 ^ 23"
  shows "unat ((tm * ucast (512 :: u32) + ucast (512 * spz :: u32) - 1) div ucast (512 * spz)) = (unat tm * 512 + 512 * unat spz - 1) div (512 * unat spz)"
proof -
  have p: "unat (512 * spz) = 512 * unat spz" using assms by (simp add: unat_word_ariths)
  then have u: "unat (ucast (512 * spz :: u32) :: u64) = 512 * unat spz" by simp
  have f: "unat (ucast (512 :: u32) :: u64) = 512" by simp
  have m: "unat (tm * ucast (512 :: u32)) = unat tm * 512"
    using assms f by (simp add: unat_word_ariths)
  have s: "unat (tm * ucast (512 :: u32) + ucast (512 * spz :: u32)) = unat tm * 512 + 512 * unat spz"
    using assms m u by (simp add: unat_word_ariths)
  have "unat (tm * ucast (512 :: u32) + ucast (512 * spz :: u32) - 1) = unat tm * 512 + 512 * unat spz - 1"
    using assms s by (subst unat_sub) (auto simp: word_le_nat_alt)
  with u show ?thesis by (simp add: unat_div)
qed

lemma meta_segs_word:
  fixes t :: u32 and spz :: u32
  assumes "0 < unat spz" "unat spz < 2 ^ 23"
  defines "tm \<equiv> (ucast t :: u64)"
  defines "mz \<equiv> (tm * ucast (512 :: u32) + ucast (512 * spz) - 1) div ucast (512 * spz)"
  shows "unat mz * unat spz = (if tm mod ucast spz = 0 then unat t else unat t + unat (ucast spz - tm mod ucast spz))"
    "unat mz * unat spz < 2 ^ 32 + 2 ^ 23"
proof -
  have t: "unat t < 2 ^ 32" by (rule u32_less)
  then have tm: "unat tm = unat t" "unat tm < 2 ^ 32" by (simp_all add: tm_def)
  have mz: "unat mz = (unat t * 512 + 512 * unat spz - 1) div (512 * unat spz)"
    using meta_zones_unat [OF tm(2) assms(1,2)] tm(1) by (simp add: mz_def)
  have mod: "unat (tm mod ucast spz) = unat t mod unat spz" by (simp add: unat_mod tm)
  have z: "tm mod ucast spz = 0 \<longleftrightarrow> unat t mod unat spz = 0" using mod by (metis unat_eq_zero)
  have d: "unat (ucast spz - tm mod ucast spz) = unat spz - unat t mod unat spz"
    using mod assms(1) by (subst unat_sub) (simp_all add: word_le_nat_alt)
  show e: "unat mz * unat spz = (if tm mod ucast spz = 0 then unat t else unat t + unat (ucast spz - tm mod ucast spz))"
    using ceil_zone [OF assms(1), of "unat t"] by (simp add: mz z d)
  show "unat mz * unat spz < 2 ^ 32 + 2 ^ 23"
    unfolding e using t d z assms(2) by (auto simp: mod)
qed

lemma ucast_u32_add: "(ucast (a + b :: u64) :: u32) = ucast a + ucast b"
proof transfer
  fix a b :: int
  have "take_bit 32 (take_bit 64 a + take_bit 64 b) = take_bit 32 (take_bit 32 (take_bit 64 a) + take_bit 32 (take_bit 64 b))" 
    by (simp only: take_bit_add)
  also have "\<dots> = take_bit 32 (a + b)" by (simp add: take_bit_add)
  finally show "take_bit LENGTH(32) (take_bit LENGTH(64) (a + b)) = take_bit LENGTH(32) (take_bit LENGTH(64) a + take_bit LENGTH(64) b)" by simp
qed

lemma ucast_u32_mult: "(ucast (a * b :: u64) :: u32) = ucast a * ucast b"
proof transfer
  fix a b :: int
  have "take_bit 32 (take_bit 64 a * take_bit 64 b) = take_bit 32 (take_bit 32 (take_bit 64 a) * take_bit 32 (take_bit 64 b))" 
    by (simp only: take_bit_mult)
  also have "\<dots> = take_bit 32 (a * b)" by (simp add: take_bit_mult)
  finally show "take_bit LENGTH(32) (take_bit LENGTH(64) (a * b)) = take_bit LENGTH(32) (take_bit LENGTH(64) a * take_bit LENGTH(64) b)" by simp
qed

lemma ucast_u32_diff: "(ucast (a - b :: u64) :: u32) = ucast a - ucast b"
  using ucast_u32_add [of "a - b" b] by simp

lemma ucast_u32_ucast: "(ucast (ucast (a :: u32) :: u64) :: u32) = a"
  by transfer (simp add: min_def)

lemma ucast_u32_of_nat: "(ucast (a :: u64) :: u32) = of_nat (unat a)"
  by transfer simp

lemmas ucast_u32_simps = ucast_u32_add ucast_u32_mult ucast_u32_diff ucast_u32_ucast

lemma prep_areas_words:
  assumes "prep_areas c lg s0 segs = Some ar" "k_blks_per_seg c = 512" "0 < unat (k_segs_per_zone c)" "unat (k_segs_per_zone c) < 2 ^ 23"
  shows "ar_sit_blkaddr ar = s0 + 1024" "ar_nat_blkaddr ar = ar_sit_blkaddr ar + ar_sit ar * 512"
    "ar_ssa_blkaddr ar = ar_nat_blkaddr ar + ar_nat ar * 512" "ar_main_blkaddr ar = ar_ssa_blkaddr ar + ar_ssa ar * 512"
    "of_nat (unat (ar_meta_zones ar) * unat (k_segs_per_zone c)) = 2 + ar_sit ar + ar_nat ar + ar_ssa ar"
    "ar_sit ar = sit_segments c segs * 2" "(ar_nat ar, ar_payload ar) = nat_layout c lg segs (ar_sit ar)"
    "\<exists>x. unat x \<le> 2 ^ 23 \<and> unat (2 + ar_sit ar + ar_nat ar + SEG_ALIGN c x) \<le> unat (ar_meta_zones ar) * unat (k_segs_per_zone c) \<and>
       unat (ar_meta_zones ar) * unat (k_segs_per_zone c) \<le> unat (2 + ar_sit ar + ar_nat ar + SEG_ALIGN c x) + unat (k_segs_per_zone c)"
proof -
  define count_nat where "count_nat = fst (nat_layout c lg segs (sit_segments c segs * 2))"
  define ssa0 where "ssa0 = SEG_ALIGN c (if has_feature c F2FS_FEATURE_RO then 0 else (segs - (2 + sit_segments c segs * 2 + count_nat)) * 512 div 512 + 1)"
  define t where "t = 2 + sit_segments c segs * 2 + count_nat + ssa0"
  define spz where "spz = k_segs_per_zone c"
  define mz where "mz = ((ucast t :: u64) * ucast (512 :: u32) + ucast (512 * spz) - 1) div ucast (512 * spz)"
  define diff where "diff = (ucast t :: u64) mod ucast spz"
  define ssa where "ssa = (if diff \<noteq> 0 then ucast (ucast ssa0 + (ucast spz - diff)) else ssa0 :: u32)"
  note m = meta_segs_word [of spz t, folded mz_def, folded diff_def, unfolded spz_def, OF assms(3,4), folded spz_def]
  have ar: "ar = \<lparr>ar_sit_blkaddr = s0 + 2 * 512, ar_sit = sit_segments c segs * 2,
      ar_nat_blkaddr = s0 + 2 * 512 + sit_segments c segs * 2 * 512, ar_nat = count_nat,
      ar_payload = snd (nat_layout c lg segs (sit_segments c segs * 2)),
      ar_ssa_blkaddr = s0 + 2 * 512 + sit_segments c segs * 2 * 512 + count_nat * 512, ar_ssa = ssa,
      ar_main_blkaddr = ucast (ucast s0 + mz * ucast spz * ucast (512 :: u32)), ar_meta_zones = mz\<rparr>"
    using assms(1) unfolding prep_areas_def Let_def assms(2) case_prod_beta count_nat_def [symmetric] spz_def [symmetric]
    unfolding ssa0_def [symmetric] unfolding t_def [symmetric] unfolding diff_def [symmetric] mz_def [symmetric] unfolding ssa_def [symmetric]
    by (simp split: if_split_asm)
  show "ar_sit_blkaddr ar = s0 + 1024" by (simp add: ar)
  show "ar_nat_blkaddr ar = ar_sit_blkaddr ar + ar_sit ar * 512" "ar_ssa_blkaddr ar = ar_nat_blkaddr ar + ar_nat ar * 512" 
    "ar_sit ar = sit_segments c segs * 2" "(ar_nat ar, ar_payload ar) = nat_layout c lg segs (ar_sit ar)"
    by (simp_all add: ar count_nat_def)
  show of: "of_nat (unat (ar_meta_zones ar) * unat (k_segs_per_zone c)) = 2 + ar_sit ar + ar_nat ar + ar_ssa ar"
  proof -
    have "ssa = ssa0 + (if diff = 0 then 0 else ucast (ucast spz - diff))" by (simp add: ssa_def ucast_u32_add ucast_u32_ucast)
    moreover have "(of_nat (unat mz * unat spz) :: u32) = t + (if diff = 0 then 0 else ucast (ucast spz - diff))"
      unfolding m(1) ucast_u32_of_nat by simp
    ultimately show ?thesis unfolding spz_def [symmetric] by (simp add: ar t_def)
  qed
  show "\<exists>x. unat x \<le> 2 ^ 23 \<and> unat (2 + ar_sit ar + ar_nat ar + SEG_ALIGN c x) \<le> unat (ar_meta_zones ar) * unat (k_segs_per_zone c) \<and>
       unat (ar_meta_zones ar) * unat (k_segs_per_zone c) \<le> unat (2 + ar_sit ar + ar_nat ar + SEG_ALIGN c x) + unat (k_segs_per_zone c)"
  proof -
    define x where "x = (if has_feature c F2FS_FEATURE_RO then 0 else (segs - (2 + sit_segments c segs * 2 + count_nat)) * 512 div 512 + 1)"
    have "unat ((y :: u32) div 512 + 1) \<le> 2 ^ 23" for y
    proof -
      have "unat y < 2 ^ 32" by (rule u32_less)
      then have "unat (y div 512) < 2 ^ 23" by (simp add: unat_div less_mult_imp_div_less)
      then show ?thesis by (simp add: unat_word_ariths)
    qed
    then have "unat x \<le> 2 ^ 23" by (simp add: x_def)
    moreover have "unat (ucast spz - diff) \<le> unat spz" if "diff \<noteq> 0"
    proof -
      have "unat diff \<le> unat spz" using assms(3) by (simp add: diff_def unat_mod spz_def)
      then show ?thesis by (subst unat_sub) (simp_all add: word_le_nat_alt)
    qed
    then have "unat mz * unat spz \<le> unat t + unat spz" "unat t \<le> unat mz * unat spz" using m(1) by simp_all
    ultimately show ?thesis by (intro exI [of _ x]) (simp add: ar t_def ssa0_def x_def spz_def)
  qed
  have "of_nat (unat mz * unat spz) = (ucast mz * spz :: u32)" unfolding ucast_u32_of_nat by simp
  then have "ucast mz * spz = 2 + ar_sit ar + ar_nat ar + ar_ssa ar" using of by (simp add: ar spz_def)
  moreover have "ar_main_blkaddr ar = s0 + ucast mz * spz * 512" unfolding ar by (simp only: areas.simps ucast_u32_simps)
  moreover have "ar_ssa_blkaddr ar = s0 + (2 + ar_sit ar + ar_nat ar) * 512" unfolding ar by (simp add: distrib_right)
  ultimately show "ar_main_blkaddr ar = ar_ssa_blkaddr ar + ar_ssa ar * 512" by (simp only: distrib_right add.assoc)
qed

lemma unat_blocks_for:
  assumes "0 < p" "p < 2 ^ 20"
  shows "unat (blocks_for n p) = (unat n + p - 1) div p"
proof -
  have n: "unat n < 2 ^ 32" by (rule u32_less)
  have p: "unat (of_nat p :: u64) = p" using assms by (simp add: unat_of_nat)
  have s: "unat ((ucast n :: u64) + of_nat p) = unat n + p" using n p assms by (simp add: unat_word_ariths)
  have "unat ((ucast n :: u64) + of_nat p - 1) = unat n + p - 1"
    using s assms by (subst unat_sub) (auto simp: word_le_nat_alt)
  then have d: "unat (((ucast n :: u64) + of_nat p - 1) div of_nat p) = (unat n + p - 1) div p" by (simp add: unat_div p)
  have "(unat n + p - 1) div p < 2 ^ 32"
  proof -
    obtain q where "p = Suc q" using assms(1) by (cases p) auto
    then have "unat n + p - 1 < 2 ^ 32 * p" using n by simp
    then show ?thesis using less_mult_imp_div_less by blast
  qed
  then show ?thesis unfolding blocks_for_def using d by (subst unat_ucast_u32) simp_all
qed

lemma unat_SEG_ALIGN:
  assumes "k_blks_per_seg c = 512" "unat x + 512 \<le> 2 ^ 32"
  shows "unat (SEG_ALIGN c x) = (unat x + 511) div 512"
proof -
  have "unat (x + 512 - 1) = unat x + 511"
  proof -
    have "x + 512 - 1 = x + 511" by simp
    then show ?thesis using assms(2) by (simp add: unat_word_ariths)
  qed
  then show ?thesis using assms(1) by (simp add: SEG_ALIGN_def unat_div)
qed

lemma sit_bound:
  assumes "k_blks_per_seg c = 512" "unat segs \<le> 2 ^ 23"
  shows "unat (sit_segments c segs) \<le> 298"
proof -
  have b: "unat (blocks_for segs SIT_ENTRY_PER_BLOCK) = (unat segs + 54) div 55"
    by (subst unat_blocks_for) (simp_all add: SIT_ENTRY_PER_BLOCK_def)
  also have "\<dots> \<le> (2 ^ 23 + 54) div 55" by (rule div_le_mono) (use assms(2) in simp)
  finally have b: "unat (blocks_for segs SIT_ENTRY_PER_BLOCK) \<le> 152521" by simp
  then have "unat (sit_segments c segs) = (unat (blocks_for segs SIT_ENTRY_PER_BLOCK) + 511) div 512"
    unfolding sit_segments_def by (intro unat_SEG_ALIGN assms(1)) simp
  also have "\<dots> \<le> (152521 + 511) div 512" by (rule div_le_mono) (use b in simp)
  finally show ?thesis by simp
qed

lemma MAX_SIT_BITMAP_SIZE_eq: "MAX_SIT_BITMAP_SIZE = 19072"
  by (simp add: MAX_SIT_BITMAP_SIZE_def SIZE_ALIGN_def F2FS_MAX_SEGMENT_def)

lemma unat_BLK_ALIGN: "unat x \<le> 2 ^ 20 \<Longrightarrow> unat (F2FS_BLK_ALIGN x) = (unat x + 4095) div 4096"
proof -
  assume "unat x \<le> 2 ^ 20"
  moreover have "x + 4096 - 1 = x + 4095" by simp
  ultimately show ?thesis by (simp add: F2FS_BLK_ALIGN_def unat_div unat_word_ariths)
qed

lemma nat_layout_bounds:
  assumes "k_blks_per_seg c = 512" "unat sit \<le> 596"
  shows "unat (fst (nat_layout c 9 segs sit)) \<le> 7374" "unat (snd (nat_layout c 9 segs sit)) \<le> 62"
proof -
  define b where "b = blocks_for ((segs - (2 + sit)) * 512) NAT_ENTRY_PER_BLOCK"
  define ms where "ms = (if push_bit 9 (sit div 2) div 8 > of_nat MAX_SIT_BITMAP_SIZE then of_nat MAX_SIT_BITMAP_SIZE else push_bit 9 (sit div 2) div 8 :: u32)"
  have "unat b \<le> 9439489"
  proof -
    have "unat b = (unat ((segs - (2 + sit)) * 512) + 454) div 455" unfolding b_def
      by (subst unat_blocks_for) (simp_all add: NAT_ENTRY_PER_BLOCK_def)
    also have "\<dots> \<le> (2 ^ 32 + 454) div 455"
      by (rule div_le_mono) (use u32_less in \<open>simp add: less_imp_le\<close>)
    finally show ?thesis by simp
  qed
  then have n: "unat (SEG_ALIGN c b) \<le> 18437"
  proof -
    assume l: "unat b \<le> 9439489"
    then have "unat (SEG_ALIGN c b) = (unat b + 511) div 512" by (intro unat_SEG_ALIGN assms(1)) simp
    also have "\<dots> \<le> (9439489 + 511) div 512" by (rule div_le_mono) (use l in simp)
    finally show ?thesis by simp
  qed
  have ms: "unat ms \<le> 19072" by (auto simp: ms_def MAX_SIT_BITMAP_SIZE_eq word_less_nat_alt not_less)
  define k where "k = (if SEG_ALIGN c b * 20 div 100 \<noteq> 0 then SEG_ALIGN c b * 20 div 100 else 1 :: u32)"
  have "unat (SEG_ALIGN c b * 20 div 100) \<le> 3687"
  proof -
    have "unat (SEG_ALIGN c b * 20) = unat (SEG_ALIGN c b) * 20" using n by (simp add: unat_word_ariths)
    then have "unat (SEG_ALIGN c b * 20 div 100) = unat (SEG_ALIGN c b) * 20 div 100" by (simp add: unat_div)
    also have "\<dots> \<le> 18437 * 20 div 100" by (rule div_le_mono) (use n in simp)
    finally show ?thesis by simp
  qed
  then have k: "unat k \<le> 3687" by (simp add: k_def)
  have kb: "unat (push_bit 9 k div 8) \<le> 235968" using k by (simp add: push_bit_eq_mult unat_div unat_word_ariths)
  have mn: "unat (drop_bit 9 (x * 8)) \<le> 60" if "unat x \<le> 3900" for x :: u32
    using that by (simp add: unat_drop_bit drop_bit_eq_div unat_word_ariths)
  define p where "p = (if ms > MAX_SIT_BITMAP_SIZE_IN_CKPT then (MAX_BITMAP_SIZE_IN_CKPT, F2FS_BLK_ALIGN ms) else (MAX_BITMAP_SIZE_IN_CKPT - ms, 0))"
  have p: "unat (fst p) \<le> 3900" "unat (snd p) \<le> 5"
  proof -
    have "unat (MAX_BITMAP_SIZE_IN_CKPT - ms) \<le> 3900" if "\<not> ms > MAX_SIT_BITMAP_SIZE_IN_CKPT"
      using that by (subst unat_sub) (simp_all add: MAX_BITMAP_SIZE_IN_CKPT_def MAX_SIT_BITMAP_SIZE_IN_CKPT_def word_le_nat_alt not_less)
    then show "unat (fst p) \<le> 3900" by (auto simp: p_def MAX_BITMAP_SIZE_IN_CKPT_def)
    have "unat (F2FS_BLK_ALIGN ms) = (unat ms + 4095) div 4096" using ms by (intro unat_BLK_ALIGN) simp
    then show "unat (snd p) \<le> 5" using ms by (auto simp: p_def)
  qed
  have l: "nat_layout c 9 segs sit = (if k_large_nat_bitmap c then (k * 2,
      if ms + push_bit 9 k div 8 > MAX_BITMAP_SIZE_IN_CKPT then F2FS_BLK_ALIGN (ms + push_bit 9 k div 8 - MAX_BITMAP_SIZE_IN_CKPT) else 0)
    else ((if SEG_ALIGN c b > drop_bit 9 (fst p * 8) then drop_bit 9 (fst p * 8) else SEG_ALIGN c b) * 2, snd p))"
    unfolding nat_layout_def Let_def assms(1) b_def [symmetric] unfolding ms_def [symmetric] unfolding k_def [symmetric] p_def
    by simp
  have twice: "unat (x * 2) = unat x * 2" if "unat x \<le> 3687" for x :: u32 using that by (simp add: unat_word_ariths)
  show "unat (fst (nat_layout c 9 segs sit)) \<le> 7374"
    using k mn [OF p(1)] by (auto simp: l twice not_less word_le_nat_alt)
  have "unat (F2FS_BLK_ALIGN (ms + push_bit 9 k div 8 - MAX_BITMAP_SIZE_IN_CKPT)) \<le> 62" if "ms + push_bit 9 k div 8 > MAX_BITMAP_SIZE_IN_CKPT"
  proof -
    have s: "unat (ms + push_bit 9 k div 8) \<le> 255040" using ms kb by (simp add: unat_word_ariths)
    then have "unat (ms + push_bit 9 k div 8 - MAX_BITMAP_SIZE_IN_CKPT) \<le> 255040 - 3900"
      using that by (subst unat_sub) (auto simp: MAX_BITMAP_SIZE_IN_CKPT_def)
    moreover from this have "unat (F2FS_BLK_ALIGN (ms + push_bit 9 k div 8 - MAX_BITMAP_SIZE_IN_CKPT)) =
        (unat (ms + push_bit 9 k div 8 - MAX_BITMAP_SIZE_IN_CKPT) + 4095) div 4096"
      by (intro unat_BLK_ALIGN) simp
    ultimately show ?thesis by simp
  qed
  then show "unat (snd (nat_layout c 9 segs sit)) \<le> 62" using p(2) by (auto simp: l)
qed

lemma prep_areas_bounds:
  assumes "prep_areas c 9 s0 segs = Some ar" "k_blks_per_seg c = 512" "0 < unat (k_segs_per_zone c)" "unat (k_segs_per_zone c) < 2 ^ 11"
    "unat segs \<le> 2 ^ 23"
  shows "unat (ar_sit ar) \<le> 596" "unat (ar_nat ar) \<le> 7374" "unat (ar_payload ar) \<le> 62" "unat (ar_meta_zones ar) * unat (k_segs_per_zone c) \<le> 26404"
    "2 + unat (ar_sit ar) + unat (ar_nat ar) \<le> unat (ar_meta_zones ar) * unat (k_segs_per_zone c)"
proof -
  note w = prep_areas_words [OF assms(1-3), simplified, OF order.strict_trans [OF assms(4)], simplified]
  show sit: "unat (ar_sit ar) \<le> 596" using sit_bound [OF assms(2,5)] by (simp add: w(6) unat_word_ariths)
  show n: "unat (ar_nat ar) \<le> 7374" "unat (ar_payload ar) \<le> 62"
    using nat_layout_bounds [OF assms(2) sit, of segs] w(7) by (metis fst_conv, metis snd_conv)
  obtain x where x: "unat x \<le> 2 ^ 23" "unat (ar_meta_zones ar) * unat (k_segs_per_zone c) \<le>
      unat (2 + ar_sit ar + ar_nat ar + SEG_ALIGN c x) + unat (k_segs_per_zone c)"
      "unat (2 + ar_sit ar + ar_nat ar + SEG_ALIGN c x) \<le> unat (ar_meta_zones ar) * unat (k_segs_per_zone c)"
    using w(8) by auto
  have "unat (SEG_ALIGN c x) = (unat x + 511) div 512" using x(1) by (intro unat_SEG_ALIGN assms(2)) simp
  also have "\<dots> \<le> (2 ^ 23 + 511) div 512" by (rule div_le_mono) (use x(1) in simp)
  finally have "unat (SEG_ALIGN c x) \<le> 16384" by simp
  then have t: "unat (2 + ar_sit ar + ar_nat ar + SEG_ALIGN c x) = 2 + unat (ar_sit ar) + unat (ar_nat ar) + unat (SEG_ALIGN c x)"
    and "unat (2 + ar_sit ar + ar_nat ar + SEG_ALIGN c x) \<le> 24356"
    using sit n by (simp_all add: unat_word_ariths)
  then show "unat (ar_meta_zones ar) * unat (k_segs_per_zone c) \<le> 26404" using x(2) assms(4) by simp
  show "2 + unat (ar_sit ar) + unat (ar_nat ar) \<le> unat (ar_meta_zones ar) * unat (k_segs_per_zone c)" using x(3) t by simp
qed

subsection \<open>The prepared super block\<close>

text \<open>A configuration of one ordinary device of less than 2 ^ 44 bytes, with blocks of 4096 bytes in segments of
  512, zones of less than 4 GiB and no extensions of the user.\<close>

definition mkfs_std :: "mkfs_conf \<Rightarrow> bool" where
  "mkfs_std c \<longleftrightarrow>
     (\<exists>k \<in> {9..12}. k_sector_size c = 2 ^ k \<and> k_sectors_per_blk c = 2 ^ (12 - k)) \<and> k_blks_per_seg c = 512 \<and>
     0 < unat (k_segs_per_sec c) \<and> 0 < unat (k_secs_per_zone c) \<and> unat (k_segs_per_sec c) * unat (k_secs_per_zone c) < 2 ^ 11 \<and>
     k_segs_per_zone c = k_segs_per_sec c * k_secs_per_zone c \<and> \<not> k_zoned_mode c \<and> k_total_segments c = 0 \<and>
     k_ext_media c = None \<and> k_ext_hot c = None \<and>
     (\<exists>dv. k_devices c = [dv] \<and> dv_total_sectors dv = k_total_sectors c) \<and>
     unat (k_total_sectors c) * unat (k_sector_size c) < 2 ^ 44"

lemma prep_finish_out:
  assumes "k_ext_media c = None" "k_ext_hot c = None" "i < 32 \<or> 36 \<le> i \<and> i < 1148 \<or> 1664 \<le> i \<and> i < 1668 \<or> 2184 \<le> i \<and> i < 2757"
  shows "prep_finish env c sb i = sb i"
proof -
  have "cure_extension_list c sb i = sb i" by (rule cure_extension_list_default(3)) (use assms in auto)
  with assms(3) show ?thesis
    by (auto simp: prep_finish_def Let_def VERSION_LEN_def put_bytes_out put_le32_out put_le16_out SB_CHKSUM_OFFSET_def)
qed

lemma prep_finish_fields:
  assumes "k_ext_media c = None" "k_ext_hot c = None"
  shows "sb_feature (prep_finish env c sb) = k_feature c" "sb_extension_count (prep_finish env c sb) = 36"
    "sb_hot_ext_count (prep_finish env c sb) = 4"
    "k_feature c AND F2FS_FEATURE_SB_CHKSUM \<noteq> 0 \<Longrightarrow> verify_sb_chksum (prep_finish env c sb) = 0"
proof -
  define s1 where "s1 = put_bytes 1924 VERSION_LEN (env_version env) (put_bytes 1668 VERSION_LEN (env_version env) (cure_extension_list c sb))"
  define s2 where "s2 = (if has_feature c F2FS_FEATURE_CASEFOLD then put_le16 2760 (k_s_encoding_flags c) (put_le16 2758 (k_s_encoding c) s1) else s1)"
  define s3 where "s3 = put_le32 2180 (k_feature c) s2"
  define s4 where "s4 = put_le32 32 (of_nat SB_CHKSUM_OFFSET) s3"
  have f: "sb_feature s3 = k_feature c" by (simp add: s3_def sb_fields)
  have p: "prep_finish env c sb = (if k_feature c AND F2FS_FEATURE_SB_CHKSUM \<noteq> 0 then put_le32 3068 (f2fs_cal_crc32 F2FS_SUPER_MAGIC s4 SB_CHKSUM_OFFSET) s4 else s3)"
    unfolding prep_finish_def Let_def s1_def [symmetric] unfolding s2_def [symmetric] unfolding s3_def [symmetric] unfolding s4_def [symmetric] f ..
  show "sb_feature (prep_finish env c sb) = k_feature c" by (simp add: p s4_def s3_def sb_fields buf_simps)
  have "sb_extension_count s3 = sb_extension_count (cure_extension_list c sb)" "sb_hot_ext_count s3 = sb_hot_ext_count (cure_extension_list c sb)"
    unfolding sb_extension_count_def sb_hot_ext_count_def
    by (rule le32_at_cong, auto simp: s3_def s2_def s1_def put_bytes_out put_le32_out put_le16_out VERSION_LEN_def)
  then have e: "sb_extension_count s3 = 36" "sb_hot_ext_count s3 = 4" using cure_extension_list_default [OF assms] by simp_all
  show "sb_extension_count (prep_finish env c sb) = 36" "sb_hot_ext_count (prep_finish env c sb) = 4"
    using e by (simp_all add: p s4_def sb_fields buf_simps)
  show "verify_sb_chksum (prep_finish env c sb) = 0" if "k_feature c AND F2FS_FEATURE_SB_CHKSUM \<noteq> 0"
  proof -
    have o': "sb_checksum_offset (put_le32 3068 v s4) = of_nat SB_CHKSUM_OFFSET" for v by (simp add: s4_def sb_fields buf_simps)
    moreover have "unat (of_nat SB_CHKSUM_OFFSET :: u32) = SB_CHKSUM_OFFSET" by (simp add: SB_CHKSUM_OFFSET_def)
    ultimately show ?thesis
      using that crc32_set_crc [of F2FS_SUPER_MAGIC _ s4]
      by (simp add: p verify_sb_chksum_def f2fs_crc_valid_def Let_def sb_crc_def set_sb_crc_def)
  qed
qed

lemma prep_ids_out:
  assumes "i < 96 \<or> 1150 \<le> i \<and> i < 2745 \<or> 2757 \<le> i"
  shows "snd (prep_ids c uuid sb) i = sb i"
proof -
  have l: "length (stored_units [] l MAX_VOLUME_NAME) \<le> 513" for l
    using stored_units_room [of "[]" MAX_VOLUME_NAME l] by (simp add: MAX_VOLUME_NAME_def)
  have u: "put_units 124 (stored_units [] l MAX_VOLUME_NAME) b i = b i" for l b
    using assms l [of l] by (intro put_units_out) auto
  show ?thesis using assms
    by (auto simp: prep_ids_def Let_def F2FS_MAX_QUOTAS_def case_prod_beta prep_quota_inos_out put_le32_out put_bytes_out u)
qed

lemma prep_ids_inos:
  "sb_root_ino (snd (prep_ids c uuid sb)) = 3" "sb_node_ino (snd (prep_ids c uuid sb)) = 1" "sb_meta_ino (snd (prep_ids c uuid sb)) = 2"
proof -
  have "le32_at (snd (prep_quota_inos qb 0 3 4 b)) off = le32_at b off" if "off \<le> 104" for off qb b
    using that by (intro le32_at_cong prep_quota_inos_out) auto
  then show "sb_root_ino (snd (prep_ids c uuid sb)) = 3" "sb_node_ino (snd (prep_ids c uuid sb)) = 1" "sb_meta_ino (snd (prep_ids c uuid sb)) = 2"
    by (simp_all add: prep_ids_def Let_def F2FS_MAX_QUOTAS_def case_prod_beta sb_fields buf_simps)
qed

lemma prep_reserve_conf:
  assumes "prep_reserve c sb = Some c'"
  shows "c' = c\<lparr>k_overprovision := k_overprovision c', k_reserved_segments := k_reserved_segments c'\<rparr>"
    "has_feature c F2FS_FEATURE_RO \<Longrightarrow> k_overprovision c' = 0 \<and> k_reserved_segments c' = 0"
  using assms by (auto simp: prep_reserve_def split: bind_split_asm if_split_asm)

lemma prep_main_ok:
  assumes "prep_main env c ofs lg sb = Some (0, c', sb')"
  defines "segs \<equiv> k_total_segments c div k_segs_per_zone c * k_segs_per_zone c"
  obtains ar c3 uuid tz sbM where "prep_areas c (unat lg) (sb_segment0_blkaddr sb) segs = Some ar"
    "tz = ucast (ucast (segs div k_segs_per_zone c) - ar_meta_zones ar)" "tz > (if has_feature c F2FS_FEATURE_RO then 2 else 6)"
    "sbM = put_le32 68 (tz * k_secs_per_zone c * k_segs_per_sec c) (put_le32 44 (tz * k_secs_per_zone c) (store_areas segs ar sb))"
    "prep_reserve c sbM = Some c3" "\<not> too_small c3 ofs sbM"
    "c' = (if has_feature c F2FS_FEATURE_RO then prep_cursegs (fst (prep_ids c3 uuid sbM)) tz else verify_cur_segs (prep_cursegs (fst (prep_ids c3 uuid sbM)) tz))"
    "sb' = prep_finish env c' (snd (prep_ids c3 uuid sbM))" "k_segs_per_zone c \<noteq> 0"
proof -
  have s44: "sb_section_count (put_le32 44 v b) = v" for v b by (simp add: sb_fields)
  have cur: "has_feature (prep_cursegs x tz) f = has_feature x f" for x tz f
    by (simp add: prep_cursegs_def Let_def set_cur_seg_def seq_cursegs_def has_feature_def)
  have ids: "has_feature (fst (prep_ids x u b)) f = has_feature x f" for x u b f
    by (simp add: prep_ids_def Let_def has_feature_def case_prod_beta)
  have res: "has_feature c3 f = has_feature c f" if "prep_reserve c b = Some c3" for c3 b f
    by (subst prep_reserve_conf(1) [OF that]) (simp add: has_feature_def)
  show thesis
    using assms(1) that unfolding prep_main_def segs_def [symmetric] Let_def s44
    by (auto simp: cur ids res case_prod_beta not_le split: bind_split_asm if_split_asm option.split_asm)
qed

subsection \<open>Rounding\<close>

lemma pow2_pos: "0 < pow2 e"
  by (simp add: pow2_def)

lemma pow2_diff: "0 \<le> a \<Longrightarrow> 0 \<le> b \<Longrightarrow> pow2 (a - b) = 2 ^ nat a / 2 ^ nat b"
proof (cases "b \<le> a")
  case True
  assume "0 \<le> a" "0 \<le> b"
  then have "nat a = nat (a - b) + nat b" using True by simp
  then show ?thesis using True by (simp add: pow2_def power_add)
next
  case False
  assume "0 \<le> a" "0 \<le> b"
  then have "nat b = nat (b - a) + nat a" using False by simp
  then show ?thesis using False by (simp add: pow2_def power_add)
qed

lemma pow2_add: "pow2 (a + b) = pow2 a * pow2 b"
proof -
  define k where "k = \<bar>a\<bar> + \<bar>b\<bar>"
  have k: "0 \<le> k" "0 \<le> a + k" "0 \<le> b + k" "0 \<le> a + b + 2 * k" by (simp_all add: k_def)
  have "pow2 (a + b) = 2 ^ nat (a + b + 2 * k) / 2 ^ nat (2 * k)" "pow2 a = 2 ^ nat (a + k) / 2 ^ nat k" "pow2 b = 2 ^ nat (b + k) / 2 ^ nat k"
    using pow2_diff [of "a + b + 2 * k" "2 * k"] pow2_diff [of "a + k" k] pow2_diff [of "b + k" k] k by simp_all
  moreover have "nat (a + b + 2 * k) = nat (a + k) + nat (b + k)" "nat (2 * k) = nat k + nat k" using k by simp_all
  ultimately show ?thesis by (simp add: power_add)
qed

lemma round_even_ge: "of_int m \<le> x \<Longrightarrow> m \<le> round_even x"
proof -
  assume "of_int m \<le> x"
  then have "m \<le> \<lfloor>x\<rfloor>" by (simp add: le_floor_iff)
  then show ?thesis by (simp add: round_even_def Let_def)
qed

lemma rnd53_pos:
  assumes "0 < x"
  obtains e where "2 ^ 52 * pow2 e \<le> x" "rnd53 x = of_int (round_even (x / pow2 e)) * pow2 e"
proof -
  obtain a b where q: "quotient_of x = (a, b)" by (cases "quotient_of x")
  then have b: "0 < b" "x = of_int a / of_int b" by (simp_all add: quotient_of_denom_pos quotient_of_div)
  then have a: "0 < a" using assms by (simp add: zero_less_divide_iff)
  define la lb where "la = floorlog 2 (nat a)" and "lb = floorlog 2 (nat b)"
  have la: "2 ^ (la - 1) \<le> nat a" "0 < la" using a floorlog_bounds [of "nat a" 2] by (simp_all add: la_def floorlog_eq_zero_iff neq0_conv [symmetric])
  have lb: "nat b < 2 ^ lb" using b floorlog_bounds [of "nat b" 2] by (simp add: lb_def)
  define e where "e = int la - int lb - 52"
  have "pow2 (int la - 1 - int lb) \<le> x"
  proof -
    have "(2 :: rat) ^ (la - 1) \<le> of_int a" using la a by (metis (mono_tags) of_nat_le_iff of_nat_nat of_nat_numeral of_nat_power order_less_imp_le of_int_of_nat_eq)
    moreover have "(of_int b :: rat) \<le> 2 ^ lb" using lb b by (metis (mono_tags) less_imp_le of_nat_le_iff of_nat_nat of_nat_numeral of_nat_power of_int_of_nat_eq)
    moreover have "pow2 (int la - 1 - int lb) = 2 ^ (la - 1) / 2 ^ lb" using la(2) pow2_diff [of "int la - 1" "int lb"] by (simp add: nat_diff_distrib')
    ultimately show ?thesis unfolding b(2) using b(1) a by (auto intro!: frac_le simp del: of_int_le_numeral_power_cancel_iff numeral_power_le_of_int_cancel_iff)
  qed
  moreover have "int la - 1 - int lb = 52 + (e - 1)" by (simp add: e_def)
  then have "pow2 (int la - 1 - int lb) = 2 ^ 52 * pow2 (e - 1)" by (simp only: pow2_add) (simp add: pow2_def [of 52])
  ultimately have e1: "2 ^ 52 * pow2 (e - 1) \<le> x" by simp
  show thesis
  proof (cases "x < 2 ^ 52 * pow2 e")
    case True
    then show ?thesis using that [OF e1] assms q by (simp add: rnd53_def Let_def e_def la_def lb_def)
  next
    case False
    then show ?thesis using that [of e] assms q by (simp add: rnd53_def Let_def e_def la_def lb_def)
  qed
qed

lemma rnd53_ge:
  assumes "of_nat m \<le> x" "m < 2 ^ 53" "0 < x"
  shows "of_nat m \<le> rnd53 x" "0 < rnd53 x"
proof -
  obtain e where e: "2 ^ 52 * pow2 e \<le> x" "rnd53 x = of_int (round_even (x / pow2 e)) * pow2 e"
    using rnd53_pos [OF assms(3)] .
  have "of_int (2 ^ 52) \<le> x / pow2 e" using e(1) pow2_pos [of e] by (simp add: le_divide_eq)
  then have r: "2 ^ 52 \<le> round_even (x / pow2 e)" by (rule round_even_ge)
  then show "0 < rnd53 x" using pow2_pos [of e] by (simp add: e(2))
  show "of_nat m \<le> rnd53 x"
  proof (cases "0 < e")
    case True
    have "(2 :: rat) \<le> pow2 e" using True power_increasing [of 1 "nat e" "2 :: rat"] by (simp add: pow2_def)
    moreover have "(2 :: rat) ^ 52 \<le> of_int (round_even (x / pow2 e))" using r by (metis of_int_le_iff of_int_numeral of_int_power)
    ultimately have "2 ^ 52 * 2 \<le> rnd53 x" unfolding e(2) by (intro mult_mono) auto
    moreover have "(of_nat m :: rat) \<le> 2 ^ 53" using assms(2) by (metis less_imp_le of_nat_le_iff of_nat_numeral of_nat_power)
    ultimately show ?thesis by simp
  next
    case False
    have p: "pow2 e = 1 / 2 ^ nat (- e)" using False by (auto simp: pow2_def)
    have "of_int (int m * 2 ^ nat (- e)) \<le> x / pow2 e" using assms(1) by (simp add: p)
    then have "int m * 2 ^ nat (- e) \<le> round_even (x / pow2 e)" by (rule round_even_ge)
    then have "of_int (int m * 2 ^ nat (- e)) * pow2 e \<le> rnd53 x" unfolding e(2) using pow2_pos [of e]
      by (intro mult_right_mono) (simp_all only: of_int_le_iff less_imp_le)
    then show ?thesis by (simp add: p)
  qed
qed

lemma fl_ge:
  "of_nat m \<le> x + y \<Longrightarrow> m < 2 ^ 53 \<Longrightarrow> 0 < x + y \<Longrightarrow> of_nat m \<le> fl_add x y"
  "of_nat m \<le> x * y \<Longrightarrow> m < 2 ^ 53 \<Longrightarrow> 0 < x * y \<Longrightarrow> of_nat m \<le> fl_mul x y"
  by (simp_all add: fl_add_def fl_mul_def rnd53_ge(1))

lemma reserved_for_ge:
  assumes "0 < candidate" "0 < unat n" "N = unat n"
  shows "of_nat (8 * N) \<le> reserved_for candidate n" "0 \<le> reserved_for candidate n"
proof -
  have n: "N < 2 ^ 32" "0 < N" unfolding assms(3) using u32_less assms(2) by blast+
  have N: "double_of_u32 n = of_nat N" by (simp only: double_of_u32_def assms(3))
  define x where "x = fl_add (fl_mul 2 (fl_add (fl_div 100 candidate) 1)) 6"
  have d: "0 < fl_div 100 candidate" unfolding fl_div_def by (rule rnd53_ge(2) [of 0]) (use assms in auto)
  have a: "1 \<le> fl_add (fl_div 100 candidate) 1" using fl_ge(1) [of 1 "fl_div 100 candidate" 1] d by simp
  have m: "2 \<le> fl_mul 2 (fl_add (fl_div 100 candidate) 1)" using fl_ge(2) [of 2 2 "fl_add (fl_div 100 candidate) 1"] a by simp
  have s: "8 \<le> x" unfolding x_def using fl_ge(1) [of 8 "fl_mul 2 (fl_add (fl_div 100 candidate) 1)" 6] m by simp
  have "(8 :: rat) * of_nat N \<le> x * of_nat N" by (rule mult_right_mono [OF s]) simp
  moreover have "0 < x * of_nat N" using s n(2) by simp
  ultimately have "of_nat (8 * N) \<le> fl_mul x (of_nat N)" using n(1) by (intro fl_ge(2)) auto
  then show "of_nat (8 * N) \<le> reserved_for candidate n" by (simp only: reserved_for_def x_def N)
  then show "0 \<le> reserved_for candidate n" by (rule order_trans [rotated]) simp
qed

lemma best_ovp_loop_nonneg:
  "best_ovp_loop usable per_sec candidate limit diff max_space max_ovp = Some r \<Longrightarrow>
     0 < candidate \<Longrightarrow> 0 < diff \<Longrightarrow> 0 \<le> max_ovp \<Longrightarrow> 0 \<le> r"
proof (induction usable per_sec candidate limit diff max_space max_ovp r rule: best_ovp_loop.raw_induct [rotated, consumes 1, case_names step])
  case (step loop usable per_sec candidate limit diff max_space max_ovp r)
  have "0 < fl_add candidate diff" unfolding fl_add_def by (rule rnd53_ge(2) [of 0]) (use step.prems in auto)
  with step.hyps step.prems show ?case
    by (auto simp: Let_def split: if_split_asm intro: step.IH)
qed

lemma get_best_overprovision_nonneg:
  assumes "get_best_overprovision sb = Some r"
  shows "0 \<le> r"
proof -
  have "0 < rnd53 (1 / 100)" by (rule rnd53_ge(2) [of 0]) auto
  with assms best_ovp_loop_nonneg show ?thesis
    by (auto simp: get_best_overprovision_def Let_def split: bind_split_asm if_split_asm)
qed

lemma prep_reserve_ge:
  assumes "prep_reserve c sb = Some c'" "0 \<le> k_overprovision c" "\<not> has_feature c F2FS_FEATURE_RO"
    "round_up (sb_segment_count_main sb) (sb_section_count sb) = Some n" "0 < unat n"
  shows "8 * unat n \<le> unat (k_reserved_segments c')" "k_overprovision c' \<noteq> 0"
proof -
  obtain ovp where ovp: "(if k_overprovision c = 0 then get_best_overprovision sb else Some (k_overprovision c)) = Some ovp"
    using assms(1) by (auto simp: prep_reserve_def split: bind_split_asm)
  then have "0 \<le> ovp" using assms(2) get_best_overprovision_nonneg by (auto split: if_split_asm)
  with assms(1,3,4) ovp obtain r where o: "0 < ovp" "double_to_u32 (reserved_for ovp n) = Some r"
    "c' = c\<lparr>k_overprovision := ovp, k_reserved_segments := r\<rparr>"
    unfolding prep_reserve_def ovp f2fs_get_usable_segments_def by (auto split: bind_split_asm if_split_asm)
  define N where "N = unat n"
  note g = reserved_for_ge [OF o(1) assms(5) N_def]
  from o(2) g(2) have r: "reserved_for ovp n < 2 ^ 32" "r = word_of_int \<lfloor>reserved_for ovp n\<rfloor>"
    by (auto simp: double_to_u32_def split: if_split_asm)
  have f: "8 * int N \<le> \<lfloor>reserved_for ovp n\<rfloor>" using g(1) by (simp add: le_floor_iff)
  have l: "\<lfloor>reserved_for ovp n\<rfloor> < 2 ^ 32" using r(1) by (simp add: floor_less_iff)
  have "unat (word_of_int z :: u32) = nat z" if "0 \<le> z" "z < 2 ^ 32" for z using that by (simp add: unsigned_of_int take_bit_int_eq_self)
  from this [OF _ l] have "unat r = nat \<lfloor>reserved_for ovp n\<rfloor>" unfolding r(2) using f by linarith
  then have "8 * N \<le> unat r" using f by linarith
  then show "8 * unat n \<le> unat (k_reserved_segments c')" "k_overprovision c' \<noteq> 0"
    unfolding N_def [symmetric] using o by simp_all
qed

lemma prep_sizes_std:
  assumes "mkfs_std c"
  obtains k j sb where "9 \<le> k" "k + j = 12" "k_sector_size c = 2 ^ k"
    "prep_sizes c zero_buf = Some (sb, 4096, 2 ^ 21, k_segs_per_zone c * 2 ^ 21, 9)"
    "sb_magic sb = F2FS_SUPER_MAGIC" "sb_log_sectorsize sb = of_nat k" "sb_log_sectors_per_block sb = of_nat j"
    "sb_log_blocksize sb = 12" "sb_log_blocks_per_seg sb = 9" "sb_segs_per_sec sb = k_segs_per_sec c"
    "sb_secs_per_zone sb = k_secs_per_zone c" "sb_block_count sb = drop_bit j (k_total_sectors c)" "\<And>i. 44 \<le> i \<Longrightarrow> sb i = 0"
proof -
  obtain k where k0: "9 \<le> k" "k \<le> 12" "k_sector_size c = 2 ^ k" "k_sectors_per_blk c = 2 ^ (12 - k)" "k_blks_per_seg c = 512"
    "k_segs_per_zone c = k_segs_per_sec c * k_secs_per_zone c"
    using assms by (auto simp: mkfs_std_def)
  define j where "j = 12 - k"
  note k = k0(1) le_add_diff_inverse [OF k0(2), folded j_def] k0(3) k0(4) [folded j_def] k0(5,6)
  have l: "log_base_2 (k_sector_size c) = int k" "log_base_2 (k_sectors_per_blk c) = int j" "log_base_2 512 = 9"
    using k log_base_2_pow2 [of 9] by (simp_all add: log_base_2_pow2)
  have u: "unat (of_nat j :: u32) = j" using k by (simp add: unat_of_nat)
  have bs: "(of_nat k + of_nat j :: u32) = 12" using k(2) by (simp flip: of_nat_add)
  have ge: "\<not> (64 :: u32) \<le> of_nat j" using u k by (simp add: word_le_nat_alt)
  show thesis
  proof (rule that [OF k(1-3)])
    show "prep_sizes c zero_buf = Some (put_le64 36 (drop_bit j (k_total_sectors c)) (put_le32 32 0 (put_le32 28 (k_secs_per_zone c)
        (put_le32 24 (k_segs_per_sec c) (put_le32 20 9 (put_le32 16 12 (put_le32 12 (of_nat j) (put_le32 8 (of_nat k)
        (put_le16 6 (k_minor_ver c) (put_le16 4 (k_major_ver c) (put_le32 0 F2FS_SUPER_MAGIC zero_buf)))))))))),
        4096, 2 ^ 21, k_segs_per_zone c * 2 ^ 21, 9)"
      using bs ge u k(5,6) by (simp add: prep_sizes_def Let_def l shl32_def push_bit_eq_mult)
  qed (simp_all add: sb_fields buf_simps zero_buf_def)
qed

lemma prep_finish_le32:
  assumes "k_ext_media c = None" "k_ext_hot c = None" "off + 4 \<le> 32 \<or> 36 \<le> off \<and> off + 4 \<le> 1148 \<or> off = 1664 \<or> 2184 \<le> off \<and> off + 4 \<le> 2757"
  shows "le32_at (prep_finish env c sb) off = le32_at sb off"
  by (rule le32_at_cong, rule prep_finish_out) (use assms in auto)

lemma prep_ids_le32:
  "off + 4 \<le> 96 \<or> off = 1664 \<or> 2184 \<le> off \<and> off + 4 \<le> 2745 \<Longrightarrow> le32_at (snd (prep_ids c uuid sb)) off = le32_at sb off"
  by (rule le32_at_cong, rule prep_ids_out) auto

lemma prep_ids_conf:
  "k_ext_media (fst (prep_ids c uuid sb)) = k_ext_media c" "k_ext_hot (fst (prep_ids c uuid sb)) = k_ext_hot c"
  "k_feature (fst (prep_ids c uuid sb)) = k_feature c" "k_reserved_segments (fst (prep_ids c uuid sb)) = k_reserved_segments c"
  by (simp_all add: prep_ids_def Let_def case_prod_beta)

lemma cursegs_conf:
  "k_ext_media (prep_cursegs c tz) = k_ext_media c" "k_ext_hot (prep_cursegs c tz) = k_ext_hot c"
  "k_feature (prep_cursegs c tz) = k_feature c" "k_reserved_segments (prep_cursegs c tz) = k_reserved_segments c"
  "k_ext_media (verify_cur_segs c) = k_ext_media c" "k_ext_hot (verify_cur_segs c) = k_ext_hot c"
  "k_feature (verify_cur_segs c) = k_feature c" "k_reserved_segments (verify_cur_segs c) = k_reserved_segments c"
  by (simp_all add: prep_cursegs_def verify_cur_segs_def seq_cursegs_def set_cur_seg_def Let_def NR_CURSEG_TYPE_def upt_rec)

text \<open>The layout the prepared super block records, with the values of its fields.\<close>

definition layout_of :: "buf \<Rightarrow> u32 \<Rightarrow> u32 \<Rightarrow> areas \<Rightarrow> u32 \<Rightarrow> u32 \<Rightarrow> bool" where
  "layout_of sb s0 segs ar secs mn \<longleftrightarrow>
     sb_segment0_blkaddr sb = s0 \<and> sb_cp_blkaddr sb = s0 \<and> sb_segment_count sb = segs \<and> sb_segment_count_ckpt sb = 2 \<and>
     sb_sit_blkaddr sb = ar_sit_blkaddr ar \<and> sb_segment_count_sit sb = ar_sit ar \<and> sb_nat_blkaddr sb = ar_nat_blkaddr ar \<and>
     sb_segment_count_nat sb = ar_nat ar \<and> sb_cp_payload sb = ar_payload ar \<and> sb_ssa_blkaddr sb = ar_ssa_blkaddr ar \<and>
     sb_segment_count_ssa sb = ar_ssa ar \<and> sb_main_blkaddr sb = ar_main_blkaddr ar \<and> sb_section_count sb = secs \<and> sb_segment_count_main sb = mn"

lemma prepare_std:
  assumes "f2fs_prepare_super_block env c zero_buf = Some (0, c', sb')" "mkfs_std c"
  obtains k j ofs ar segs tz c1 c3 uuid sbM where "9 \<le> k" "k + j = 12" "k_sector_size c = 2 ^ k" 
    "zone_align_start c (k_segs_per_zone c * 2 ^ 21) = Some ofs"
    "segs = ucast ((k_total_sectors c * ucast (k_sector_size c) - ofs) div 2 ^ 21) div k_segs_per_zone c * k_segs_per_zone c"
    "prep_areas c1 9 (ucast (ofs div 4096)) segs = Some ar" "k_blks_per_seg c1 = 512" "k_segs_per_zone c1 = k_segs_per_zone c"
    "k_overprovision c1 = k_overprovision c" "k_feature c1 = k_feature c" "prep_reserve c1 sbM = Some c3" "sb_section_count sbM = tz * k_secs_per_zone c"
    "tz = ucast (ucast (segs div k_segs_per_zone c) - ar_meta_zones ar)" "tz > (if has_feature c F2FS_FEATURE_RO then 2 else 6)"
    "\<not> too_small c3 ofs sbM" "k_reserved_segments c3 = k_reserved_segments c'" "sb_segment_count_main sbM = tz * k_secs_per_zone c * k_segs_per_sec c"
    "dv_total_sectors (k_devices c3 ! 0) = k_total_sectors c" "k_sector_size c3 = k_sector_size c"
    "layout_of sb' (ucast (ofs div 4096)) segs ar (tz * k_secs_per_zone c) (tz * k_secs_per_zone c * k_segs_per_sec c)"
    "sb_magic sb' = F2FS_SUPER_MAGIC" "sb_log_sectorsize sb' = of_nat k" "sb_log_sectors_per_block sb' = of_nat j"
    "sb_log_blocksize sb' = 12" "sb_log_blocks_per_seg sb' = 9" "sb_segs_per_sec sb' = k_segs_per_sec c"
    "sb_secs_per_zone sb' = k_secs_per_zone c" "sb_block_count sb' = drop_bit j (k_total_sectors c)" 
    "sb_dev_path0 sb' 0 = 0" "sb_feature sb' = k_feature c" "sb_extension_count sb' = 36" "sb_hot_ext_count sb' = 4"
    "k_feature c AND F2FS_FEATURE_SB_CHKSUM \<noteq> 0 \<Longrightarrow> verify_sb_chksum sb' = 0"
    "sb_root_ino sb' = 3" "sb_node_ino sb' = 1" "sb_meta_ino sb' = 2"
    "c' = (if has_feature c F2FS_FEATURE_RO then prep_cursegs (fst (prep_ids c3 uuid sbM)) tz else verify_cur_segs (prep_cursegs (fst (prep_ids c3 uuid sbM)) tz))"
proof -
  obtain k j sb1 where s: "9 \<le> k" "k + j = 12" "k_sector_size c = 2 ^ k"
    "prep_sizes c zero_buf = Some (sb1, 4096, 2 ^ 21, k_segs_per_zone c * 2 ^ 21, 9)"
    "sb_magic sb1 = F2FS_SUPER_MAGIC" "sb_log_sectorsize sb1 = of_nat k" "sb_log_sectors_per_block sb1 = of_nat j"
    "sb_log_blocksize sb1 = 12" "sb_log_blocks_per_seg sb1 = 9" "sb_segs_per_sec sb1 = k_segs_per_sec c"
    "sb_secs_per_zone sb1 = k_secs_per_zone c" "sb_block_count sb1 = drop_bit j (k_total_sectors c)" "\<And>i. 44 \<le> i \<Longrightarrow> sb1 i = 0"
    by (rule prep_sizes_std [OF assms(2)]) blast
  obtain dv where c: "k_devices c = [dv]" "dv_total_sectors dv = k_total_sectors c" "\<not> k_zoned_mode c" "k_total_segments c = 0"
    "k_ext_media c = None" "k_ext_hot c = None" "k_blks_per_seg c = 512"
    using assms(2) by (auto simp: mkfs_std_def)
  from assms(1) s(4) obtain ofs where ofs: "zone_align_start c (k_segs_per_zone c * 2 ^ 21) = Some ofs"
    by (auto simp: f2fs_prepare_super_block_def split: bind_split_asm)
  define s0 where "s0 = (ucast (ofs div 4096) :: u32)"
  define sb2 where "sb2 = put_le32 76 s0 (put_le32 72 s0 sb1)"
  define tot where "tot = (ucast ((k_total_sectors c * ucast (k_sector_size c) - ofs) div 2 ^ 21) :: u32)"
  define c1 where "c1 = c\<lparr>k_devices := [dv\<lparr>dv_total_segments := tot, dv_start_blkaddr := 0, dv_end_blkaddr := ucast (tot * 512 - 1 + s0)\<rparr>], k_total_segments := tot\<rparr>"
  have sb2: "sb_segment0_blkaddr sb2 = s0" by (simp add: sb2_def sb_fields buf_simps)
  have "prep_main env c1 ofs 9 sb2 = Some (0, c', sb')"
  proof -
    have "zoned_start_ok c s0 = Some True" using c by (simp add: zoned_start_ok_def)
    then show ?thesis
      using assms(1) s(4) ofs c
      by (simp add: f2fs_prepare_super_block_def Let_def s0_def [symmetric] sb2_def [symmetric] sb2 c1_def tot_def)
  qed
  then obtain ar c3 uuid tz sbM where m: "prep_areas c1 9 s0 (tot div k_segs_per_zone c * k_segs_per_zone c) = Some ar"
    "tz = ucast (ucast (tot div k_segs_per_zone c * k_segs_per_zone c div k_segs_per_zone c) - ar_meta_zones ar)" "tz > (if has_feature c F2FS_FEATURE_RO then 2 else 6)"
    "sbM = put_le32 68 (tz * k_secs_per_zone c * k_segs_per_sec c) (put_le32 44 (tz * k_secs_per_zone c) (store_areas (tot div k_segs_per_zone c * k_segs_per_zone c) ar sb2))"
    "prep_reserve c1 sbM = Some c3" "\<not> too_small c3 ofs sbM"
    "c' = (if has_feature c F2FS_FEATURE_RO then prep_cursegs (fst (prep_ids c3 uuid sbM)) tz else verify_cur_segs (prep_cursegs (fst (prep_ids c3 uuid sbM)) tz))"
    "sb' = prep_finish env c' (snd (prep_ids c3 uuid sbM))"
    by (rule prep_main_ok) (simp add: c1_def has_feature_def sb2)
  have c3: "k_ext_media c3 = None" "k_ext_hot c3 = None" "k_feature c3 = k_feature c" "k_devices c3 = k_devices c1" "k_sector_size c3 = k_sector_size c"
    using c(5,6) by (subst prep_reserve_conf(1) [OF m(5)], simp add: c1_def)+
  have c': "k_ext_media c' = None" "k_ext_hot c' = None" "k_feature c' = k_feature c" "k_reserved_segments c' = k_reserved_segments c3"
    using c3 by (simp_all add: m(7) prep_ids_conf cursegs_conf)
  have f32: "le32_at sb' off = le32_at sbM off" if "off + 4 \<le> 32 \<or> 44 \<le> off \<and> off + 4 \<le> 96 \<or> off = 1664" for off
    unfolding m(8) using that by (subst prep_finish_le32 [OF c'(1,2)], auto intro!: prep_ids_le32)
  have b36: "le64_at sb' 36 = le64_at sbM 36"
    unfolding m(8) by (rule le64_at_cong, subst prep_finish_out [OF c'(1,2)], auto intro!: prep_ids_out)
  have p0: "sb' 2201 = sbM 2201" unfolding m(8) by (subst prep_finish_out [OF c'(1,2)], auto intro!: prep_ids_out)
  have sM: "sbM 2201 = 0" using s(13) by (simp add: m(4) store_areas_def sb2_def Let_def buf_simps)
  have ino: "sb_root_ino sb' = 3" "sb_node_ino sb' = 1" "sb_meta_ino sb' = 2"
    unfolding m(8) using prep_ids_inos [of c3 uuid sbM] by (simp_all add: sb_fields prep_finish_le32 [OF c'(1,2)])
  note M = m(4)[unfolded store_areas_def Let_def sb2_def]
  have seg: "tot div k_segs_per_zone c * k_segs_per_zone c =
      ucast ((k_total_sectors c * ucast (k_sector_size c) - ofs) div 2 ^ 21) div k_segs_per_zone c * k_segs_per_zone c"
    by (simp only: tot_def)
  show thesis
  proof (rule that [OF s(1-3) ofs seg m(1)[unfolded s0_def]])
    show "layout_of sb' (ucast (ofs div 4096)) (tot div k_segs_per_zone c * k_segs_per_zone c) ar (tz * k_secs_per_zone c) (tz * k_secs_per_zone c * k_segs_per_sec c)"
      unfolding layout_of_def sb_fields by (simp add: f32 M buf_simps s0_def)
    show "sb_magic sb' = F2FS_SUPER_MAGIC" "sb_log_sectorsize sb' = of_nat k" "sb_log_sectors_per_block sb' = of_nat j"
      "sb_log_blocksize sb' = 12" "sb_log_blocks_per_seg sb' = 9" "sb_segs_per_sec sb' = k_segs_per_sec c"
      "sb_secs_per_zone sb' = k_secs_per_zone c" "sb_block_count sb' = drop_bit j (k_total_sectors c)" "sb_dev_path0 sb' 0 = 0"
      unfolding sb_fields using s(5-12)[unfolded sb_fields] p0 sM by (simp_all add: f32 b36 M buf_simps)
    show "sb_feature sb' = k_feature c" "sb_extension_count sb' = 36" "sb_hot_ext_count sb' = 4"
      "k_feature c AND F2FS_FEATURE_SB_CHKSUM \<noteq> 0 \<Longrightarrow> verify_sb_chksum sb' = 0"
      unfolding m(8) using prep_finish_fields [OF c'(1,2)] c'(3) by simp_all
    show "sb_segment_count_main sbM = tz * k_secs_per_zone c * k_segs_per_sec c" "sb_section_count sbM = tz * k_secs_per_zone c"
      by (simp_all add: M sb_fields buf_simps)
  qed (use m(2,3,5,6,7) c c3 c' ino in \<open>simp_all add: c1_def tot_def\<close>)
qed

lemma u32_of_nat: "n < 2 ^ 32 \<Longrightarrow> unat (of_nat n :: u32) = n"
  by (simp add: unat_of_nat)

lemma zone_align_ge:
  assumes "zone_align_start c zsz = Some ofs" "\<not> k_zoned_mode c"
  shows "8192 \<le> unat ofs"
proof (cases "has_feature c F2FS_FEATURE_RO")
  case True
  with assms show ?thesis by (auto simp: zone_align_start_def Let_def split: if_split_asm)
next
  case False
  define z where "z = unat zsz"
  define st where "st = unat (k_start_sector c) * 512"
  have "zsz \<noteq> 0" using assms(1) by (auto simp: zone_align_start_def)
  then have z: "0 < z" "z < 2 ^ 32" unfolding z_def using u32_less unat_eq_zero [of zsz] by auto
  have s: "st < 2 ^ 41" using u32_less [of "k_start_sector c"] by (simp add: st_def)
  let ?st = "ucast (k_start_sector c) * 512 :: u64"
  have us: "unat ?st = st" using s by (simp add: st_def unat_word_ariths)
  have a: "unat (?st + 8192 + ucast zsz) = st + 8192 + z" using us s z by (simp add: unat_word_ariths z_def)
  have "unat (?st + 8192 + ucast zsz - 1) = st + 8192 + z - 1" using a by (subst unat_sub) (simp_all add: word_le_nat_alt)
  then have d: "unat ((?st + 8192 + ucast zsz - 1) div ucast zsz) = (st + 8192 + z - 1) div z" by (simp add: unat_div z_def)
  define q where "q = (st + 8192 + z - 1) div z"
  have q: "st + 8192 \<le> q * z" "q * z \<le> st + 8192 + z - 1"
    using z(1) dividend_less_div_times [of z "st + 8192 + z - 1"] by (auto simp: q_def)
  have m: "unat ((?st + 8192 + ucast zsz - 1) div ucast zsz * ucast zsz) = q * z"
  proof -
    have w: "unat (x * y) = unat x * unat y mod 2 ^ 64" for x y :: u64 by (simp add: unat_word_ariths)
    have "q * z < 2 ^ 64" using q(2) s z by simp
    then show ?thesis unfolding w d q_def [symmetric] by (simp add: z_def)
  qed
  have "ofs = (?st + 8192 + ucast zsz - 1) div ucast zsz * ucast zsz - ?st"
    using assms False by (auto simp: zone_align_start_def Let_def split: if_split_asm)
  then have "unat ofs = q * z - st" using m us q by (simp add: unat_sub word_le_nat_alt)
  then show ?thesis using q by simp
qed

lemma sit_segments_ge:
  assumes "k_blks_per_seg c = 512" "unat segs \<le> 2 ^ 23" "0 < unat segs"
  shows "1 \<le> unat (sit_segments c segs)"
proof -
  have b: "unat (blocks_for segs SIT_ENTRY_PER_BLOCK) = (unat segs + 54) div 55"
    by (subst unat_blocks_for) (simp_all add: SIT_ENTRY_PER_BLOCK_def)
  have "(unat segs + 54) div 55 \<le> (2 ^ 23 + 54) div 55" by (rule div_le_mono) (use assms(2) in simp)
  then have "unat (sit_segments c segs) = (unat (blocks_for segs SIT_ENTRY_PER_BLOCK) + 511) div 512"
    unfolding sit_segments_def by (intro unat_SEG_ALIGN assms(1)) (simp add: b)
  moreover have "1 \<le> (unat segs + 54) div 55" using assms(3) by simp
  ultimately show ?thesis by (simp add: b)
qed

lemma round_up_exact:
  assumes "unat x = n * unat y" "0 < unat y" "unat x + unat y \<le> 2 ^ 32"
  obtains r where "round_up x y = Some r" "unat r = n"
proof -
  have "y \<noteq> 0" using assms(2) by auto
  moreover have "unat ((x + y - 1) div y) = n"
  proof -
    have "x + (y - 1) = x + y - 1" by simp
    moreover have "unat (y - 1) = unat y - 1" using assms(2) by (subst unat_sub) (simp_all add: word_le_nat_alt)
    moreover have w: "unat (a + b) = (unat a + unat b) mod 2 ^ 32" for a b :: u32 by (simp add: unat_word_ariths)
    moreover have "(unat x + (unat y - 1)) mod 2 ^ 32 = unat x + (unat y - 1)" using assms(2,3) by simp
    ultimately have "unat (x + y - 1) = n * unat y + (unat y - 1)" using assms(1) by metis
    moreover have "(n * unat y + (unat y - 1)) div unat y = n" by (rule div_nat_eqI) (use assms(2) in \<open>simp_all add: mult.commute\<close>)
    ultimately show ?thesis by (simp only: unat_div)
  qed
  ultimately show thesis using that by (simp add: round_up_def)
qed

lemma nat_layout_ge:
  assumes "k_blks_per_seg c = 512" "unat sit \<le> 596" "0 < unat ((segs - (2 + sit)) * 512)"
  shows "2 \<le> unat (fst (nat_layout c 9 segs sit))"
proof -
  define b where "b = blocks_for ((segs - (2 + sit)) * 512) NAT_ENTRY_PER_BLOCK"
  define ms where "ms = (if push_bit 9 (sit div 2) div 8 > of_nat MAX_SIT_BITMAP_SIZE then of_nat MAX_SIT_BITMAP_SIZE else push_bit 9 (sit div 2) div 8 :: u32)"
  define p where "p = (if ms > MAX_SIT_BITMAP_SIZE_IN_CKPT then (MAX_BITMAP_SIZE_IN_CKPT, F2FS_BLK_ALIGN ms) else (MAX_BITMAP_SIZE_IN_CKPT - ms, 0))"
  have bn: "unat b = (unat ((segs - (2 + sit)) * 512) + 454) div 455" unfolding b_def
    by (subst unat_blocks_for) (simp_all add: NAT_ENTRY_PER_BLOCK_def)
  have "1 \<le> unat b" unfolding bn using assms(3) by simp
  moreover have "unat b \<le> (2 ^ 32 + 454) div 455"
    unfolding bn by (rule div_le_mono) (use u32_less in \<open>simp add: less_imp_le\<close>)
  ultimately have b: "1 \<le> unat b" "unat b \<le> 9439489" by simp_all
  then have sa: "unat (SEG_ALIGN c b) = (unat b + 511) div 512" by (intro unat_SEG_ALIGN assms(1)) simp
  also have "\<dots> \<le> (9439489 + 511) div 512" by (rule div_le_mono) (use b in simp)
  finally have n: "1 \<le> unat (SEG_ALIGN c b)" "unat (SEG_ALIGN c b) \<le> 18437" using b by (simp_all add: sa)
  have k: "1 \<le> unat k \<Longrightarrow> unat k \<le> 18437 \<Longrightarrow> 2 \<le> unat (k * 2)" for k :: u32 by (simp add: unat_word_ariths)
  have mp: "1 \<le> unat (drop_bit 9 (x * 8))" "unat (drop_bit 9 (x * 8)) \<le> 18437" if "64 \<le> unat x" "unat x \<le> 3900" for x :: u32
    using that by (simp_all add: unat_drop_bit drop_bit_eq_div unat_word_ariths)
  have fp: "64 \<le> unat (fst p)" "unat (fst p) \<le> 3900"
    by (auto simp: p_def MAX_BITMAP_SIZE_IN_CKPT_def MAX_SIT_BITMAP_SIZE_IN_CKPT_def word_le_nat_alt not_less unat_sub)
  define l where "l = (if SEG_ALIGN c b * 20 div 100 \<noteq> 0 then SEG_ALIGN c b * 20 div 100 else 1 :: u32)"
  have l: "1 \<le> unat l" "unat l \<le> 18437"
  proof -
    have "unat (SEG_ALIGN c b * 20 div 100) \<le> 18437" using n by (simp add: unat_div unat_word_ariths)
    then show "unat l \<le> 18437" by (simp add: l_def)
    show "1 \<le> unat l" using unat_eq_zero [of "SEG_ALIGN c b * 20 div 100"] by (auto simp: l_def)
  qed
  have "fst (nat_layout c 9 segs sit) = (if k_large_nat_bitmap c then l * 2
    else (if SEG_ALIGN c b > drop_bit 9 (fst p * 8) then drop_bit 9 (fst p * 8) else SEG_ALIGN c b) * 2)"
    unfolding nat_layout_def Let_def assms(1) b_def [symmetric] unfolding ms_def [symmetric] unfolding l_def [symmetric] p_def
    by simp
  with l n mp [OF fp] k show ?thesis by auto
qed

lemma total_segments_unat:
  fixes ts :: u64 and ss :: u32
  assumes "unat ts * unat ss < 2 ^ 44" "unat ofs \<le> unat ts * unat ss"
  shows "unat (ucast ((ts * ucast ss - ofs) div 2 ^ 21) :: u32) = (unat ts * unat ss - unat ofs) div 2 ^ 21"
    "(unat ts * unat ss - unat ofs) div 2 ^ 21 < 2 ^ 23"
proof -
  have B: "unat (ts * ucast ss) = unat ts * unat ss" using assms(1) by (simp add: unat_word_ariths)
  show t: "(unat ts * unat ss - unat ofs) div 2 ^ 21 < 2 ^ 23" using assms(1) by (simp add: less_mult_imp_div_less)
  have "unat ((ts * ucast ss - ofs) div 2 ^ 21) = (unat ts * unat ss - unat ofs) div 2 ^ 21"
    using assms(2) B by (simp add: unat_div unat_sub word_le_nat_alt)
  with t show "unat (ucast ((ts * ucast ss - ofs) div 2 ^ 21) :: u32) = (unat ts * unat ss - unat ofs) div 2 ^ 21"
    by (subst unat_ucast_u32) simp_all
qed

lemma whole_zones_unat: "unat (t div z * z) = unat t div unat z * unat z" for t z :: u32
proof -
  have w: "unat (x * y) = unat x * unat y mod 2 ^ 32" for x y :: u32 by (simp add: unat_word_ariths)
  have "unat t div unat z * unat z < 2 ^ 32" by (rule le_less_trans [OF div_times_less_eq_dividend u32_less])
  then show ?thesis by (simp only: w unat_div mod_less)
qed

text \<open>The zones left to the main area, if their number did not wrap around.\<close>

lemma main_zones_unat:
  fixes segs z tz :: u32 and mz :: u64
  defines "S \<equiv> unat segs" and "spz \<equiv> unat z" and "M \<equiv> unat mz"
  assumes "S div spz * spz = S" "0 < spz" "S < 2 ^ 23" "M * spz \<le> 26404" "tz = ucast (ucast (segs div z) - mz)" "unat (tz * z) \<le> S"
  shows "M * spz \<le> S" "unat tz = S div spz - M" "unat (tz * z) = (S div spz - M) * spz" "(S div spz - M) * spz = S - M * spz"
proof -
  have "unat (segs div z) = S div spz" by (simp add: unat_div S_def spz_def)
  then have sz: "segs div z = of_nat (S div spz)" by (metis of_nat_unat ucast_id)
  have tzw: "tz = of_nat (S div spz) - of_nat M"
    unfolding assms(8) ucast_u32_diff ucast_u32_ucast unfolding sz by (simp only: ucast_u32_of_nat M_def)
  have z: "z = of_nat spz" unfolding spz_def by (metis of_nat_unat ucast_id)
  have mw: "tz * z = of_nat (S div spz * spz) - of_nat (M * spz)" unfolding z by (simp add: tzw left_diff_distrib)
  note mainw = mw [unfolded assms(4)]
  show TS: "M * spz \<le> S"
  proof (rule ccontr)
    assume "\<not> M * spz \<le> S"
    then have l: "S < M * spz" by simp
    have "(of_nat S - of_nat (M * spz) :: u32) = of_nat (2 ^ 32 + S - M * spz)"
      using assms(7) by (subst of_nat_diff) simp_all
    moreover have "unat (of_nat (2 ^ 32 + S - M * spz) :: u32) = 2 ^ 32 + S - M * spz"
      by (rule u32_of_nat) (use assms(7) l in simp)
    ultimately have "unat (tz * z) = 2 ^ 32 + S - M * spz" by (simp only: mainw)
    then show False using assms(9) l assms(7) by simp
  qed
  show zsp: "(S div spz - M) * spz = S - M * spz" by (simp add: diff_mult_distrib assms(4))
  have MS: "M \<le> S div spz" using TS assms(5) by (simp add: less_eq_div_iff_mult_less_eq)
  have "S div spz - M < 2 ^ 32" by (rule le_less_trans [of _ S]) (use assms(6) div_le_dividend [of S spz] in \<open>auto intro: le_trans [OF diff_le_self]\<close>)
  then show "unat tz = S div spz - M" using u32_of_nat [of "S div spz - M"] MS by (simp add: tzw of_nat_diff)
  show "unat (tz * z) = (S div spz - M) * spz"
    unfolding mainw zsp using u32_of_nat [of "S - M * spz"] TS assms(6) by (simp add: of_nat_diff)
qed

lemma areas_ssa_unat:
  assumes "prep_areas c 9 s0 segs = Some ar" "k_blks_per_seg c = 512" "0 < unat (k_segs_per_zone c)" "unat (k_segs_per_zone c) < 2 ^ 11"
    "unat segs \<le> 2 ^ 23"
  shows "unat (ar_ssa ar) + (2 + unat (ar_sit ar) + unat (ar_nat ar)) = unat (ar_meta_zones ar) * unat (k_segs_per_zone c)"
proof -
  note ab = prep_areas_bounds [OF assms]
  define T where "T = unat (ar_meta_zones ar) * unat (k_segs_per_zone c)"
  have w: "ar_ssa ar = of_nat T - (2 + ar_sit ar + ar_nat ar)"
    using prep_areas_words(5) [OF assms(1-3) order.strict_trans [OF assms(4)]] by (simp add: T_def)
  have "unat (of_nat T :: u32) = T" by (rule u32_of_nat) (use ab(4) in \<open>simp add: T_def\<close>)
  moreover have "unat (2 + ar_sit ar + ar_nat ar) = 2 + unat (ar_sit ar) + unat (ar_nat ar)" using ab(1,2) by (simp add: unat_word_ariths)
  ultimately have "unat (ar_ssa ar) = T - (2 + unat (ar_sit ar) + unat (ar_nat ar))"
    unfolding w using ab(5) by (subst unat_sub) (simp_all only: word_le_nat_alt T_def)
  with ab(5) show ?thesis by (simp add: T_def)
qed

text \<open>SIT and NAT have at least one segment per copy.\<close>

lemma areas_nonempty:
  assumes "prep_areas c 9 s0 segs = Some ar" "k_blks_per_seg c = 512" "0 < unat (k_segs_per_zone c)" "unat (k_segs_per_zone c) < 2 ^ 11"
    "unat segs \<le> 2 ^ 23" "unat (ar_meta_zones ar) * unat (k_segs_per_zone c) < unat segs"
  shows "2 \<le> unat (ar_sit ar)" "2 \<le> unat (ar_nat ar)"
proof -
  note ab = prep_areas_bounds [OF assms(1-5)]
  note aw = prep_areas_words [OF assms(1-3) order.strict_trans [OF assms(4)], simplified]
  have l: "2 + unat (ar_sit ar) + unat (ar_nat ar) < unat segs" using ab(5) assms(6) by simp
  have "unat (2 + ar_sit ar) = 2 + unat (ar_sit ar)" using ab(1) by (simp add: unat_word_ariths)
  then have "unat (segs - (2 + ar_sit ar)) = unat segs - (2 + unat (ar_sit ar))" using l by (subst unat_sub) (simp_all add: word_le_nat_alt)
  then have y: "0 < unat (segs - (2 + ar_sit ar))" "unat (segs - (2 + ar_sit ar)) < 2 ^ 23" using l assms(5) by simp_all
  have "0 < unat (y * 512)" if "0 < unat y" "unat y < 2 ^ 23" for y :: u32 using that by (simp add: unat_word_ariths)
  from this [OF y] show "2 \<le> unat (ar_nat ar)" using nat_layout_ge [OF assms(2) ab(1), of segs] aw(7) by (metis fst_conv)
  show "2 \<le> unat (ar_sit ar)"
    using sit_segments_ge [OF assms(2,5)] sit_bound [OF assms(2,5)] l aw(6) by (simp add: unat_word_ariths)
qed

lemma reserve_numbers:
  assumes "prep_reserve c sb = Some c'" "\<not> too_small c' ofs sb" "0 \<le> k_overprovision c" "\<not> has_feature c F2FS_FEATURE_RO"
    "unat (sb_segment_count_main sb) = n * unat (sb_section_count sb)" "0 < n" "6 < unat (sb_section_count sb)"
    "unat (sb_segment_count_main sb) < 2 ^ 23"
  shows "8 * n \<le> unat (k_reserved_segments c')" "unat (k_reserved_segments c') + 6 \<le> unat (sb_segment_count_main sb)"
proof -
  have le: "unat (sb_section_count sb) \<le> unat (sb_segment_count_main sb)" unfolding assms(5) using assms(6) by (cases n) auto
  obtain r where r: "round_up (sb_segment_count_main sb) (sb_section_count sb) = Some r" "unat r = n"
    by (rule round_up_exact [OF assms(5)]) (use assms(7,8) le in auto)
  show "8 * n \<le> unat (k_reserved_segments c')"
    using prep_reserve_ge(1) [OF assms(1,3,4) r(1)] r(2) assms(6) by simp
  have "7 \<le> unat (sb_segment_count_main sb)" using le assms(7) by linarith
  moreover from this have "unat (sb_segment_count_main sb - 6) = unat (sb_segment_count_main sb) - 6"
    by (subst unat_sub) (simp_all add: word_le_nat_alt)
  moreover from this have "unat (k_reserved_segments c') \<le> unat (sb_segment_count_main sb) - 6"
    using assms(2) by (simp add: too_small_def NR_CURSEG_TYPE_def word_less_nat_alt not_less)
  ultimately show "unat (k_reserved_segments c') + 6 \<le> unat (sb_segment_count_main sb)" by linarith
qed

text \<open>The numbers of a prepared layout: \<open>zs\<close> zones of the main area follow the segments of metadata.\<close>

lemma prepared_numbers:
  assumes "f2fs_prepare_super_block env c zero_buf = Some (0, c', sb')" "mkfs_std c" "0 \<le> k_overprovision c"
    "unat (sb_segment_count_main sb') \<le> unat (sb_segment_count sb')"
  defines "spz \<equiv> unat (k_segs_per_sec c) * unat (k_secs_per_zone c)"
  obtains zs where "(if has_feature c F2FS_FEATURE_RO then 2 else 6) < zs"
    "unat (sb_section_count sb') = zs * unat (k_secs_per_zone c)" "unat (sb_segment_count_main sb') = zs * spz"
    "unat (sb_segment_count sb') = 2 + unat (sb_segment_count_sit sb') + unat (sb_segment_count_nat sb') + unat (sb_segment_count_ssa sb') + zs * spz"
    "unat (sb_segment_count sb') < 2 ^ 23" "unat (sb_cp_payload sb') \<le> 62"
    "2 \<le> unat (sb_segment0_blkaddr sb')"
    "(unat (sb_segment0_blkaddr sb') + unat (sb_segment_count sb') * 512) * 4096 \<le> unat (k_total_sectors c) * unat (k_sector_size c)"
    "\<not> has_feature c F2FS_FEATURE_RO \<Longrightarrow> 8 * unat (k_segs_per_sec c) \<le> unat (k_reserved_segments c') \<and> unat (k_reserved_segments c') + 6 \<le> zs * spz"
    "has_feature c F2FS_FEATURE_RO \<Longrightarrow> k_reserved_segments c' = 0" "2 \<le> unat (sb_segment_count_sit sb')" "2 \<le> unat (sb_segment_count_nat sb')"
proof -
  obtain k j ofs ar segs tz c1 c3 uuid sbM where p: "9 \<le> k" "k + j = 12" "k_sector_size c = 2 ^ k" 
    "zone_align_start c (k_segs_per_zone c * 2 ^ 21) = Some ofs"
    "segs = ucast ((k_total_sectors c * ucast (k_sector_size c) - ofs) div 2 ^ 21) div k_segs_per_zone c * k_segs_per_zone c"
    "prep_areas c1 9 (ucast (ofs div 4096)) segs = Some ar" "k_blks_per_seg c1 = 512" "k_segs_per_zone c1 = k_segs_per_zone c"
    "k_overprovision c1 = k_overprovision c" "k_feature c1 = k_feature c" "prep_reserve c1 sbM = Some c3" "sb_section_count sbM = tz * k_secs_per_zone c"
    "tz = ucast (ucast (segs div k_segs_per_zone c) - ar_meta_zones ar)" "tz > (if has_feature c F2FS_FEATURE_RO then 2 else 6)"
    "\<not> too_small c3 ofs sbM" "k_reserved_segments c3 = k_reserved_segments c'" "sb_segment_count_main sbM = tz * k_secs_per_zone c * k_segs_per_sec c"
    "dv_total_sectors (k_devices c3 ! 0) = k_total_sectors c" "k_sector_size c3 = k_sector_size c"
    "layout_of sb' (ucast (ofs div 4096)) segs ar (tz * k_secs_per_zone c) (tz * k_secs_per_zone c * k_segs_per_sec c)"
    by (rule prepare_std [OF assms(1,2)]) blast
  note lay = p(20) [unfolded layout_of_def]
  have spz: "unat (k_segs_per_zone c) = spz" "0 < spz" "spz < 2 ^ 11" "0 < unat (k_secs_per_zone c)" "0 < unat (k_segs_per_sec c)"
    "k_segs_per_zone c = k_secs_per_zone c * k_segs_per_sec c" "\<not> k_zoned_mode c"
    using assms(2) by (auto simp: mkfs_std_def spz_def unat_word_ariths)
  define B where "B = unat (k_total_sectors c) * unat (k_sector_size c)"
  have B: "B < 2 ^ 44" using assms(2) by (auto simp: mkfs_std_def B_def)
  have ofs: "8192 \<le> unat ofs" "unat ofs \<le> B"
    using zone_align_ge [OF p(4) spz(7)] p(15,18,19) B by (auto simp: too_small_def word_less_nat_alt unat_word_ariths B_def)
  note tot = total_segments_unat [OF B [unfolded B_def] ofs(2) [unfolded B_def], folded B_def]
  define S where "S = unat segs"
  have S: "S = (B - unat ofs) div 2 ^ 21 div spz * spz" unfolding S_def p(5) whole_zones_unat tot(1) spz(1) ..
  have S2: "S \<le> (B - unat ofs) div 2 ^ 21" "S div spz * spz = S" unfolding S using spz(2) by simp_all
  have S23: "S < 2 ^ 23" using S2(1) tot(2) by linarith
  have ar: "0 < unat (k_segs_per_zone c1)" "unat (k_segs_per_zone c1) < 2 ^ 11" "unat segs \<le> 2 ^ 23"
    using spz S23 by (simp_all add: p(8) S_def)
  note ab = prep_areas_bounds [OF p(6,7) ar, unfolded p(8) spz(1)]
  have cnt: "unat (sb_segment_count sb') = S" "sb_segment_count_main sb' = tz * k_segs_per_zone c" using lay by (simp_all add: S_def spz(6))
  define zs where "zs = S div spz - unat (ar_meta_zones ar)"
  note mz = main_zones_unat [of segs "k_segs_per_zone c", unfolded spz(1), folded S_def, OF S2(2) spz(2) S23 ab(4) p(13)
    assms(4) [unfolded cnt], folded zs_def]
  have zl: "zs * unat (k_secs_per_zone c) \<le> zs * spz" "zs \<le> zs * unat (k_secs_per_zone c)"
    using spz(4,5) by (simp_all add: spz_def)
  have zb: "zs * spz < 2 ^ 23" using mz(4) S23 by linarith
  have usec: "unat (sb_section_count sb') = zs * unat (k_secs_per_zone c)"
    using le_less_trans [OF zl(1) zb] mz(2) lay by (simp add: unat_word_ariths)
  have umain: "unat (sb_segment_count_main sb') = zs * spz" by (simp add: cnt mz(3))
  have mM: "sb_segment_count_main sbM = sb_segment_count_main sb'" "sb_section_count sbM = sb_section_count sb'" using p(12,17) lay by simp_all
  have zs: "(if has_feature c F2FS_FEATURE_RO then 2 else 6) < zs" using p(14) mz(2) by (auto simp: word_less_nat_alt)
  have ne: "unat (ar_meta_zones ar) * spz < S" using zs spz(2) mz(4) by (cases "S \<le> unat (ar_meta_zones ar) * spz") auto
  have s0: "unat (sb_segment0_blkaddr sb') = unat ofs div 4096"
    using ofs(2) B lay by (simp add: unat_ucast_u32 unat_div less_mult_imp_div_less)
  show thesis
  proof (rule that [OF zs usec umain])
    show "unat (sb_segment_count sb') < 2 ^ 23" "unat (sb_cp_payload sb') \<le> 62" using lay S23 ab(3) by (auto simp: S_def)
    show "unat (sb_segment_count sb') = 2 + unat (sb_segment_count_sit sb') + unat (sb_segment_count_nat sb') + unat (sb_segment_count_ssa sb') + zs * spz"
      using areas_ssa_unat [OF p(6,7) ar] lay mz(1,4) by (simp add: S_def p(8) spz(1))
    show "2 \<le> unat (sb_segment0_blkaddr sb')" unfolding s0 using ofs(1) by (simp add: less_eq_div_iff_mult_less_eq)
    have "S * 2 ^ 21 \<le> B - unat ofs" using S2(1) by (simp add: less_eq_div_iff_mult_less_eq)
    moreover have "unat ofs div 4096 * 4096 \<le> unat ofs" by simp
    ultimately show "(unat (sb_segment0_blkaddr sb') + unat (sb_segment_count sb') * 512) * 4096 \<le> unat (k_total_sectors c) * unat (k_sector_size c)"
      unfolding s0 cnt B_def [symmetric] using ofs(2) by (simp add: distrib_right)
    show "8 * unat (k_segs_per_sec c) \<le> unat (k_reserved_segments c') \<and> unat (k_reserved_segments c') + 6 \<le> zs * spz"
      if ro: "\<not> has_feature c F2FS_FEATURE_RO"
      using reserve_numbers [OF p(11,15), of "unat (k_segs_per_sec c)", unfolded mM] assms(3) ro less_le_trans [OF _ zl(2), of 6] zs zb spz(5)
      by (simp add: p(9,10,16) has_feature_def umain usec spz_def ac_simps)
    show "has_feature c F2FS_FEATURE_RO \<Longrightarrow> k_reserved_segments c' = 0"
      using prep_reserve_conf(2) [OF p(11)] p(10,16) by (simp add: has_feature_def)
    show "2 \<le> unat (sb_segment_count_sit sb')" "2 \<le> unat (sb_segment_count_nat sb')"
      using areas_nonempty [OF p(6,7) ar] ne lay by (simp_all add: p(8) spz(1) S_def)
  qed
qed

lemma u32_div_mult:
  fixes t s :: u32
  shows "t div s * s div s * s = t div s * s"
proof (cases "s = 0")
  case False
  have w: "unat (x * y) = unat x * unat y mod 2 ^ 32" for x y :: u32 by (simp add: unat_word_ariths)
  have "unat t div unat s * unat s < 2 ^ 32" by (rule le_less_trans [OF div_times_less_eq_dividend u32_less])
  then have "unat (t div s * s) = unat t div unat s * unat s" by (simp add: w unat_div)
  then have "unat (t div s * s div s) = unat (t div s)" using False by (simp add: unat_div unat_eq_zero)
  then show ?thesis by (metis word_unat_eq_iff)
qed simp

text \<open>The areas of the prepared super block follow each other without a gap, up to the end of the volume.\<close>

lemma prepared_boundary:
  assumes "f2fs_prepare_super_block env c zero_buf = Some (0, c', sb')" "mkfs_std c"
  shows "sanity_check_area_boundary sb' a d = Some (0, sb', d)"
proof -
  obtain ofs ar segs tz c1 where p:
    "segs = ucast ((k_total_sectors c * ucast (k_sector_size c) - ofs) div 2 ^ 21) div k_segs_per_zone c * k_segs_per_zone c"
    "prep_areas c1 9 (ucast (ofs div 4096)) segs = Some ar" "k_blks_per_seg c1 = 512" "k_segs_per_zone c1 = k_segs_per_zone c"
    "tz = ucast (ucast (segs div k_segs_per_zone c) - ar_meta_zones ar)"
    "layout_of sb' (ucast (ofs div 4096)) segs ar (tz * k_secs_per_zone c) (tz * k_secs_per_zone c * k_segs_per_sec c)"
    "sb_log_blocks_per_seg sb' = 9"
    by (rule prepare_std [OF assms]) blast
  define s0 where "s0 = (ucast (ofs div 4096) :: u32)"
  have spz: "0 < unat (k_segs_per_zone c)" "unat (k_segs_per_zone c) < 2 ^ 23" "k_segs_per_zone c = k_segs_per_sec c * k_secs_per_zone c"
    using assms(2) by (auto simp: mkfs_std_def unat_word_ariths)
  note aw = prep_areas_words [OF p(2,3), unfolded p(4), OF spz(1,2)]
  have main: "tz * k_secs_per_zone c * k_segs_per_sec c = segs - (2 + ar_sit ar + ar_nat ar + ar_ssa ar)"
  proof -
    have "tz * k_segs_per_zone c = segs - of_nat (unat (ar_meta_zones ar) * unat (k_segs_per_zone c))"
    proof -
      have "segs div k_segs_per_zone c * k_segs_per_zone c = segs" unfolding p(1) by (rule u32_div_mult)
      moreover have "of_nat (unat (ar_meta_zones ar) * unat (k_segs_per_zone c)) = (ucast (ar_meta_zones ar) * k_segs_per_zone c :: u32)"
        unfolding ucast_u32_of_nat by simp
      ultimately show ?thesis unfolding p(5) ucast_u32_diff ucast_u32_ucast by (simp only: left_diff_distrib)
    qed
    then show ?thesis using aw(5) by (simp add: spz(3) ac_simps)
  qed
  have m: "ar_main_blkaddr ar = s0 + (2 + ar_sit ar + ar_nat ar + ar_ssa ar) * 512"
    using aw(1-4) by (simp add: s0_def distrib_right)
  have shl: "shl32 x 9 = Some (x * 512)" for x by (simp add: shl32_def push_bit_eq_mult)
  show ?thesis
    using p(6,7) aw(1-4) m main unfolding layout_of_def s0_def [symmetric]
    by (simp add: sanity_check_area_boundary_def Let_def shl left_diff_distrib)
qed

definition demo_device :: mkfs_device where
  "demo_device = \<lparr>dv_path = zero_buf, dv_total_sectors = 2097152, dv_start_blkaddr = 0, dv_end_blkaddr = 0,
     dv_total_segments = 0, dv_zoned_hm = False, dv_nr_rnd_zones = 0\<rparr>"

definition demo_conf :: mkfs_conf where
  "demo_conf = \<lparr>k_sector_size = 512, k_sectors_per_blk = 8, k_blks_per_seg = 512, k_segs_per_sec = 1, k_secs_per_zone = 1,
     k_segs_per_zone = 1, k_start_sector = 0, k_total_sectors = 2097152, k_total_segments = 0, k_overprovision = 5,
     k_reserved_segments = 0, k_cur_seg = (\<lambda>_. 0), k_feature = 0, k_zoned_mode = False, k_zone_blocks = 0, k_heap = False,
     k_trim = False, k_trimmed = False, k_large_nat_bitmap = False, k_devices = [demo_device], k_ext_media = None, k_ext_hot = None,
     k_vol_uuid = None, k_vol_label = [], k_major_ver = 1, k_minor_ver = 14, k_s_encoding = 0, k_s_encoding_flags = 0,
     k_quota_bits = 0, k_next_free_nid = 0, k_quota_inum = 0, k_quota_dnum = 0, k_lpf_ino = 0, k_lpf_inum = 0, k_lpf_dnum = 0,
     k_root_uid = 0, k_root_gid = 0, k_chksum_seed = 0\<rparr>"

definition demo_env :: mkfs_env where
  "demo_env = \<lparr>env_uuid = (\<lambda>_. Some zero_buf), env_version = zero_buf, env_rand = 6, env_time = 0\<rparr>"

lemma demo_std: "mkfs_std demo_conf"
  by (auto simp: mkfs_std_def demo_conf_def demo_device_def intro!: bexI [of _ 9])

lemma demo_areas:
  "prep_areas (demo_conf\<lparr>k_devices := dvs, k_total_segments := 511\<rparr>) 9 512 511 = Some \<lparr>ar_sit_blkaddr = 1536, ar_sit = 2, ar_nat_blkaddr = 2560,
     ar_nat = 4, ar_payload = 0, ar_ssa_blkaddr = 4608, ar_ssa = 1, ar_main_blkaddr = 5120, ar_meta_zones = 9\<rparr>"
  by (simp add: prep_areas_def demo_conf_def has_feature_def sit_segments_def nat_layout_def SEG_ALIGN_def blocks_for_def SIT_ENTRY_PER_BLOCK_def NAT_ENTRY_PER_BLOCK_def MAX_SIT_BITMAP_SIZE_eq MAX_SIT_BITMAP_SIZE_IN_CKPT_def MAX_BITMAP_SIZE_IN_CKPT_def)

lemma demo_reserved: "double_to_u32 (reserved_for 5 1) = Some 48"
  by code_simp

lemma demo_logs: "log_base_2 512 = 9" "log_base_2 8 = 3"
  using log_base_2_pow2 [of 9] log_base_2_pow2 [of 3] by simp_all

lemma demo_main:
  fixes dvs sb
  defines "c \<equiv> demo_conf\<lparr>k_devices := [demo_device\<lparr>dv_total_segments := 511, dv_start_blkaddr := 0, dv_end_blkaddr := 262143\<rparr>], k_total_segments := 511\<rparr>"
  assumes "sb_segment0_blkaddr sb = 512"
  shows "\<exists>c' sb'. prep_main demo_env c 2097152 9 sb = Some (0, c', sb') \<and> sb_segment_count_main sb' = 502 \<and> sb_segment_count sb' = 511"
proof -
  define ar where "ar = \<lparr>ar_sit_blkaddr = 1536, ar_sit = 2, ar_nat_blkaddr = 2560,
     ar_nat = 4, ar_payload = 0, ar_ssa_blkaddr = 4608, ar_ssa = 1, ar_main_blkaddr = 5120, ar_meta_zones = 9 :: u64\<rparr>"
  have c: "k_segs_per_zone c = 1" "k_total_segments c = 511" "k_secs_per_zone c = 1" "k_segs_per_sec c = 1" "\<not> has_feature c f"
    "zoned_space_ok c a = Some True" for f a
    by (simp_all add: c_def demo_conf_def has_feature_def zoned_space_ok_def)
  define sbM where "sbM = put_le32 68 502 (put_le32 44 502 (store_areas 511 ar sb))"
  have sM: "sb_section_count sbM = 502" "sb_segment_count_main sbM = 502" "sb_section_count (put_le32 44 502 (store_areas 511 ar sb)) = 502"
    by (simp_all add: sbM_def sb_fields buf_simps)
  have r: "prep_reserve c sbM = Some (c\<lparr>k_overprovision := 5, k_reserved_segments := 48\<rparr>)"
    using demo_reserved c(5)
    by (simp add: prep_reserve_def f2fs_get_usable_segments_def sM round_up_def) (simp add: c_def demo_conf_def)
  have ts: "\<not> too_small (c\<lparr>k_overprovision := 5, k_reserved_segments := 48\<rparr>) 2097152 sbM"
    by (simp add: too_small_def sM c_def demo_conf_def demo_device_def F2FS_MIN_SEGMENTS_def NR_CURSEG_TYPE_def)
  have a: "prep_areas c 9 512 511 = Some ar" unfolding c_def ar_def by (rule demo_areas)
  obtain c4 sb4 where i: "prep_ids (c\<lparr>k_overprovision := 5, k_reserved_segments := 48\<rparr>) zero_buf sbM = (c4, sb4)" by fastforce
  define c5 where "c5 = verify_cur_segs (prep_cursegs c4 502)"
  have k: "k_ext_media c5 = None" "k_ext_hot c5 = None" "k_feature c4 = 0"
    using prep_ids_conf [of "c\<lparr>k_overprovision := 5, k_reserved_segments := 48\<rparr>" zero_buf sbM] i
    by (simp_all add: c5_def cursegs_conf c_def demo_conf_def)
  have f: "le32_at (prep_finish demo_env c5 sb4) off = le32_at sbM off" if "off \<in> {48, 68}" for off
    using that prep_ids_le32 [of off "c\<lparr>k_overprovision := 5, k_reserved_segments := 48\<rparr>" zero_buf sbM]
    by (subst prep_finish_le32 [OF k(1,2)]) (auto simp: i)
  have "sb_segment_count_main (prep_finish demo_env c5 sb4) = 502" "sb_segment_count (prep_finish demo_env c5 sb4) = 511"
    by (simp_all add: sb_fields f) (simp_all add: sbM_def store_areas_def buf_simps)
  moreover have "\<not> has_feature c4 f" for f using k(3) by (simp add: has_feature_def)
  moreover have "k_feature (prep_cursegs c4 502) = 0" by (simp add: k(3) cursegs_conf)
  moreover have "ar_meta_zones ar = 9" by (simp add: ar_def)
  ultimately show ?thesis
    using r ts i unfolding sbM_def c5_def
    by (simp add: prep_main_def assms(2) c a Let_def demo_env_def sM has_feature_def)
qed

lemma demo_prepare:
  obtains c' sb' where "f2fs_prepare_super_block demo_env demo_conf zero_buf = Some (0, c', sb')"
    "unat (sb_segment_count_main sb') \<le> unat (sb_segment_count sb')"
proof -
  have s: "prep_sizes demo_conf zero_buf = Some (put_le64 36 262144 (put_le32 32 0 (put_le32 28 1 (put_le32 24 1
      (put_le32 20 9 (put_le32 16 12 (put_le32 12 3 (put_le32 8 9 (put_le16 6 14 (put_le16 4 1 (put_le32 0 F2FS_SUPER_MAGIC zero_buf)))))))))),
      4096, 2097152, 2097152, 9)"
    by (simp add: prep_sizes_def demo_conf_def demo_logs shl32_def drop_bit_eq_div)
  have z: "zone_align_start demo_conf 2097152 = Some 2097152" "zoned_start_ok demo_conf 512 = Some True"
    by (simp_all add: zone_align_start_def zoned_start_ok_def demo_conf_def has_feature_def)
  have dv: "k_devices demo_conf = [demo_device]" "k_total_segments demo_conf = 0" "k_sector_size demo_conf = 512" "k_blks_per_seg demo_conf = 512"
    "dv_total_sectors demo_device = 2097152"
    by (simp_all add: demo_conf_def demo_device_def)
  obtain c' sb' where p: "f2fs_prepare_super_block demo_env demo_conf zero_buf = Some (0, c', sb')" "sb_segment_count_main sb' = 502" "sb_segment_count sb' = 511"
    using demo_main [of "put_le32 76 512 (put_le32 72 512 _)"]
    by (simp add: f2fs_prepare_super_block_def s z dv sb_fields buf_simps) blast
  show thesis using p by (intro that [of c' sb']) simp_all
qed


end
