(* ===== verification/Spec2Isabelle.thy ===== *)
theory Spec2Isabelle
  imports Prelude Bitops Utf Checksum Hash Device Super Ckpt Meta NatMgr SitMgr Segment Node CpWrite Recovery Dir Format
begin

text \<open>
  A verification development for f2fs-tools: the format, check and repair tools of the F2FS
  file system.

  \<^bold>\<open>Parts of the program and where they are modelled.\<close>
  \<^item> \<open>Prelude\<close>: bytes, little-endian fields and copies in C objects seen as byte buffers.
  \<^item> \<open>Bitops\<close>: bit operations of \<open>lib/libf2fs.c\<close> (bitmaps in both bit orders, searches).
  \<^item> \<open>Utf\<close>: the conversions between UTF-8 and UTF-16 of \<open>lib/libf2fs.c\<close>.
  \<^item> \<open>Checksum\<close>: the CRC and the node and checkpoint checksums of \<open>lib/libf2fs.c\<close>.
  \<^item> \<open>Hash\<close>: the directory entry hash of \<open>lib/libf2fs.c\<close>.
  \<^item> \<open>Device\<close>: the device layer and its block cache, \<open>lib/libf2fs_io.c\<close>.
\<close>

end
